(* ===== verification/Prelude.thy ===== *)
theory Prelude
  imports Main "HOL-Library.Word"
begin

text \<open>
  Shared vocabulary of the development: machine integers at their width, results of
  operations that can fail, and the small calculus for "if the operation returns, the
  state satisfies P" that the component theories use.  Nothing here is about a
  particular class of the library.
\<close>

section \<open>Machine integers\<close>

type_synonym byte = "8 word"
type_synonym u8 = "8 word"
type_synonym u16 = "16 word"
type_synonym u32 = "32 word"

text \<open>
  Time stamps are read from \<open>millis()\<close>, a 32-bit counter that wraps every 49.7 days.
  The code always compares differences, which is exact as long as less than \<open>2 ^ 32\<close>
  milliseconds passed.
\<close>

lemma elapsed_exact:
  fixes t :: u32
  assumes "d < 2 ^ 32"
  shows "unat ((t + of_nat d) - t) = d"
  using assms by (simp add: take_bit_nat_eq_self unat_of_nat)

lemma word_sub_min_unat:
  fixes a b :: "'w::len word"
  shows "unat (a - (if a > b then b else a)) = unat a - unat b"
proof (cases "a > b")
  case True
  then have "unat (a - b) = unat a - unat b"
    by (simp add: unat_sub)
  with True show ?thesis by simp
next
  case False
  then have "unat a \<le> unat b" by (simp add: word_le_nat_alt word_less_nat_alt)
  with False show ?thesis by simp
qed

section \<open>Results\<close>

text \<open>
  What can go wrong in a call, apart from the error codes the code itself returns:
  \<^item> the library reads or writes a member of an object that was deleted
    (\<open>Use_after_free\<close>), or of an SSL context that was deleted (\<open>Ssl_use_after_free\<close>);
  \<^item> user code calls a method of, or deletes, a client it deleted before
    (\<open>User_use_after_free\<close>), or deletes it from its own destructor (\<open>Double_delete\<close>);
  \<^item> a loop does not end within the fuel it was given (\<open>No_return\<close>);
  \<^item> the code calls \<open>panic()\<close> (\<open>Panic\<close>), or goes through a pointer that is NULL because
    an allocation failed (\<open>Null_pointer\<close>);
  \<^item> a user callback claims to have handled more bytes than it was given, and the code
    goes on behind the end of the data (\<open>Out_of_bounds\<close>).
\<close>

datatype fault =
    Use_after_free
  | Ssl_use_after_free
  | User_use_after_free
  | Double_delete
  | No_return
  | Panic
  | Null_pointer
  | Out_of_bounds

type_synonym 'a res = "fault + 'a"

definition rbind :: "'a res \<Rightarrow> ('a \<Rightarrow> 'b res) \<Rightarrow> 'b res" where
  "rbind r f = (case r of Inl e \<Rightarrow> Inl e | Inr a \<Rightarrow> f a)"

lemma rbind_Inl [simp]: "rbind (Inl e) f = Inl e"
  by (simp add: rbind_def)

lemma rbind_Inr [simp]: "rbind (Inr a) f = f a"
  by (simp add: rbind_def)

lemma rbind_eq_Inr: "rbind r f = Inr b \<longleftrightarrow> (\<exists>a. r = Inr a \<and> f a = Inr b)"
  by (cases r) auto

lemma rbind_assoc: "rbind (rbind r f) g = rbind r (\<lambda>a. rbind (f a) g)"
  by (cases r) auto

lemma rbind_cong [fundef_cong]:
  "r = r' \<Longrightarrow> (\<And>a. r' = Inr a \<Longrightarrow> f a = g a) \<Longrightarrow> rbind r f = rbind r' g"
  by (cases r') auto

text \<open>
  \<open>ok P r\<close>: if the call returns, the result satisfies \<open>P\<close>.  The rules in \<open>ok_intros\<close>
  are applied backwards along the text of an operation.
\<close>

definition ok :: "('a \<Rightarrow> bool) \<Rightarrow> 'a res \<Rightarrow> bool" where
  "ok P r \<longleftrightarrow> (case r of Inl _ \<Rightarrow> True | Inr a \<Rightarrow> P a)"

named_theorems ok_intros

lemma ok_Inl [simp]: "ok P (Inl e)"
  by (simp add: ok_def)

lemma ok_Inr [simp]: "ok P (Inr a) \<longleftrightarrow> P a"
  by (simp add: ok_def)

lemma okD: "ok P r \<Longrightarrow> r = Inr a \<Longrightarrow> P a"
  by simp

lemma okI: "(\<And>a. r = Inr a \<Longrightarrow> P a) \<Longrightarrow> ok P r"
  by (cases r) auto

lemma ok_rbind [ok_intros]:
  "ok Q r \<Longrightarrow> (\<And>a. Q a \<Longrightarrow> ok P (f a)) \<Longrightarrow> ok P (rbind r f)"
  by (cases r) auto

lemma ok_mono: "ok P r \<Longrightarrow> (\<And>a. P a \<Longrightarrow> Q a) \<Longrightarrow> ok Q r"
  by (cases r) auto

lemma ok_If [ok_intros]:
  "(b \<Longrightarrow> ok P r) \<Longrightarrow> (\<not> b \<Longrightarrow> ok P r') \<Longrightarrow> ok P (if b then r else r')"
  by simp

text \<open>\<open>no_fault r\<close>: the call returns.\<close>

definition no_fault :: "'a res \<Rightarrow> bool" where
  "no_fault r \<longleftrightarrow> (case r of Inl _ \<Rightarrow> False | Inr _ \<Rightarrow> True)"

lemma no_fault_Inl [simp]: "\<not> no_fault (Inl e)"
  by (simp add: no_fault_def)

lemma no_fault_Inr [simp]: "no_fault (Inr a)"
  by (simp add: no_fault_def)

lemma no_fault_rbind:
  "no_fault r \<Longrightarrow> (\<And>a. r = Inr a \<Longrightarrow> no_fault (f a)) \<Longrightarrow> no_fault (rbind r f)"
  by (cases r) auto

section \<open>Lists\<close>

lemma take_min_length [simp]: "take (min n (length xs)) xs = take n xs"
  by (simp add: min_def)

lemma splice_middle:
  assumes "k \<le> p" "length d = k" "p \<le> length xs"
  shows "drop (p - k) (take (p - k) xs @ d @ drop p xs) = d @ drop p xs"
    and "length (take (p - k) xs @ d @ drop p xs) = length xs"
  using assms by auto

end
