(* ===== verification/ErrorTracker.thy ===== *)
theory ErrorTracker
  imports Prelude
begin

text \<open>
  \<open>ACErrorTracker\<close> (ESPAsyncTCPErrorTracker.h/.cpp): the small state a lwIP callback
  consults to decide which \<open>err_t\<close> it returns to lwIP.  The tracker is shared
  (\<open>std::shared_ptr\<close>) between the client and the callback that is running, so it
  survives a client that is deleted in a user callback.
\<close>

section \<open>Data\<close>

text \<open>
  \<open>err_t\<close>: the codes \<open>errorToString\<close> names, and \<open>Err_num\<close> for every other number the
  library itself passes to an error handler (the \<open>-55\<close> of a failed DNS query, BearSSL
  error codes shifted by 64).
\<close>

datatype err_t =
    ERR_OK | ERR_MEM | ERR_BUF | ERR_TIMEOUT | ERR_RTE | ERR_INPROGRESS | ERR_VAL
  | ERR_WOULDBLOCK | ERR_ABRT | ERR_RST | ERR_CLSD | ERR_CONN | ERR_ARG | ERR_USE
  | ERR_ALREADY | ERR_IF | ERR_ISCONN
  | Err_num "8 word"

datatype error_event =
    EE_OK | EE_ABORTED | EE_ERROR_CB | EE_CONNECTED_CB | EE_RECV_CB | EE_ACCEPT_CB | EE_MAX

record tracker =
  has_client :: bool        \<comment> \<open>\<open>_client != NULL\<close>\<close>
  close_error :: err_t
  errored :: error_event

section \<open>Operations\<close>

definition new_tracker :: tracker where
  "new_tracker = \<lparr>has_client = True, close_error = ERR_OK, errored = EE_OK\<rparr>"

definition clearClient :: "tracker \<Rightarrow> tracker" where
  "clearClient t = t\<lparr>has_client := False\<rparr>"

definition hasClient :: "tracker \<Rightarrow> bool" where
  "hasClient t = has_client t"

definition getCloseError :: "tracker \<Rightarrow> err_t" where
  "getCloseError t = close_error t"

definition setCloseError :: "err_t \<Rightarrow> tracker \<Rightarrow> tracker" where
  "setCloseError e t = (if errored t = EE_OK then t\<lparr>close_error := e\<rparr> else t)"

definition setErrored :: "error_event \<Rightarrow> tracker \<Rightarrow> tracker" where
  "setErrored ev t = (if EE_OK = errored t then t\<lparr>errored := ev\<rparr> else t)"

definition getCallbackCloseError :: "tracker \<Rightarrow> err_t \<times> tracker" where
  "getCallbackCloseError t =
     (if EE_OK \<noteq> errored t then (ERR_OK, t)
      else let t' = (if ERR_ABRT = close_error t then setErrored EE_ABORTED t else t)
           in (close_error t', t'))"

definition errorToString :: "err_t \<Rightarrow> string" where
  "errorToString e = (case e of
     ERR_OK \<Rightarrow> ''No error, everything OK''
   | ERR_MEM \<Rightarrow> ''Out of memory error''
   | ERR_BUF \<Rightarrow> ''Buffer error''
   | ERR_TIMEOUT \<Rightarrow> ''Timeout''
   | ERR_RTE \<Rightarrow> ''Routing problem''
   | ERR_INPROGRESS \<Rightarrow> ''Operation in progress''
   | ERR_VAL \<Rightarrow> ''Illegal value''
   | ERR_WOULDBLOCK \<Rightarrow> ''Operation would block''
   | ERR_ABRT \<Rightarrow> ''Connection aborted''
   | ERR_RST \<Rightarrow> ''Connection reset''
   | ERR_CLSD \<Rightarrow> ''Connection closed''
   | ERR_CONN \<Rightarrow> ''Not connected''
   | ERR_ARG \<Rightarrow> ''Illegal argument''
   | ERR_USE \<Rightarrow> ''Address in use''
   | ERR_ALREADY \<Rightarrow> ''Already connectioning''
   | ERR_IF \<Rightarrow> ''Low-level netif error''
   | ERR_ISCONN \<Rightarrow> ''Connection already established''
   | Err_num n \<Rightarrow> (if n = -55 then ''DNS failed'' else ''Unknown error''))"

section \<open>Any sequence of calls on one tracker\<close>

datatype tracker_op =
    T_clearClient
  | T_setCloseError err_t
  | T_setErrored error_event
  | T_getCallbackCloseError

fun tracker_step :: "tracker_op \<Rightarrow> tracker \<Rightarrow> err_t list \<times> tracker" where
  "tracker_step T_clearClient t = ([], clearClient t)"
| "tracker_step (T_setCloseError e) t = ([], setCloseError e t)"
| "tracker_step (T_setErrored ev) t = ([], setErrored ev t)"
| "tracker_step T_getCallbackCloseError t =
     (let (e, t') = getCallbackCloseError t in ([e], t'))"

text \<open>The codes returned to lwIP by the calls of \<open>getCallbackCloseError\<close>, in order.\<close>

fun tracker_run :: "tracker_op list \<Rightarrow> tracker \<Rightarrow> err_t list \<times> tracker" where
  "tracker_run [] t = ([], t)"
| "tracker_run (x # xs) t =
     (let (es, t') = tracker_step x t; (es', t'') = tracker_run xs t' in (es @ es', t''))"

lemmas tracker_defs =
  clearClient_def hasClient_def getCloseError_def setCloseError_def setErrored_def
  getCallbackCloseError_def Let_def

lemma tracker_step_errored:
  assumes "errored t \<noteq> EE_OK"
  shows "errored (snd (tracker_step x t)) = errored t"
    and "close_error (snd (tracker_step x t)) = close_error t"
    and "set (fst (tracker_step x t)) \<subseteq> {ERR_OK}"
  using assms by (cases x; simp add: tracker_defs)+

lemma tracker_run_errored:
  "errored t \<noteq> EE_OK \<Longrightarrow> set (fst (tracker_run xs t)) \<subseteq> {ERR_OK}"
proof (induction xs arbitrary: t)
  case Nil
  then show ?case by simp
next
  case (Cons x xs)
  note step = tracker_step_errored [OF Cons.prems, of x]
  with Cons have "set (fst (tracker_run xs (snd (tracker_step x t)))) \<subseteq> {ERR_OK}"
    by simp
  with step(3) show ?case by (auto simp: split_beta Let_def)
qed

lemma tracker_step_abrt:
  "ERR_ABRT \<in> set (fst (tracker_step x t)) \<Longrightarrow>
     fst (tracker_step x t) = [ERR_ABRT] \<and> errored (snd (tracker_step x t)) = EE_ABORTED"
  by (cases x) (auto simp: tracker_defs split: if_splits)




text \<open>
  C24: \<open>ERR_ABRT\<close> is returned to lwIP at most once per connection, whatever sequence of
  calls is made on the tracker and whatever state it starts in; this is the contract
  the comment above \<open>getCallbackCloseError\<close> promises (a callback that returned
  \<open>ERR_ABRT\<close> told lwIP that the pcb is gone).
\<close>

theorem abrt_reported_at_most_once:
  "count_list (fst (tracker_run xs t)) ERR_ABRT \<le> 1"
proof (induction xs arbitrary: t)
  case Nil
  show ?case by simp
next
  case (Cons x xs)
  let ?t = "snd (tracker_step x t)"
  show ?case
  proof (cases "ERR_ABRT \<in> set (fst (tracker_step x t))")
    case True
    from tracker_step_abrt [OF this]
    have *: "fst (tracker_step x t) = [ERR_ABRT]" "errored ?t \<noteq> EE_OK" by auto
    from tracker_run_errored [OF *(2), of xs]
    have "ERR_ABRT \<notin> set (fst (tracker_run xs ?t))" by auto
    with * show ?thesis by (simp add: split_beta Let_def)
  next
    case False
    with Cons.IH [of ?t] show ?thesis
      by (simp add: split_beta Let_def)
  qed
qed

text \<open>
  Once the tracker is errored (a stack-initiated error, or \<open>ERR_ABRT\<close> already
  reported), every further callback returns \<open>ERR_OK\<close> and the recorded close error can no
  longer change: an already errored-out connection is never aborted again.
\<close>

lemma errored_is_final:
  assumes "errored t \<noteq> EE_OK"
  shows "set (fst (tracker_run xs t)) \<subseteq> {ERR_OK}
       \<and> errored (snd (tracker_run xs t)) = errored t
       \<and> getCloseError (snd (tracker_run xs t)) = getCloseError t"
proof -
  have "errored (snd (tracker_run xs t)) = errored t
      \<and> close_error (snd (tracker_run xs t)) = close_error t"
    using assms
  proof (induction xs arbitrary: t)
    case (Cons x xs)
    then show ?case
      using tracker_step_errored [OF Cons.prems, of x] by (simp add: split_beta Let_def)
  qed simp
  with tracker_run_errored [OF assms] show ?thesis by (simp add: getCloseError_def)
qed

lemma errored_is_final_witness:
  "set (fst (tracker_run [T_setCloseError ERR_ABRT, T_getCallbackCloseError]
        (setErrored EE_ERROR_CB new_tracker))) \<subseteq> {ERR_OK}"
  using errored_is_final [of "setErrored EE_ERROR_CB new_tracker"
      "[T_setCloseError ERR_ABRT, T_getCallbackCloseError]"]
  by (simp add: setErrored_def new_tracker_def)

end
