(* ===== verification/Platform.thy ===== *)
theory Platform
  imports ErrorTracker
begin

text \<open>
  What the library stands on: lwIP's raw TCP API, the Arduino core (\<open>millis\<close>, the heap)
  and the BearSSL engine.  None of it is under src/, so none of it is defined here: every
  answer it gives is a parameter, a function of the history of the calls made so far
  (the record \<open>env\<close>); every call the library makes is recorded in that history (the
  datatype \<open>act\<close>, newest first).  A property proved for all \<open>env\<close> holds for every
  behaviour of the platform.
\<close>

section \<open>TCP states\<close>

text \<open>
  The states of a lwIP pcb, with the numbers the switch of
  \<open>AsyncClient::stateToString\<close> uses.  The comparisons \<open>state > CLOSED\<close>,
  \<open>state < ESTABLISHED\<close> of the client's header are those of the numbers: the type is
  made a \<open>linorder\<close> by them.
\<close>

datatype tcp_state =
    CLOSED | LISTEN | SYN_SENT | SYN_RCVD | ESTABLISHED | FIN_WAIT_1 | FIN_WAIT_2
  | CLOSE_WAIT | CLOSING | LAST_ACK | TIME_WAIT

fun state_num :: "tcp_state \<Rightarrow> nat" where
  "state_num CLOSED = 0"
| "state_num LISTEN = 1"
| "state_num SYN_SENT = 2"
| "state_num SYN_RCVD = 3"
| "state_num ESTABLISHED = 4"
| "state_num FIN_WAIT_1 = 5"
| "state_num FIN_WAIT_2 = 6"
| "state_num CLOSE_WAIT = 7"
| "state_num CLOSING = 8"
| "state_num LAST_ACK = 9"
| "state_num TIME_WAIT = 10"

lemma state_num_inj: "state_num a = state_num b \<Longrightarrow> a = b"
  by (cases a; cases b) simp_all

instantiation tcp_state :: linorder
begin

definition less_eq_tcp_state :: "tcp_state \<Rightarrow> tcp_state \<Rightarrow> bool" where
  "less_eq_tcp_state a b \<longleftrightarrow> state_num a \<le> state_num b"

definition less_tcp_state :: "tcp_state \<Rightarrow> tcp_state \<Rightarrow> bool" where
  "less_tcp_state a b \<longleftrightarrow> state_num a < state_num b"

instance
  by standard (auto simp: less_eq_tcp_state_def less_tcp_state_def intro: state_num_inj)

end

section \<open>Calls made by the library\<close>

type_synonym pcb = nat     \<comment> \<open>the address of a \<open>tcp_pcb\<close>\<close>
type_synonym ip = u32

text \<open>
  One buffer of a received packet; a packet is a chain of them (\<open>pb->next\<close>), here a list,
  the empty list for the null pointer.
\<close>

record pbuf =
  pb_id :: nat
  payload :: "byte list"
  pb_flags :: u8

definition tot_len :: "pbuf list \<Rightarrow> nat" where
  "tot_len ch = sum_list (map (length \<circ> payload) ch)"

definition chain_bytes :: "pbuf list \<Rightarrow> byte list" where
  "chain_bytes ch = concat (map payload ch)"

lemma length_chain_bytes [simp]: "length (chain_bytes ch) = tot_len ch"
  by (simp add: chain_bytes_def tot_len_def length_concat comp_def)

text \<open>Invocations of the user's handlers, with the arguments they are given.\<close>

datatype cb_ev =
    CB_connect
  | CB_disconnect
  | CB_ack u32 u32
  | CB_error err_t
  | CB_data "byte list"
  | CB_packet pbuf
  | CB_timeout u32
  | CB_poll
  | CB_client

text \<open>The certificate validator a TLS client is set up with.\<close>

datatype x509_kind = X509_insecure | X509_knownkey | X509_minimal

datatype act =
    A_millis
  \<comment> \<open>lwIP\<close>
  | A_tcp_new
  | A_setprio pcb
  | A_arg pcb bool           \<comment> \<open>\<open>True\<close>: set to the object, \<open>False\<close>: to NULL\<close>
  | A_recv_fn pcb bool
  | A_sent_fn pcb bool
  | A_err_fn pcb bool
  | A_poll_fn pcb bool
  | A_accept_fn pcb bool
  | A_tcp_connect pcb ip u16
  | A_gethostbyname string
  | A_tcp_write pcb "byte list" u8
  | A_tcp_output "pcb option"
  | A_tcp_recved "pcb option" u32
  | A_tcp_close pcb err_t    \<comment> \<open>with the code it returned\<close>
  | A_tcp_abort pcb
  | A_nagle pcb bool         \<comment> \<open>\<open>True\<close>: \<open>tcp_nagle_disable\<close>\<close>
  | A_pbuf_free "nat list"
  | A_tcp_bind pcb ip u16
  | A_tcp_listen pcb
  \<comment> \<open>the heap\<close>
  | A_new_client pcb
  | A_delete_client
  | A_new_ssl pcb
  | A_delete_ssl pcb
  | A_new_ctx
  | A_alloc nat              \<comment> \<open>a byte array or a \<open>cbuf\<close> of that size\<close>
  | A_delete_ctx
  \<comment> \<open>BearSSL\<close>
  | A_br_client_init pcb x509_kind
  | A_br_server_init pcb bool \<comment> \<open>\<open>True\<close>: RSA key, \<open>False\<close>: EC key\<close>
  | A_br_recvapp_ack pcb nat
  | A_br_sendrec_ack pcb nat
  | A_br_sendapp pcb "byte list"  \<comment> \<open>bytes copied into \<open>sendapp_buf\<close> and acknowledged\<close>
  | A_br_flush pcb
  | A_br_recvrec pcb "byte list"  \<comment> \<open>bytes copied into \<open>recvrec_buf\<close> and acknowledged\<close>
  \<comment> \<open>user code\<close>
  | A_cb cb_ev
  \<comment> \<open>not a call: lwIP freed the pcb, before it calls the error callback\<close>
  | A_lwip_freed pcb

type_synonym hist = "act list"

section \<open>Answers of the platform\<close>

record br_state =
  br_closed :: bool
  br_sendapp :: bool
  br_recvapp :: bool

datatype key_kind = Key_RSA | Key_EC | Key_none

text \<open>
  \<open>e_abort_err h = Some e\<close>: \<open>tcp_abort\<close>, called with history \<open>h\<close>, calls the pcb's error
  callback with \<open>e\<close> before it returns, if one is registered.  The comment at the top of
  ESPAsyncTCPErrorTracker.cpp assumes it does not.
\<close>

record env =
  e_millis :: "hist \<Rightarrow> u32"
  e_state :: "hist \<Rightarrow> pcb \<Rightarrow> tcp_state"
  e_sndbuf :: "hist \<Rightarrow> pcb \<Rightarrow> u16"
  e_remote_ip :: "pcb \<Rightarrow> ip"
  e_remote_port :: "pcb \<Rightarrow> u16"
  e_new :: "hist \<Rightarrow> pcb option"
  e_connect :: "hist \<Rightarrow> err_t"
  e_dns :: "hist \<Rightarrow> err_t \<times> ip"
  e_write :: "hist \<Rightarrow> err_t"
  e_output :: "hist \<Rightarrow> err_t"
  e_close :: "hist \<Rightarrow> err_t"
  e_abort_err :: "hist \<Rightarrow> err_t option"
  e_bind :: "hist \<Rightarrow> err_t"
  e_listen :: "hist \<Rightarrow> pcb option"
  e_alloc :: "hist \<Rightarrow> bool"           \<comment> \<open>\<open>new (std::nothrow)\<close> succeeds\<close>
  e_junk :: "nat \<Rightarrow> byte"              \<comment> \<open>contents of fresh memory\<close>
  b_state :: "hist \<Rightarrow> pcb \<Rightarrow> br_state"
  b_last_error :: "hist \<Rightarrow> pcb \<Rightarrow> int"
  b_recvapp_buf :: "hist \<Rightarrow> pcb \<Rightarrow> byte list"
  b_sendrec_buf :: "hist \<Rightarrow> pcb \<Rightarrow> byte list"
  b_sendapp_room :: "hist \<Rightarrow> pcb \<Rightarrow> nat"
  b_recvrec_room :: "hist \<Rightarrow> pcb \<Rightarrow> nat"
  b_client_reset :: "hist \<Rightarrow> bool"
  in_size :: nat                       \<comment> \<open>\<open>ASYNC_TCP_SSL_IN_BUFFER_SIZE\<close>\<close>
  out_size :: nat                      \<comment> \<open>\<open>ASYNC_TCP_SSL_OUT_BUFFER_SIZE\<close>\<close>
  loop_fuel :: nat                     \<comment> \<open>bound for \<open>for (;;)\<close> of the SSL engine loop\<close>

text \<open>The part of the state every component has: the history.\<close>

record world =
  log :: hist

definition emit :: "act \<Rightarrow> 'a world_scheme \<Rightarrow> 'a world_scheme" where
  "emit a s = s\<lparr>log := a # log s\<rparr>"

lemma log_emit [simp]: "log (emit a s) = a # log s"
  by (simp add: emit_def)

lemma more_emit [simp]: "world.more (emit a s) = world.more s"
  by (simp add: emit_def)

definition emits :: "act list \<Rightarrow> 'a world_scheme \<Rightarrow> 'a world_scheme" where
  "emits as s = s\<lparr>log := rev as @ log s\<rparr>"

lemma log_emits [simp]: "log (emits as s) = rev as @ log s"
  by (simp add: emits_def)

lemma more_emits [simp]: "world.more (emits as s) = world.more s"
  by (simp add: emits_def)

definition millis :: "env \<Rightarrow> 'a world_scheme \<Rightarrow> u32 \<times> 'a world_scheme" where
  "millis en s = (e_millis en (log s), emit A_millis s)"

text \<open>Compile-time configuration (async_config.h).\<close>

definition ASYNC_MAX_ACK_TIME :: u32 where "ASYNC_MAX_ACK_TIME = 3000"
definition ASYNC_MAX_RX_TIME :: u32 where "ASYNC_MAX_RX_TIME = 5"
definition TCP_SSL_HANDSHAKE_TIMEOUT :: u32 where "TCP_SSL_HANDSHAKE_TIMEOUT = 2000"
definition ASYNC_TCP_SSL_MAX_FEED_LOOPS :: nat where "ASYNC_TCP_SSL_MAX_FEED_LOOPS = 10"
definition TCP_MSS :: nat where "TCP_MSS = 1460"
definition TCP_SSL_FINGERPRINT_SIZE :: nat where "TCP_SSL_FINGERPRINT_SIZE = 20"
definition ASYNC_TCP_SSL_IN_BUFFER_SIZE :: nat where "ASYNC_TCP_SSL_IN_BUFFER_SIZE = 1024"
definition ASYNC_TCP_SSL_OUT_BUFFER_SIZE :: nat where "ASYNC_TCP_SSL_OUT_BUFFER_SIZE = 1024"

text \<open>
  A platform to evaluate concrete runs on: an established connection with room for 512
  bytes, where every call succeeds, at time 1000, and a BearSSL engine at rest.
\<close>

definition quiet_env :: env where
  "quiet_env = \<lparr>
     e_millis = (\<lambda>h. 1000), e_state = (\<lambda>h p. ESTABLISHED), e_sndbuf = (\<lambda>h p. 512),
     e_remote_ip = (\<lambda>p. 0), e_remote_port = (\<lambda>p. 80),
     e_new = (\<lambda>h. Some 7), e_connect = (\<lambda>h. ERR_OK), e_dns = (\<lambda>h. (ERR_OK, 0)),
     e_write = (\<lambda>h. ERR_OK), e_output = (\<lambda>h. ERR_OK), e_close = (\<lambda>h. ERR_OK),
     e_abort_err = (\<lambda>h. None), e_bind = (\<lambda>h. ERR_OK), e_listen = (\<lambda>h. Some 8),
     e_alloc = (\<lambda>h. True), e_junk = (\<lambda>n. 0),
     b_state = (\<lambda>h p. \<lparr>br_closed = False, br_sendapp = True, br_recvapp = False\<rparr>),
     b_last_error = (\<lambda>h p. 0),
     b_recvapp_buf = (\<lambda>h p. []), b_sendrec_buf = (\<lambda>h p. []),
     b_sendapp_room = (\<lambda>h p. 64), b_recvrec_room = (\<lambda>h p. 64),
     b_client_reset = (\<lambda>h. True),
     in_size = 8, out_size = 8, loop_fuel = 5\<rparr>"

end
