(* ===== verification/SslRegistry.thy ===== *)
theory SslRegistry
  imports Platform
begin

text \<open>
  The per-connection TLS state (\<open>tcp_ssl_pcb\<close>) of tcp_bearssl.cpp and the global list
  \<open>tcp_ssl_pcbs\<close> it is kept in: lookup by lwIP pcb, insertion at the head, removal, and
  the setters of the callback argument and the three callbacks.
\<close>

section \<open>Data\<close>

text \<open>
  The BearSSL contexts and the two I/O buffers belong to the BearSSL engine (their
  contents are answers of the platform).  \<open>sp_accum\<close> is the whole buffer
  \<open>recvrec_accum\<close>, \<open>sp_accum_pos\<close> the index at which its data starts: the data is
  \<open>drop sp_accum_pos sp_accum\<close>.
\<close>

record ssl_pcb =
  sp_tcp :: pcb
  sp_is_server :: bool
  sp_handshake_done :: bool
  sp_arg :: bool             \<comment> \<open>\<open>arg != nullptr\<close>: it is the client\<close>
  sp_on_data :: bool
  sp_on_handshake :: bool
  sp_on_error :: bool
  sp_in_len :: nat
  sp_out_len :: nat
  sp_accum :: "byte list"
  sp_accum_pos :: nat

record ssl_world = world +
  ssl :: "ssl_pcb list"      \<comment> \<open>\<open>tcp_ssl_pcbs\<close>\<close>

lemma ssl_emit [simp]: "ssl (emit a s) = ssl s"
  by (cases s) (simp add: emit_def)

lemma ssl_emits [simp]: "ssl (emits as s) = ssl s"
  by (cases s) (simp add: emits_def)

lemma log_ssl_update [simp]: "log (s\<lparr>ssl := x\<rparr>) = log s"
  by simp

section \<open>The list\<close>

primrec find_ssl_pcb :: "pcb \<Rightarrow> ssl_pcb list \<Rightarrow> ssl_pcb option" where
  "find_ssl_pcb p [] = None"
| "find_ssl_pcb p (iter # rest) = (if sp_tcp iter = p then Some iter else find_ssl_pcb p rest)"

text \<open>Unlinking the first entry for \<open>p\<close>; \<open>None\<close>: the loop reached the end of the list.\<close>

primrec unlink_ssl_pcb :: "pcb \<Rightarrow> ssl_pcb list \<Rightarrow> ssl_pcb list option" where
  "unlink_ssl_pcb p [] = None"
| "unlink_ssl_pcb p (iter # rest) =
     (if sp_tcp iter = p then Some rest else map_option ((#) iter) (unlink_ssl_pcb p rest))"

text \<open>Writing through the pointer \<open>find_ssl_pcb\<close> returned.\<close>

primrec update_ssl_pcb :: "pcb \<Rightarrow> (ssl_pcb \<Rightarrow> ssl_pcb) \<Rightarrow> ssl_pcb list \<Rightarrow> ssl_pcb list" where
  "update_ssl_pcb p f [] = []"
| "update_ssl_pcb p f (iter # rest) =
     (if sp_tcp iter = p then f iter # rest else iter # update_ssl_pcb p f rest)"

definition tcp_ssl_has :: "pcb \<Rightarrow> 'a ssl_world_scheme \<Rightarrow> bool" where
  "tcp_ssl_has p s = (find_ssl_pcb p (ssl s) \<noteq> None)"

definition tcp_ssl_free :: "pcb \<Rightarrow> 'a ssl_world_scheme \<Rightarrow> int \<times> 'a ssl_world_scheme" where
  "tcp_ssl_free p s = (case unlink_ssl_pcb p (ssl s) of
     Some l \<Rightarrow> (0, emit (A_delete_ssl p) (s\<lparr>ssl := l\<rparr>))
   | None \<Rightarrow> (-1, s))"

definition tcp_ssl_arg :: "pcb \<Rightarrow> bool \<Rightarrow> 'a ssl_world_scheme \<Rightarrow> 'a ssl_world_scheme" where
  "tcp_ssl_arg p a s = s\<lparr>ssl := update_ssl_pcb p (\<lambda>sp. sp\<lparr>sp_arg := a\<rparr>) (ssl s)\<rparr>"

definition tcp_ssl_data :: "pcb \<Rightarrow> bool \<Rightarrow> 'a ssl_world_scheme \<Rightarrow> 'a ssl_world_scheme" where
  "tcp_ssl_data p c s = s\<lparr>ssl := update_ssl_pcb p (\<lambda>sp. sp\<lparr>sp_on_data := c\<rparr>) (ssl s)\<rparr>"

definition tcp_ssl_handshake :: "pcb \<Rightarrow> bool \<Rightarrow> 'a ssl_world_scheme \<Rightarrow> 'a ssl_world_scheme" where
  "tcp_ssl_handshake p c s =
     s\<lparr>ssl := update_ssl_pcb p (\<lambda>sp. sp\<lparr>sp_on_handshake := c\<rparr>) (ssl s)\<rparr>"

definition tcp_ssl_err :: "pcb \<Rightarrow> bool \<Rightarrow> 'a ssl_world_scheme \<Rightarrow> 'a ssl_world_scheme" where
  "tcp_ssl_err p c s = s\<lparr>ssl := update_ssl_pcb p (\<lambda>sp. sp\<lparr>sp_on_error := c\<rparr>) (ssl s)\<rparr>"

definition registry_wf :: "ssl_pcb list \<Rightarrow> bool" where
  "registry_wf l \<longleftrightarrow> distinct (map sp_tcp l)"

section \<open>The contract of the registry\<close>

locale registry =
  fixes lookup :: "'k \<Rightarrow> 'r \<Rightarrow> 'e option"
    and insert_entry :: "'e \<Rightarrow> 'r \<Rightarrow> 'r"
    and remove :: "'k \<Rightarrow> 'r \<Rightarrow> 'r option"
    and modify :: "'k \<Rightarrow> ('e \<Rightarrow> 'e) \<Rightarrow> 'r \<Rightarrow> 'r"
    and key :: "'e \<Rightarrow> 'k"
    and wf :: "'r \<Rightarrow> bool"
  assumes lookup_insert: "lookup k (insert_entry e r) = (if k = key e then Some e else lookup k r)"
    and remove_None: "remove k r = None \<longleftrightarrow> lookup k r = None"
    and lookup_remove: "wf r \<Longrightarrow> remove k r = Some r' \<Longrightarrow>
        lookup j r' = (if j = k then None else lookup j r)"
    and lookup_modify: "(\<And>e. key (f e) = key e) \<Longrightarrow>
        lookup j (modify k f r) = (if j = k then map_option f (lookup k r) else lookup j r)"
    and lookup_key: "lookup k r = Some e \<Longrightarrow> key e = k"
    and wf_insert: "wf r \<Longrightarrow> lookup (key e) r = None \<Longrightarrow> wf (insert_entry e r)"
    and wf_remove: "wf r \<Longrightarrow> remove k r = Some r' \<Longrightarrow> wf r'"
    and wf_modify: "wf r \<Longrightarrow> (\<And>e. key (f e) = key e) \<Longrightarrow> wf (modify k f r)"
begin

lemma remove_twice: "wf r \<Longrightarrow> remove k r = Some r' \<Longrightarrow> remove k r' = None"
  by (simp add: remove_None lookup_remove)

lemma insert_remove:
  assumes "wf r" "lookup (key e) r = None"
  obtains r' where "remove (key e) (insert_entry e r) = Some r'"
    and "wf r'" and "\<And>j. lookup j r' = lookup j r"
proof -
  have wf: "wf (insert_entry e r)" using assms by (rule wf_insert)
  have "remove (key e) (insert_entry e r) \<noteq> None"
    by (simp add: remove_None lookup_insert)
  then obtain r' where r': "remove (key e) (insert_entry e r) = Some r'" by auto
  moreover from wf r' have "wf r'" by (rule wf_remove)
  moreover have "lookup j r' = lookup j r" for j
    using lookup_remove [OF wf r', of j] assms by (simp add: lookup_insert)
  ultimately show thesis by (rule that)
qed

lemma modify_None: "lookup k r = None \<Longrightarrow> (\<And>e. key (f e) = key e) \<Longrightarrow>
    lookup j (modify k f r) = lookup j r"
  by (simp add: lookup_modify)

end

lemma find_None: "find_ssl_pcb p l = None \<longleftrightarrow> p \<notin> sp_tcp ` set l"
  by (induction l) auto

lemma find_tcp: "find_ssl_pcb p l = Some sp \<Longrightarrow> sp_tcp sp = p"
  by (induction l) (auto split: if_splits)

lemma find_in: "find_ssl_pcb p l = Some sp \<Longrightarrow> sp \<in> set l"
  by (induction l) (auto split: if_splits)

lemma unlink_None: "unlink_ssl_pcb p l = None \<longleftrightarrow> find_ssl_pcb p l = None"
  by (induction l) auto

lemma unlink_set:
  "unlink_ssl_pcb p l = Some l' \<Longrightarrow> distinct (map sp_tcp l) \<Longrightarrow>
     distinct (map sp_tcp l') \<and> sp_tcp ` set l' = sp_tcp ` set l - {p}"
proof (induction l arbitrary: l')
  case (Cons a l)
  show ?case
  proof (cases "sp_tcp a = p")
    case True
    with Cons.prems show ?thesis by auto
  next
    case False
    with Cons.prems obtain l'' where "unlink_ssl_pcb p l = Some l''" "l' = a # l''" by auto
    with Cons False show ?thesis by auto
  qed
qed simp

lemma find_unlink:
  "distinct (map sp_tcp l) \<Longrightarrow> unlink_ssl_pcb p l = Some l' \<Longrightarrow>
     find_ssl_pcb q l' = (if q = p then None else find_ssl_pcb q l)"
proof (induction l arbitrary: l')
  case (Cons a l)
  then show ?case by (auto simp: find_None split: if_splits)
qed simp

lemma find_update:
  "(\<And>e. sp_tcp (f e) = sp_tcp e) \<Longrightarrow> find_ssl_pcb q (update_ssl_pcb p f l) =
     (if q = p then map_option f (find_ssl_pcb p l) else find_ssl_pcb q l)"
  by (induction l) auto

lemma tcp_update: "(\<And>e. sp_tcp (f e) = sp_tcp e) \<Longrightarrow>
    map sp_tcp (update_ssl_pcb p f l) = map sp_tcp l"
  by (induction l) auto

interpretation ssl_reg: registry find_ssl_pcb "(#)" unlink_ssl_pcb update_ssl_pcb sp_tcp registry_wf
proof
  fix f :: "ssl_pcb \<Rightarrow> ssl_pcb" and r k
  assume "registry_wf r" and f: "\<And>e. sp_tcp (f e) = sp_tcp e"
  from f have "map sp_tcp (update_ssl_pcb k f r) = map sp_tcp r" by (rule tcp_update)
  with \<open>registry_wf r\<close> show "registry_wf (update_ssl_pcb k f r)" by (simp add: registry_wf_def)
qed (auto simp: registry_wf_def find_unlink find_update unlink_None find_None
    dest: find_tcp unlink_set)

lemmas setter_defs = tcp_ssl_arg_def tcp_ssl_data_def tcp_ssl_handshake_def tcp_ssl_err_def

lemma setters_log [simp]:
  "log (tcp_ssl_arg p b s) = log s" "log (tcp_ssl_data p b s) = log s"
  "log (tcp_ssl_handshake p b s) = log s" "log (tcp_ssl_err p b s) = log s"
  by (simp_all add: setter_defs)

text \<open>
  C26: \<open>tcp_ssl_free\<close> on a registry without duplicates: the context of \<open>p\<close> is deleted
  exactly once and no longer found, the context of every other connection is untouched,
  and a second call reports \<open>-1\<close> and deletes nothing.
\<close>

theorem ssl_free_correct:
  assumes wf: "registry_wf (ssl s)" and has: "tcp_ssl_has p s"
  shows "case tcp_ssl_free p s of (r, s') \<Rightarrow>
           r = 0 \<and> registry_wf (ssl s') \<and> \<not> tcp_ssl_has p s'
         \<and> log s' = A_delete_ssl p # log s
         \<and> (\<forall>q. q \<noteq> p \<longrightarrow> find_ssl_pcb q (ssl s') = find_ssl_pcb q (ssl s))
         \<and> tcp_ssl_free p s' = (-1, s')"
proof -
  from has obtain l where l: "unlink_ssl_pcb p (ssl s) = Some l"
    by (auto simp: tcp_ssl_has_def simp flip: ssl_reg.remove_None)
  note ssl_reg.lookup_remove [OF wf l] ssl_reg.remove_twice [OF wf l] ssl_reg.wf_remove [OF wf l]
  with l show ?thesis by (simp add: tcp_ssl_free_def tcp_ssl_has_def emit_def)
qed

definition sample_ssl_pcb :: "pcb \<Rightarrow> nat \<Rightarrow> ssl_pcb" where
  "sample_ssl_pcb p n = \<lparr>sp_tcp = p, sp_is_server = False, sp_handshake_done = True,
     sp_arg = True, sp_on_data = True, sp_on_handshake = True, sp_on_error = True,
     sp_in_len = 0, sp_out_len = 0, sp_accum = replicate n 0, sp_accum_pos = n\<rparr>"

definition sample_ssl_world :: "ssl_world" where
  "sample_ssl_world = \<lparr>log = [], ssl = [sample_ssl_pcb 1 8, sample_ssl_pcb 2 8]\<rparr>"

theorem ssl_free_correct_witness:
  "fst (tcp_ssl_free 2 sample_ssl_world) = 0
   \<and> find_ssl_pcb 1 (ssl (snd (tcp_ssl_free 2 sample_ssl_world))) = Some (sample_ssl_pcb 1 8)"
proof -
  have "registry_wf (ssl sample_ssl_world)" "tcp_ssl_has 2 sample_ssl_world"
    by (simp_all add: sample_ssl_world_def registry_wf_def sample_ssl_pcb_def tcp_ssl_has_def)
  note ssl_free_correct [OF this]
  then have "fst (tcp_ssl_free 2 sample_ssl_world) = 0"
    and "find_ssl_pcb 1 (ssl (snd (tcp_ssl_free 2 sample_ssl_world)))
      = find_ssl_pcb 1 (ssl sample_ssl_world)"
    by (auto simp: split_beta)
  then show ?thesis by (simp add: sample_ssl_world_def sample_ssl_pcb_def)
qed

end
