(* ===== verification/SslEngine.thy ===== *)
theory SslEngine
  imports SslRegistry
begin

text \<open>
  The glue between lwIP and the BearSSL engine (tcp_bearssl.cpp): the engine loop
  \<open>process_ssl_engine\<close>, \<open>tcp_ssl_write\<close>, \<open>tcp_ssl_read\<close> with its reassembly buffer,
  and the creation of client and server contexts.  The callbacks stored in a context are
  those of the TLS user (the client); they are the parameter \<open>cb\<close>, a function from the
  call and the state to the resulting state, so they may change anything, the registry
  included.
\<close>

section \<open>Callbacks of the TLS user\<close>

datatype ssl_ev =
    S_data pcb "byte list"
  | S_handshake pcb
  | S_error pcb "8 word"     \<comment> \<open>the parameter is an \<open>int8_t\<close>\<close>

section \<open>The engine loop\<close>

datatype engine_exit = Closed | Idle

definition set_in_len :: "pcb \<Rightarrow> nat \<Rightarrow> 'a ssl_world_scheme \<Rightarrow> 'a ssl_world_scheme" where
  "set_in_len p n s = s\<lparr>ssl := update_ssl_pcb p (\<lambda>sp. sp\<lparr>sp_in_len := n\<rparr>) (ssl s)\<rparr>"

definition set_out_len :: "pcb \<Rightarrow> nat \<Rightarrow> 'a ssl_world_scheme \<Rightarrow> 'a ssl_world_scheme" where
  "set_out_len p n s = s\<lparr>ssl := update_ssl_pcb p (\<lambda>sp. sp\<lparr>sp_out_len := n\<rparr>) (ssl s)\<rparr>"

text \<open>The part of the loop body that sends a pending TLS record.\<close>

definition engine_send ::
  "env \<Rightarrow> pcb \<Rightarrow> 'a ssl_world_scheme \<Rightarrow> engine_exit option \<times> 'a ssl_world_scheme" where
  "engine_send en p s =
     (let out = b_sendrec_buf en (log s) p;
          s = set_out_len p (length out) s
      in if length out \<noteq> 0 \<and> length out < out_size en
            \<and> length out \<le> unat (e_sndbuf en (log s) p)
         then (None, emits [A_tcp_write p out 1, A_br_sendrec_ack p (length out),
                            A_tcp_output (Some p)] s)
         else (Some Idle, s))"

text \<open>
  One pass of \<open>for (;;)\<close>.  \<open>None\<close>: \<open>continue\<close>; \<open>Some Closed\<close>: \<open>return\<close>;
  \<open>Some Idle\<close>: \<open>break\<close>.
\<close>

definition engine_step ::
  "env \<Rightarrow> (ssl_ev \<Rightarrow> 'a ssl_world_scheme \<Rightarrow> 'a ssl_world_scheme res) \<Rightarrow> pcb \<Rightarrow>
   'a ssl_world_scheme \<Rightarrow> (engine_exit option \<times> 'a ssl_world_scheme) res" where
  "engine_step en cb p s = (case find_ssl_pcb p (ssl s) of
     None \<Rightarrow> Inl Ssl_use_after_free
   | Some sp \<Rightarrow>
      (let st = b_state en (log s) p in
       if br_closed st then
         (if sp_on_error sp
          then rbind (cb (S_error p (of_int (b_last_error en (log s) p))) s)
                 (\<lambda>s. Inr (Some Closed, s))
          else Inr (Some Closed, s))
       else if br_recvapp st then
         (let buf = b_recvapp_buf en (log s) p;
              s = set_in_len p (length buf) s
          in if length buf \<noteq> 0 \<and> length buf < in_size en
             then (let s = emit (A_br_recvapp_ack p (length buf)) s
                   in if sp_on_data sp then rbind (cb (S_data p buf) s) (\<lambda>s. Inr (None, s))
                      else Inr (None, s))
             else Inr (engine_send en p s))
       else Inr (engine_send en p s)))"

fun engine_loop ::
  "nat \<Rightarrow> env \<Rightarrow> (ssl_ev \<Rightarrow> 'a ssl_world_scheme \<Rightarrow> 'a ssl_world_scheme res) \<Rightarrow> pcb \<Rightarrow>
   'a ssl_world_scheme \<Rightarrow> (engine_exit \<times> 'a ssl_world_scheme) res" where
  "engine_loop 0 en cb p s = Inl No_return"
| "engine_loop (Suc n) en cb p s =
     rbind (engine_step en cb p s)
       (\<lambda>(x, s). case x of Some e \<Rightarrow> Inr (e, s) | None \<Rightarrow> engine_loop n en cb p s)"

text \<open>The part after the loop: detection of the end of the handshake.\<close>

definition finish_handshake ::
  "env \<Rightarrow> (ssl_ev \<Rightarrow> 'a ssl_world_scheme \<Rightarrow> 'a ssl_world_scheme res) \<Rightarrow> pcb \<Rightarrow>
   'a ssl_world_scheme \<Rightarrow> 'a ssl_world_scheme res" where
  "finish_handshake en cb p s = (case find_ssl_pcb p (ssl s) of
     None \<Rightarrow> Inl Ssl_use_after_free
   | Some sp \<Rightarrow>
      (let st = b_state en (log s) p in
       if \<not> sp_handshake_done sp
          \<and> ((sp_is_server sp \<and> br_recvapp st) \<or> (\<not> sp_is_server sp \<and> br_sendapp st))
       then (let s = s\<lparr>ssl := update_ssl_pcb p (\<lambda>sp. sp\<lparr>sp_handshake_done := True\<rparr>) (ssl s)\<rparr>
             in if sp_on_handshake sp then cb (S_handshake p) s else Inr s)
       else Inr s))"

definition process_ssl_engine ::
  "env \<Rightarrow> (ssl_ev \<Rightarrow> 'a ssl_world_scheme \<Rightarrow> 'a ssl_world_scheme res) \<Rightarrow> pcb \<Rightarrow>
   'a ssl_world_scheme \<Rightarrow> 'a ssl_world_scheme res" where
  "process_ssl_engine en cb p s =
     rbind (engine_loop (loop_fuel en) en cb p s)
       (\<lambda>(x, s). case x of Closed \<Rightarrow> Inr s | Idle \<Rightarrow> finish_handshake en cb p s)"

section \<open>Creating contexts\<close>

definition new_ssl_pcb :: "env \<Rightarrow> pcb \<Rightarrow> bool \<Rightarrow> ssl_pcb" where
  "new_ssl_pcb en p server = \<lparr>sp_tcp = p, sp_is_server = server, sp_handshake_done = False,
     sp_arg = False, sp_on_data = False, sp_on_handshake = False, sp_on_error = False,
     sp_in_len = 0, sp_out_len = 0,
     sp_accum = map (e_junk en) [0..<in_size en], sp_accum_pos = in_size en\<rparr>"

text \<open>The certificate chain is only handed on to BearSSL; what decides is the key.\<close>

record ssl_ctx =
  chain_length :: nat
  pk :: "key_kind option"

definition tcp_ssl_new_client ::
  "env \<Rightarrow> (ssl_ev \<Rightarrow> 'a ssl_world_scheme \<Rightarrow> 'a ssl_world_scheme res) \<Rightarrow> pcb option \<Rightarrow>
   x509_kind \<Rightarrow> 'a ssl_world_scheme \<Rightarrow> (int \<times> 'a ssl_world_scheme) res" where
  "tcp_ssl_new_client en cb po x509 s = (case po of
     None \<Rightarrow> Inr (-1, s)
   | Some p \<Rightarrow>
      if \<not> e_alloc en (log s) then Inr (-1, s)
      else let s = emit (A_new_ssl p) s in
        if \<not> e_alloc en (log s) then Inr (-1, emit (A_delete_ssl p) s)
        else let s = emit (A_br_client_init p x509) s in
          if \<not> b_client_reset en (log s) then Inr (-1, emit (A_delete_ssl p) s)
          else let s = s\<lparr>ssl := new_ssl_pcb en p False # ssl s\<rparr> in
            rbind (process_ssl_engine en cb p s) (\<lambda>s. Inr (0, s)))"

definition tcp_ssl_new_server ::
  "env \<Rightarrow> pcb option \<Rightarrow> ssl_ctx option \<Rightarrow> 'a ssl_world_scheme \<Rightarrow> int \<times> 'a ssl_world_scheme" where
  "tcp_ssl_new_server en po co s = (case (po, co) of
     (Some p, Some ctx) \<Rightarrow>
      if \<not> e_alloc en (log s) then (-1, s)
      else let s = emit (A_new_ssl p) s in
        if \<not> e_alloc en (log s) then (-1, emit (A_delete_ssl p) s)
        else (case pk ctx of
           Some Key_RSA \<Rightarrow>
             (0, (emit (A_br_server_init p True) s)\<lparr>ssl := new_ssl_pcb en p True # ssl s\<rparr>)
         | Some Key_EC \<Rightarrow>
             (0, (emit (A_br_server_init p False) s)\<lparr>ssl := new_ssl_pcb en p True # ssl s\<rparr>)
         | _ \<Rightarrow> (-1, emit (A_delete_ssl p) s))
   | _ \<Rightarrow> (-1, s))"

section \<open>Writing\<close>

definition tcp_ssl_write ::
  "env \<Rightarrow> (ssl_ev \<Rightarrow> 'a ssl_world_scheme \<Rightarrow> 'a ssl_world_scheme res) \<Rightarrow> pcb \<Rightarrow> byte list \<Rightarrow>
   'a ssl_world_scheme \<Rightarrow> (int \<times> 'a ssl_world_scheme) res" where
  "tcp_ssl_write en cb p data s = (case find_ssl_pcb p (ssl s) of
     None \<Rightarrow> Inr (-1, s)
   | Some _ \<Rightarrow>
      if \<not> br_sendapp (b_state en (log s) p) then Inr (0, s)
      else let wlen = b_sendapp_room en (log s) p in
        if wlen = 0 then rbind (process_ssl_engine en cb p s) (\<lambda>s. Inr (0, s))
        else let clen = (if length data > wlen then wlen else length data);
                 s = emits [A_br_sendapp p (take clen data), A_br_flush p] s
             in rbind (process_ssl_engine en cb p s) (\<lambda>s. Inr (int clen, s)))"

section \<open>Reading\<close>

text \<open>
  Copying into the accumulator: \<open>pbuf_copy_partial\<close> to
  \<open>recvrec_accum + recvrec_accum_pos - to_copy\<close>, then \<open>recvrec_accum_pos -= to_copy\<close>.
\<close>

definition accum_copy :: "byte list \<Rightarrow> ssl_pcb \<Rightarrow> ssl_pcb" where
  "accum_copy bs sp = (let q = sp_accum_pos sp - length bs in
     sp\<lparr>sp_accum := take q (sp_accum sp) @ bs @ drop (sp_accum_pos sp) (sp_accum sp),
        sp_accum_pos := q\<rparr>)"

text \<open>
  The accumulation loop, on the bytes not yet copied; it returns the bytes that did not
  fit (\<open>remaining\<close> of them).
\<close>

function accum_loop ::
  "env \<Rightarrow> (ssl_ev \<Rightarrow> 'a ssl_world_scheme \<Rightarrow> 'a ssl_world_scheme res) \<Rightarrow> pcb \<Rightarrow> byte list \<Rightarrow>
   'a ssl_world_scheme \<Rightarrow> (byte list \<times> 'a ssl_world_scheme) res" where
  "accum_loop en cb p rest s =
     (if rest = [] then Inr ([], s)
      else case find_ssl_pcb p (ssl s) of None \<Rightarrow> Inl Ssl_use_after_free
      | Some sp \<Rightarrow>
         rbind (if sp_accum_pos sp = 0 then process_ssl_engine en cb p s else Inr s)
           (\<lambda>s. case find_ssl_pcb p (ssl s) of None \<Rightarrow> Inl Ssl_use_after_free
            | Some sp \<Rightarrow>
               if sp_accum_pos sp = 0 then Inr (rest, s)
               else let n = min (length rest) (sp_accum_pos sp)
                    in accum_loop en cb p (drop n rest)
                         (s\<lparr>ssl := update_ssl_pcb p (accum_copy (take n rest)) (ssl s)\<rparr>)))"
  by pat_completeness auto
termination
  by (relation "measure (\<lambda>(en, cb, p, rest, s). length rest)") auto

declare accum_loop.simps [simp del]

text \<open>
  The feed loop.  The first argument is \<open>ASYNC_TCP_SSL_MAX_FEED_LOOPS - loop_count\<close>.  It
  returns \<open>consumed\<close>.
\<close>

fun feed_loop ::
  "nat \<Rightarrow> env \<Rightarrow> (ssl_ev \<Rightarrow> 'a ssl_world_scheme \<Rightarrow> 'a ssl_world_scheme res) \<Rightarrow> pcb \<Rightarrow>
   nat \<Rightarrow> nat \<Rightarrow> 'a ssl_world_scheme \<Rightarrow> (nat \<times> 'a ssl_world_scheme) res" where
  "feed_loop 0 en cb p accum_len consumed s = Inr (consumed, s)"
| "feed_loop (Suc k) en cb p accum_len consumed s =
     (if \<not> consumed < accum_len then Inr (consumed, s)
      else rbind (if b_recvrec_room en (log s) p = 0 then process_ssl_engine en cb p s else Inr s)
        (\<lambda>s. case find_ssl_pcb p (ssl s) of None \<Rightarrow> Inl Ssl_use_after_free
         | Some sp \<Rightarrow>
            let available = b_recvrec_room en (log s) p in
            if available = 0 then Inr (consumed, s)
            else let to_feed = (if accum_len - consumed < available
                                then accum_len - consumed else available);
                     bs = take to_feed (drop (sp_accum_pos sp + consumed) (sp_accum sp))
                 in feed_loop k en cb p accum_len (consumed + to_feed)
                      (emit (A_br_recvrec p bs) s)))"

text \<open>Keeping what was not consumed at the end of the accumulator.\<close>

definition accum_shift :: "env \<Rightarrow> nat \<Rightarrow> nat \<Rightarrow> ssl_pcb \<Rightarrow> ssl_pcb" where
  "accum_shift en accum_len consumed sp =
     (if consumed > 0 \<and> consumed < accum_len then
        (let remaining = accum_len - consumed in
         sp\<lparr>sp_accum := take (in_size en - remaining) (sp_accum sp)
              @ take remaining (drop (sp_accum_pos sp + consumed) (sp_accum sp)),
            sp_accum_pos := in_size en - remaining\<rparr>)
      else if consumed > 0 then sp\<lparr>sp_accum_pos := in_size en\<rparr>
      else sp)"

definition ssl_feed ::
  "env \<Rightarrow> (ssl_ev \<Rightarrow> 'a ssl_world_scheme \<Rightarrow> 'a ssl_world_scheme res) \<Rightarrow> pcb \<Rightarrow>
   'a ssl_world_scheme \<Rightarrow> 'a ssl_world_scheme res" where
  "ssl_feed en cb p s = (case find_ssl_pcb p (ssl s) of
     None \<Rightarrow> Inl Ssl_use_after_free
   | Some sp \<Rightarrow>
      (let accum_len = in_size en - sp_accum_pos sp in
       rbind (feed_loop ASYNC_TCP_SSL_MAX_FEED_LOOPS en cb p accum_len 0 s) (\<lambda>(consumed, s).
         case find_ssl_pcb p (ssl s) of None \<Rightarrow> Inl Ssl_use_after_free
         | Some _ \<Rightarrow>
            Inr (s\<lparr>ssl := update_ssl_pcb p (accum_shift en accum_len consumed) (ssl s)\<rparr>))))"

definition tcp_ssl_read ::
  "env \<Rightarrow> (ssl_ev \<Rightarrow> 'a ssl_world_scheme \<Rightarrow> 'a ssl_world_scheme res) \<Rightarrow> pcb \<Rightarrow> pbuf list \<Rightarrow>
   'a ssl_world_scheme \<Rightarrow> (int \<times> 'a ssl_world_scheme) res" where
  "tcp_ssl_read en cb p pb s = (case find_ssl_pcb p (ssl s) of
     None \<Rightarrow> Inr (-1, emit (A_pbuf_free (map pb_id pb)) s)
   | Some _ \<Rightarrow>
      rbind (accum_loop en cb p (chain_bytes pb) s) (\<lambda>(rest, s).
        if rest \<noteq> [] then Inr (-1, emit (A_pbuf_free (map pb_id pb)) s)
        else rbind (ssl_feed en cb p (emits [A_tcp_recved (Some p) (of_nat (tot_len pb)),
                                             A_pbuf_free (map pb_id pb)] s)) (\<lambda>s.
          rbind (process_ssl_engine en cb p s) (\<lambda>s.
            case find_ssl_pcb p (ssl s) of None \<Rightarrow> Inl Ssl_use_after_free
            | Some _ \<Rightarrow>
               if br_closed (b_state en (log s) p) then Inr (-1, s) else Inr (0, s)))))"

end
