(* ===== verification/SslReassembly.thy ===== *)
theory SslReassembly
  imports SslEngine
begin

text \<open>
  What \<open>tcp_ssl_read\<close> does with the received bytes.  The contract the glue needs from
  the callbacks of the TLS user is the locale \<open>engine_user\<close>: a callback may delete the
  context or write application data, but it neither touches the reassembly buffer of a
  surviving context nor feeds records to the engine.
\<close>

section \<open>Bytes fed to the engine\<close>

primrec fed :: "pcb \<Rightarrow> hist \<Rightarrow> byte list" where
  "fed p [] = []"
| "fed p (a # h) = (case a of A_br_recvrec q bs \<Rightarrow> if q = p then fed p h @ bs else fed p h
                    | _ \<Rightarrow> fed p h)"

definition pending :: "ssl_pcb \<Rightarrow> byte list" where
  "pending sp = drop (sp_accum_pos sp) (sp_accum sp)"

definition accum_ok :: "env \<Rightarrow> ssl_pcb \<Rightarrow> bool" where
  "accum_ok en sp \<longleftrightarrow> length (sp_accum sp) = in_size en \<and> sp_accum_pos sp \<le> in_size en"

lemma accum_ok_new: "accum_ok en (new_ssl_pcb en p b)" "pending (new_ssl_pcb en p b) = []"
  by (simp_all add: accum_ok_def new_ssl_pcb_def pending_def)

definition same_accum :: "ssl_pcb \<Rightarrow> ssl_pcb \<Rightarrow> bool" where
  "same_accum sp sp' \<longleftrightarrow> sp_accum sp' = sp_accum sp \<and> sp_accum_pos sp' = sp_accum_pos sp"

lemma same_accum_trans: "same_accum a b \<Longrightarrow> same_accum b c \<Longrightarrow> same_accum a c"
  by (simp add: same_accum_def)

text \<open>
  From \<open>s\<close> to \<open>s'\<close> nothing was fed to the engine of \<open>p\<close>, and its context, if it is still
  there, has the same reassembly buffer.
\<close>

definition keeps :: "pcb \<Rightarrow> 'a ssl_world_scheme \<Rightarrow> 'a ssl_world_scheme \<Rightarrow> bool" where
  "keeps p s s' \<longleftrightarrow> fed p (log s') = fed p (log s)
     \<and> (\<forall>sp'. find_ssl_pcb p (ssl s') = Some sp' \<longrightarrow>
          (\<exists>sp. find_ssl_pcb p (ssl s) = Some sp \<and> same_accum sp sp'))"

lemma keeps_refl [simp, intro]: "keeps p s s"
  by (simp add: keeps_def same_accum_def)

lemma keeps_trans: "keeps p s t \<Longrightarrow> keeps p t u \<Longrightarrow> keeps p s u"
  unfolding keeps_def same_accum_def by (metis (no_types, lifting))

lemma keeps_update:
  assumes "\<And>sp. sp_tcp (f sp) = sp_tcp sp" "\<And>sp. same_accum sp (f sp)"
    and "fed p (log s') = fed p (log s)" "ssl s' = update_ssl_pcb q f (ssl s)"
  shows "keeps p s s'"
  using assms by (auto simp: keeps_def find_update same_accum_def)

lemma keeps_set:
  assumes "\<And>sp. sp_tcp (f sp) = sp_tcp sp" "\<And>sp. same_accum sp (f sp)"
  shows "keeps p s (s\<lparr>ssl := update_ssl_pcb q f (ssl s)\<rparr>)"
  by (rule keeps_update [OF assms]) simp_all

lemma keeps_log:
  assumes "fed p (log s') = fed p (log s)" "ssl s' = ssl s"
  shows "keeps p s s'"
  using assms by (auto simp: keeps_def same_accum_def)

lemma keeps_unlink:
  assumes "fed p (log s') = fed p (log s)" "unlink_ssl_pcb q (ssl s) = Some (ssl s')"
    and "registry_wf (ssl s)"
  shows "keeps p s s'"
  using assms by (auto simp: keeps_def same_accum_def registry_wf_def find_unlink)

section \<open>The contract of the callbacks\<close>

text \<open>The calls the glue itself makes while it runs the engine.\<close>

fun engine_act :: "act \<Rightarrow> bool" where
  "engine_act (A_br_recvapp_ack _ _) = True"
| "engine_act (A_br_sendrec_ack _ _) = True"
| "engine_act (A_br_sendapp _ _) = True"
| "engine_act (A_br_flush _) = True"
| "engine_act (A_br_recvrec _ _) = True"
| "engine_act (A_tcp_write _ _ _) = True"
| "engine_act (A_tcp_output _) = True"
| "engine_act (A_tcp_recved _ _) = True"
| "engine_act (A_pbuf_free _) = True"
| "engine_act _ = False"

locale engine_user =
  fixes en :: env
    and cb :: "ssl_ev \<Rightarrow> 'a ssl_world_scheme \<Rightarrow> 'a ssl_world_scheme res"
    and Inv :: "'a ssl_world_scheme \<Rightarrow> bool"
  assumes cb_keeps: "Inv s \<Longrightarrow> ok (\<lambda>s'. Inv s' \<and> keeps p s s') (cb ev s)"
    and Inv_update: "(\<And>sp. sp_tcp (f sp) = sp_tcp sp) \<Longrightarrow> Inv s \<Longrightarrow>
        Inv (s\<lparr>ssl := update_ssl_pcb q f (ssl s)\<rparr>)"
    and Inv_emit: "engine_act a \<Longrightarrow> Inv s \<Longrightarrow> Inv (emit a s)"
begin

lemma Inv_emits: "list_all engine_act as \<Longrightarrow> Inv s \<Longrightarrow> Inv (emits as s)"
proof (induction as arbitrary: s)
  case Nil
  then show ?case by (simp add: emits_def)
next
  case (Cons a as)
  have "emits (a # as) s = emits as (emit a s)"
    by (cases s) (simp add: emits_def emit_def)
  with Cons show ?case by (simp add: Inv_emit)
qed

lemma cb_trans:
  "Inv t \<Longrightarrow> keeps p s t \<Longrightarrow> ok (\<lambda>s'. Inv s' \<and> keeps p s s') (cb ev t)"
  by (rule ok_mono [OF cb_keeps]) (auto intro: keeps_trans)

lemma set_len_keeps:
  "Inv s \<Longrightarrow> Inv (set_in_len q n s)" "keeps p s (set_in_len q n s)"
  "Inv s \<Longrightarrow> Inv (set_out_len q n s)" "keeps p s (set_out_len q n s)"
  by (auto simp: set_in_len_def set_out_len_def same_accum_def intro!: keeps_set Inv_update)

lemma engine_send_keeps:
  "Inv s \<Longrightarrow> Inv (snd (engine_send en p s)) \<and> keeps p' s (snd (engine_send en p s))"
  unfolding engine_send_def Let_def
  by (auto intro!: set_len_keeps Inv_emits intro: keeps_trans [OF set_len_keeps(4) keeps_log])

lemma engine_step_keeps:
  assumes "Inv s"
  shows "ok (\<lambda>(x, s'). Inv s' \<and> keeps q s s') (engine_step en cb p s)"
proof -
  have data: "ok (\<lambda>(x, s'). Inv s' \<and> keeps q s s')
      (rbind (cb (S_data p b) (emit (A_br_recvapp_ack p n) (set_in_len p n s))) (\<lambda>s. Inr (None, s)))"
    for b n
    by (rule ok_rbind [OF cb_trans [where p = q and s = s]])
      (auto intro!: Inv_emit set_len_keeps assms intro: keeps_trans [OF set_len_keeps(2) keeps_log])
  have err: "ok (\<lambda>(x, s'). Inv s' \<and> keeps q s s')
      (rbind (cb (S_error p e) s) (\<lambda>s. Inr (Some Closed, s)))" for e
    by (rule ok_rbind [OF cb_keeps [OF assms, where p = q]]) auto
  have ack: "Inv (emit (A_br_recvapp_ack p n) (set_in_len p n s))
      \<and> keeps q s (emit (A_br_recvapp_ack p n) (set_in_len p n s))" for n
    by (auto intro!: Inv_emit set_len_keeps assms intro: keeps_trans [OF set_len_keeps(2) keeps_log])
  have snd1: "Inv (snd (engine_send en p s)) \<and> keeps q s (snd (engine_send en p s))"
    using engine_send_keeps assms by blast
  have snd2: "Inv (snd (engine_send en p (set_in_len p n s)))
      \<and> keeps q s (snd (engine_send en p (set_in_len p n s)))" for n
    using engine_send_keeps [of "set_in_len p n s" p q] set_len_keeps assms
    by (blast intro: keeps_trans)
  show ?thesis
    using data err ack snd1 snd2 assms
    by (auto simp: engine_step_def Let_def split_beta split: option.split)
qed

lemma engine_loop_keeps:
  "Inv s \<Longrightarrow> ok (\<lambda>(x, s'). Inv s' \<and> keeps q s s') (engine_loop n en cb p s)"
proof (induction n arbitrary: s)
  case (Suc n)
  have "ok (\<lambda>(x, s'). Inv s' \<and> keeps q s s')
      (case x of Some e \<Rightarrow> Inr (e, t) | None \<Rightarrow> engine_loop n en cb p t)"
    if "Inv t" "keeps q s t" for x t
    using that Suc.IH [of t] by (cases x) (auto intro: ok_mono keeps_trans)
  then show ?case
    by (auto intro!: ok_rbind [OF engine_step_keeps [OF Suc.prems, of q p]])
qed simp

lemma finish_handshake_keeps:
  assumes "Inv s"
  shows "ok (\<lambda>s'. Inv s' \<and> keeps q s s') (finish_handshake en cb p s)"
proof -
  let ?s = "s\<lparr>ssl := update_ssl_pcb p (\<lambda>sp. sp\<lparr>sp_handshake_done := True\<rparr>) (ssl s)\<rparr>"
  have "Inv ?s" "keeps q s ?s"
    using assms by (auto intro!: Inv_update keeps_set simp: same_accum_def)
  with assms show ?thesis
    by (auto simp: finish_handshake_def Let_def intro: cb_trans split: option.split)
qed

lemma process_keeps:
  assumes "Inv s"
  shows "ok (\<lambda>s'. Inv s' \<and> keeps q s s') (process_ssl_engine en cb p s)"
proof -
  have "ok (\<lambda>s'. Inv s' \<and> keeps q s s')
      (case x of Closed \<Rightarrow> Inr t | Idle \<Rightarrow> finish_handshake en cb p t)"
    if "Inv t" "keeps q s t" for x t
    using that finish_handshake_keeps [of t q p]
    by (cases x) (auto intro: ok_mono keeps_trans)
  then show ?thesis
    unfolding process_ssl_engine_def
    by (auto intro!: ok_rbind [OF engine_loop_keeps [OF assms, of q]])
qed

lemma tcp_ssl_write_keeps:
  assumes "Inv s"
  shows "ok (\<lambda>(r, s'). Inv s' \<and> keeps q s s') (tcp_ssl_write en cb p data s)"
proof -
  have run: "ok (\<lambda>(r, s'). Inv s' \<and> keeps q s s')
     (rbind (process_ssl_engine en cb p t) (\<lambda>s. Inr (i, s)))" if "Inv t" "keeps q s t" for i :: int and t
    using that by (auto intro!: ok_rbind [OF process_keeps [of t q]] intro: keeps_trans)
  have sent: "Inv (emits [A_br_sendapp p d, A_br_flush p] s)"
    "keeps q s (emits [A_br_sendapp p d, A_br_flush p] s)" for d
    using assms by (auto intro: Inv_emits keeps_log)
  show ?thesis
    using assms by (auto simp: tcp_ssl_write_def Let_def intro!: run sent split: option.split)
qed

end

section \<open>Accumulating a packet\<close>

lemma accum_copy:
  assumes "accum_ok en sp" "length bs \<le> sp_accum_pos sp"
  shows "accum_ok en (accum_copy bs sp)" "pending (accum_copy bs sp) = bs @ pending sp"
    and "sp_accum_pos (accum_copy bs sp) = sp_accum_pos sp - length bs"
proof -
  from assms(2) obtain d where "sp_accum_pos sp = d + length bs"
    by (metis add.commute le_Suc_ex)
  with assms(1) show "accum_ok en (accum_copy bs sp)" "pending (accum_copy bs sp) = bs @ pending sp"
    "sp_accum_pos (accum_copy bs sp) = sp_accum_pos sp - length bs"
    by (simp_all add: accum_ok_def accum_copy_def pending_def Let_def min_absorb2)
qed

lemma accum_copy_tcp [simp]: "sp_tcp (accum_copy bs sp) = sp_tcp sp"
  by (simp add: accum_copy_def Let_def)

lemma accum_loop_Nil: "accum_loop en cb p [] s = Inr ([], s)"
  by (simp add: accum_loop.simps)

lemma accum_loop_fits:
  assumes "find_ssl_pcb p (ssl s) = Some sp" "length rest \<le> sp_accum_pos sp" "rest \<noteq> []"
  shows "accum_loop en cb p rest s
    = Inr ([], s\<lparr>ssl := update_ssl_pcb p (accum_copy rest) (ssl s)\<rparr>)"
proof -
  from assms have "sp_accum_pos sp \<noteq> 0" by (cases rest) auto
  with assms show ?thesis
    by (subst accum_loop.simps) (simp add: accum_loop_Nil Let_def)
qed

lemma accum_loop_partial:
  assumes "find_ssl_pcb p (ssl s) = Some sp" "sp_accum_pos sp < length rest" "sp_accum_pos sp \<noteq> 0"
  shows "accum_loop en cb p rest s = accum_loop en cb p (drop (sp_accum_pos sp) rest)
    (s\<lparr>ssl := update_ssl_pcb p (accum_copy (take (sp_accum_pos sp) rest)) (ssl s)\<rparr>)"
proof -
  from assms have "rest \<noteq> []" by auto
  with assms show ?thesis by (subst accum_loop.simps) (simp add: Let_def min_absorb2)
qed

section \<open>Feeding the engine\<close>

lemma accum_shift_tcp [simp]: "sp_tcp (accum_shift en l c sp) = sp_tcp sp"
  by (simp add: accum_shift_def Let_def)

lemma accum_shift:
  assumes "accum_ok en sp" "l = in_size en - sp_accum_pos sp" "c \<le> l"
  shows "accum_ok en (accum_shift en l c sp)" "pending (accum_shift en l c sp) = drop c (pending sp)"
  using assms by (auto simp: accum_ok_def accum_shift_def pending_def Let_def add.commute)

context engine_user
begin

lemma accum_loop_full:
  assumes "Inv s" "find_ssl_pcb p (ssl s) = Some sp" "sp_accum_pos sp = 0" "rest \<noteq> []"
  shows "ok (\<lambda>(r, s'). r \<noteq> [] \<and> Inv s' \<and> fed p (log s') = fed p (log s)) (accum_loop en cb p rest s)"
proof -
  have *: "ok (\<lambda>(r, s'). r \<noteq> [] \<and> Inv s' \<and> fed p (log s') = fed p (log s))
     (case find_ssl_pcb p (ssl t) of None \<Rightarrow> Inl Ssl_use_after_free
      | Some sp \<Rightarrow> if sp_accum_pos sp = 0 then Inr (rest, t) else f sp t)"
    if "Inv t" "keeps p s t" for t and f :: "ssl_pcb \<Rightarrow> _ \<Rightarrow> _ res"
    using that assms by (auto simp: keeps_def same_accum_def split: option.split)
  show ?thesis
    using assms by (subst accum_loop.simps)
      (auto intro!: ok_rbind [OF process_keeps [OF assms(1), of p]] *)
qed

text \<open>A packet that does not fit into the free part of the accumulator is never taken in full.\<close>

lemma accum_loop_overflow:
  assumes "Inv s" "find_ssl_pcb p (ssl s) = Some sp" "sp_accum_pos sp < length rest"
  shows "ok (\<lambda>(r, s'). r \<noteq> [] \<and> Inv s' \<and> fed p (log s') = fed p (log s)) (accum_loop en cb p rest s)"
proof (cases "sp_accum_pos sp = 0")
  case True
  with assms show ?thesis by (intro accum_loop_full) auto
next
  case False
  let ?n = "sp_accum_pos sp"
  let ?s = "s\<lparr>ssl := update_ssl_pcb p (accum_copy (take ?n rest)) (ssl s)\<rparr>"
  have "find_ssl_pcb p (ssl ?s) = Some (accum_copy (take ?n rest) sp)"
    using assms by (simp add: find_update)
  moreover have "sp_accum_pos (accum_copy (take ?n rest) sp) = 0"
    using assms by (simp add: accum_copy_def Let_def min_absorb2)
  moreover have "Inv ?s" using assms by (intro Inv_update) auto
  ultimately show ?thesis
    using accum_loop_full [of ?s p _ "drop ?n rest"] assms(3)
    unfolding accum_loop_partial [OF assms(2,3) False] by simp
qed

lemma feed_loop_spec:
  assumes "Inv s" "find_ssl_pcb p (ssl s) = Some sp" "length (sp_accum sp) = sp_accum_pos sp + l"
    and "c \<le> l"
  shows "ok (\<lambda>(c', s'). c \<le> c' \<and> c' \<le> l \<and> Inv s'
      \<and> fed p (log s') = fed p (log s) @ take (c' - c) (drop c (pending sp))
      \<and> (\<forall>sp'. find_ssl_pcb p (ssl s') = Some sp' \<longrightarrow> same_accum sp sp'))
    (feed_loop k en cb p l c s)"
  using assms
proof (induction k arbitrary: s sp c)
  case 0
  then show ?case by (simp add: same_accum_def)
next
  case (Suc k)
  have stop: "ok (\<lambda>(c', s'). c \<le> c' \<and> c' \<le> l \<and> Inv s'
      \<and> fed p (log s') = fed p (log s) @ take (c' - c) (drop c (pending sp))
      \<and> (\<forall>sp'. find_ssl_pcb p (ssl s') = Some sp' \<longrightarrow> same_accum sp sp')) (Inr (c, t))"
    if "Inv t" "keeps p s t" for t
    using that Suc.prems by (auto simp: keeps_def same_accum_def)
  have feed: "ok (\<lambda>(c', s'). c \<le> c' \<and> c' \<le> l \<and> Inv s'
      \<and> fed p (log s') = fed p (log s) @ take (c' - c) (drop c (pending sp))
      \<and> (\<forall>sp'. find_ssl_pcb p (ssl s') = Some sp' \<longrightarrow> same_accum sp sp'))
      (feed_loop k en cb p l (c + n)
         (emit (A_br_recvrec p (take n (drop (sp_accum_pos sp1 + c) (sp_accum sp1)))) t))"
    if t: "Inv t" "keeps p s t" "find_ssl_pcb p (ssl t) = Some sp1" and n: "c + n \<le> l" for t sp1 n
  proof -
    from t(2,3) Suc.prems(2) have same: "same_accum sp sp1" and f: "fed p (log t) = fed p (log s)"
      by (auto simp: keeps_def)
    then have pend: "take n (drop (sp_accum_pos sp1 + c) (sp_accum sp1)) = take n (drop c (pending sp))"
      by (simp add: same_accum_def pending_def add.commute)
    from same have pend1: "pending sp1 = pending sp"
      by (simp add: same_accum_def pending_def)
    have split: "take n (drop c xs) @ take (c' - (c + n)) (drop (c + n) xs) = take (c' - c) (drop c xs)"
      if "c + n \<le> c'" for c' and xs :: "byte list"
      using that take_add [of n "c' - (c + n)" "drop c xs"] by (simp add: add.commute)
    show ?thesis
      by (rule ok_mono [OF Suc.IH [of _ sp1]])
        (use t n f Suc.prems(3) same in
          \<open>auto simp: pend pend1 split Inv_emit dest: same_accum_trans [OF same]
             simp: same_accum_def\<close>)
  qed
  have body: "ok (\<lambda>(c', s'). c \<le> c' \<and> c' \<le> l \<and> Inv s'
      \<and> fed p (log s') = fed p (log s) @ take (c' - c) (drop c (pending sp))
      \<and> (\<forall>sp'. find_ssl_pcb p (ssl s') = Some sp' \<longrightarrow> same_accum sp sp'))
      (case find_ssl_pcb p (ssl t) of None \<Rightarrow> Inl Ssl_use_after_free
         | Some sp \<Rightarrow>
            let available = b_recvrec_room en (log t) p in
            if available = 0 then Inr (c, t)
            else let to_feed = (if l - c < available then l - c else available);
                     bs = take to_feed (drop (sp_accum_pos sp + c) (sp_accum sp))
                 in feed_loop k en cb p l (c + to_feed) (emit (A_br_recvrec p bs) t))"
    if "Inv t" "keeps p s t" for t
    using that stop feed feed [where n = "l - c"] Suc.prems(4) by (auto simp: Let_def split: option.split)
  show ?case
    using stop [of s] body [of s] Suc.prems(1)
    by (auto intro!: ok_rbind [OF process_keeps [OF Suc.prems(1), of p]] body simp del: ok_Inr)
qed

lemma ssl_feed_spec:
  assumes "Inv s" "find_ssl_pcb p (ssl s) = Some sp" "accum_ok en sp"
  shows "ok (\<lambda>s'. Inv s' \<and> (\<exists>k. fed p (log s') = fed p (log s) @ take k (pending sp)
      \<and> (\<forall>sp'. find_ssl_pcb p (ssl s') = Some sp' \<longrightarrow>
           accum_ok en sp' \<and> pending sp' = drop k (pending sp)))) (ssl_feed en cb p s)"
proof -
  let ?l = "in_size en - sp_accum_pos sp"
  have len: "length (sp_accum sp) = sp_accum_pos sp + ?l" using assms(3) by (simp add: accum_ok_def)
  have "ok (\<lambda>s'. Inv s' \<and> (\<exists>k. fed p (log s') = fed p (log s) @ take k (pending sp)
      \<and> (\<forall>sp'. find_ssl_pcb p (ssl s') = Some sp' \<longrightarrow>
           accum_ok en sp' \<and> pending sp' = drop k (pending sp))))
      (case find_ssl_pcb p (ssl t) of None \<Rightarrow> Inl Ssl_use_after_free
       | Some _ \<Rightarrow> Inr (t\<lparr>ssl := update_ssl_pcb p (accum_shift en ?l c) (ssl t)\<rparr>))"
    if t: "c \<le> ?l" "Inv t" "fed p (log t) = fed p (log s) @ take c (pending sp)"
      "\<forall>sp'. find_ssl_pcb p (ssl t) = Some sp' \<longrightarrow> same_accum sp sp'" for c t
  proof (cases "find_ssl_pcb p (ssl t)")
    case (Some sp1)
    with t(4) have same: "same_accum sp sp1" by simp
    with assms(3) have "accum_ok en sp1" and l: "?l = in_size en - sp_accum_pos sp1"
      and p: "pending sp1 = pending sp"
      by (auto simp: accum_ok_def same_accum_def pending_def)
    from accum_shift [OF this(1) l t(1)] p t Some show ?thesis
      by (auto simp: find_update intro!: Inv_update exI [of _ c])
  qed simp
  then show ?thesis
    using assms(2) unfolding ssl_feed_def Let_def
    by (auto intro!: ok_rbind [OF feed_loop_spec [OF assms(1,2) len]])
qed

text \<open>
  The functional behaviour of \<open>tcp_ssl_read\<close>: a packet larger than the free space is
  refused and nothing of it reaches the engine; otherwise the engine is given a prefix
  of the packet followed by the bytes that were pending, and the rest stays pending.
\<close>

lemma tcp_ssl_read_spec:
  assumes "Inv s" "find_ssl_pcb p (ssl s) = Some sp" "accum_ok en sp"
  shows "ok (\<lambda>(r, s'). Inv s' \<and>
      (if sp_accum_pos sp < tot_len pb then r = -1 \<and> fed p (log s') = fed p (log s)
       else \<exists>k. fed p (log s') = fed p (log s) @ take k (chain_bytes pb @ pending sp)
          \<and> (\<forall>sp'. find_ssl_pcb p (ssl s') = Some sp' \<longrightarrow>
               accum_ok en sp' \<and> pending sp' = drop k (chain_bytes pb @ pending sp))))
    (tcp_ssl_read en cb p pb s)"
proof (cases "sp_accum_pos sp < tot_len pb")
  case True
  with assms accum_loop_overflow [OF assms(1,2), of "chain_bytes pb"] show ?thesis
    unfolding tcp_ssl_read_def by (auto intro!: ok_rbind Inv_emit)
next
  case False
  let ?bs = "chain_bytes pb"
  obtain t where loop: "accum_loop en cb p ?bs s = Inr ([], t)" and t: "log t = log s" "Inv t"
    and sp1: "\<exists>sp1. find_ssl_pcb p (ssl t) = Some sp1 \<and> accum_ok en sp1 \<and> pending sp1 = ?bs @ pending sp"
  proof (cases "?bs = []")
    case True
    with assms that [of s] show ?thesis by (simp add: accum_loop_Nil)
  next
    case nonempty: False
    let ?t = "s\<lparr>ssl := update_ssl_pcb p (accum_copy ?bs) (ssl s)\<rparr>"
    have "find_ssl_pcb p (ssl ?t) = Some (accum_copy ?bs sp)" "Inv ?t"
      using assms by (auto simp: find_update intro: Inv_update)
    with accum_loop_fits [OF assms(2) _ nonempty] accum_copy [OF assms(3), of ?bs] False
    show ?thesis by (intro that [of ?t]) auto
  qed
  from sp1 obtain sp1 where sp1: "find_ssl_pcb p (ssl t) = Some sp1" "accum_ok en sp1"
    "pending sp1 = ?bs @ pending sp" by blast
  let ?u = "emits [A_tcp_recved (Some p) (of_nat (tot_len pb)), A_pbuf_free (map pb_id pb)] t"
  have u: "Inv ?u" "find_ssl_pcb p (ssl ?u) = Some sp1" "fed p (log ?u) = fed p (log s)"
    using t sp1 by (auto intro: Inv_emits)
  have fin: "ok (\<lambda>(r, s'). Inv s' \<and>
       (\<exists>k. fed p (log s') = fed p (log s) @ take k (?bs @ pending sp)
          \<and> (\<forall>sp'. find_ssl_pcb p (ssl s') = Some sp' \<longrightarrow>
               accum_ok en sp' \<and> pending sp' = drop k (?bs @ pending sp))))
      (rbind (process_ssl_engine en cb p v) (\<lambda>s.
        case find_ssl_pcb p (ssl s) of None \<Rightarrow> Inl Ssl_use_after_free
        | Some _ \<Rightarrow> if br_closed (b_state en (log s) p) then Inr (-1 :: int, s) else Inr (0, s)))"
    if v: "Inv v" "\<exists>k. fed p (log v) = fed p (log ?u) @ take k (pending sp1)
      \<and> (\<forall>sp'. find_ssl_pcb p (ssl v) = Some sp' \<longrightarrow>
           accum_ok en sp' \<and> pending sp' = drop k (pending sp1))" for v
  proof -
    from v(2) obtain k where k: "fed p (log v) = fed p (log s) @ take k (?bs @ pending sp)"
      "\<forall>sp'. find_ssl_pcb p (ssl v) = Some sp' \<longrightarrow>
         accum_ok en sp' \<and> pending sp' = drop k (?bs @ pending sp)"
      using u(3) sp1(3) by auto
    show ?thesis
      by (rule ok_rbind [OF process_keeps [OF v(1), of p]])
        (use k in \<open>auto simp: keeps_def same_accum_def accum_ok_def pending_def
           intro!: exI [of _ k] split: option.split\<close>)
  qed
  from ssl_feed_spec [OF u(1,2) sp1(2)]
  have "ok (\<lambda>(r, s'). Inv s' \<and>
       (\<exists>k. fed p (log s') = fed p (log s) @ take k (?bs @ pending sp)
          \<and> (\<forall>sp'. find_ssl_pcb p (ssl s') = Some sp' \<longrightarrow>
               accum_ok en sp' \<and> pending sp' = drop k (?bs @ pending sp))))
      (rbind (ssl_feed en cb p ?u) (\<lambda>s. rbind (process_ssl_engine en cb p s) (\<lambda>s.
        case find_ssl_pcb p (ssl s) of None \<Rightarrow> Inl Ssl_use_after_free
        | Some _ \<Rightarrow> if br_closed (b_state en (log s) p) then Inr (-1 :: int, s) else Inr (0, s))))"
    by (rule ok_rbind) (elim conjE, rule fin)
  with loop False assms(2) show ?thesis unfolding tcp_ssl_read_def by simp
qed

text \<open>What the callbacks keep, the whole read keeps, whatever the buffers hold.\<close>

lemma accum_loop_Inv: "Inv s \<Longrightarrow> ok (\<lambda>(r, s'). Inv s') (accum_loop en cb p rest s)"
proof (induction rest arbitrary: s rule: length_induct)
  case (1 rest)
  have "ok (\<lambda>(r, s'). Inv s')
      (case find_ssl_pcb p (ssl t) of None \<Rightarrow> Inl Ssl_use_after_free
       | Some sp \<Rightarrow> if sp_accum_pos sp = 0 then Inr (rest, t)
          else let n = min (length rest) (sp_accum_pos sp)
               in accum_loop en cb p (drop n rest)
                    (t\<lparr>ssl := update_ssl_pcb p (accum_copy (take n rest)) (ssl t)\<rparr>))"
    if "Inv t" "rest \<noteq> []" for t
    using that by (auto simp: Let_def intro!: Inv_update 1(1) [rule_format] split: option.split)
  note body = this
  have "ok Inv (process_ssl_engine en cb p s)"
    by (rule ok_mono [OF process_keeps [OF 1(2), of p p]]) simp
  with 1(2) have "ok Inv (if b then process_ssl_engine en cb p s else Inr s)" for b by simp
  from ok_rbind [OF this body] show ?case
    using 1(2) by (subst accum_loop.simps) (simp split: option.split)
qed

lemma feed_loop_Inv: "Inv s \<Longrightarrow> ok (\<lambda>(r, s'). Inv s') (feed_loop k en cb p l c s)"
proof (induction k arbitrary: s c)
  case (Suc k)
  have next_round: "ok (\<lambda>(r, s'). Inv s') (feed_loop k en cb p l c' (emit (A_br_recvrec p bs) t))"
    if "Inv t" for c' bs t
    using that by (intro Suc.IH Inv_emit) auto
  have "ok (\<lambda>(r, s'). Inv s')
      (rbind (if b then process_ssl_engine en cb p s else Inr s)
        (\<lambda>s. case find_ssl_pcb p (ssl s) of None \<Rightarrow> Inl Ssl_use_after_free
         | Some sp \<Rightarrow>
            let available = b_recvrec_room en (log s) p in
            if available = 0 then Inr (c, s)
            else let to_feed = (if l - c < available then l - c else available);
                     bs = take to_feed (drop (sp_accum_pos sp + c) (sp_accum sp))
                 in feed_loop k en cb p l (c + to_feed) (emit (A_br_recvrec p bs) s)))" for b
    by (rule ok_rbind [where Q = Inv])
      (use Suc.prems process_keeps [OF Suc.prems, of p p] in
        \<open>auto simp: Let_def intro: next_round elim: ok_mono split: option.split\<close>)
  with Suc.prems show ?case by simp
qed simp

lemma ssl_feed_Inv: "Inv s \<Longrightarrow> ok Inv (ssl_feed en cb p s)"
  unfolding ssl_feed_def Let_def
  by (auto intro!: ok_rbind [OF feed_loop_Inv] Inv_update split: option.split)

lemma tcp_ssl_read_Inv:
  assumes "Inv s"
  shows "ok (\<lambda>(r, s'). Inv s') (tcp_ssl_read en cb p pb s)"
proof -
  have eng: "ok (\<lambda>(r, s'). Inv s') (rbind (process_ssl_engine en cb p u) (\<lambda>s.
      case find_ssl_pcb p (ssl s) of None \<Rightarrow> Inl Ssl_use_after_free
      | Some _ \<Rightarrow> if br_closed (b_state en (log s) p) then Inr (-1 :: int, s) else Inr (0, s)))"
    if "Inv u" for u
    by (rule ok_rbind [OF process_keeps [OF that, of p]]) (auto split: option.split)
  have feed: "ok (\<lambda>(r, s'). Inv s') (rbind (ssl_feed en cb p u) (\<lambda>s.
      rbind (process_ssl_engine en cb p s) (\<lambda>s.
      case find_ssl_pcb p (ssl s) of None \<Rightarrow> Inl Ssl_use_after_free
      | Some _ \<Rightarrow> if br_closed (b_state en (log s) p) then Inr (-1 :: int, s) else Inr (0, s))))"
    if "Inv u" for u
    by (rule ok_rbind [OF ssl_feed_Inv [OF that]]) (rule eng)
  show ?thesis
    unfolding tcp_ssl_read_def
    using assms by (auto intro!: ok_rbind [OF accum_loop_Inv] feed Inv_emit Inv_emits
        split: option.split)
qed

end

end
