(* ===== verification/X509.thy ===== *)
theory X509
  imports Platform
begin

text \<open>
  Certificate checks of the TLS client that live in this repository: the authentication
  modes, and the "insecure" validator of tcp_bearssl.cpp, which looks at the first
  certificate of the chain only and checks a SHA-1 fingerprint and/or that the
  certificate is self-signed.  The hash functions and the X.509 decoder are BearSSL's:
  they are parameters (\<open>sha1\<close>, \<open>sha256\<close>, \<open>dec\<close>).
\<close>

unbundle bit_operations_syntax

section \<open>Authentication modes\<close>

definition SSL_AUTH_SECURE :: u8 where "SSL_AUTH_SECURE = 0"
definition SSL_AUTH_INSECURE :: u8 where "SSL_AUTH_INSECURE = 1"
definition SSL_AUTH_FINGERPRINT :: u8 where "SSL_AUTH_FINGERPRINT = 2"
definition SSL_AUTH_SELF_SIGNED :: u8 where "SSL_AUTH_SELF_SIGNED = 4"
definition SSL_AUTH_KNOWN_KEY :: u8 where "SSL_AUTH_KNOWN_KEY = 8"

lemmas auth_mode_defs = SSL_AUTH_SECURE_def SSL_AUTH_INSECURE_def SSL_AUTH_FINGERPRINT_def
  SSL_AUTH_SELF_SIGNED_def SSL_AUTH_KNOWN_KEY_def

definition insecure_modes :: "u8 \<Rightarrow> bool" where
  "insecure_modes m \<longleftrightarrow>
     m AND (SSL_AUTH_INSECURE OR SSL_AUTH_FINGERPRINT OR SSL_AUTH_SELF_SIGNED) \<noteq> 0"

section \<open>The insecure validator\<close>

text \<open>
  The hash contexts and the decoder are represented by the bytes they were given so far
  (BearSSL's contexts are streaming).
\<close>

record insecure_ctx =
  done_cert :: bool
  match_fingerprint :: "byte list option"
  sha1_cert :: "byte list"
  allow_self_signed :: bool
  sha256_subject :: "byte list"
  sha256_issuer :: "byte list"
  decoder_in :: "byte list"

definition br_x509_insecure_init :: "bool \<Rightarrow> byte list option \<Rightarrow> bool \<Rightarrow> insecure_ctx" where
  "br_x509_insecure_init use_fingerprint fp self_signed =
     \<lparr>done_cert = False, match_fingerprint = (if use_fingerprint then fp else None),
      sha1_cert = [], allow_self_signed = self_signed,
      sha256_subject = [], sha256_issuer = [], decoder_in = []\<rparr>"

definition insecure_subject_dn_append :: "byte list \<Rightarrow> insecure_ctx \<Rightarrow> insecure_ctx" where
  "insecure_subject_dn_append buf xc = xc\<lparr>sha256_subject := sha256_subject xc @ buf\<rparr>"

definition insecure_issuer_dn_append :: "byte list \<Rightarrow> insecure_ctx \<Rightarrow> insecure_ctx" where
  "insecure_issuer_dn_append buf xc = xc\<lparr>sha256_issuer := sha256_issuer xc @ buf\<rparr>"

text \<open>
  \<open>dec seen new\<close>: the calls the decoder makes to the DN callbacks while it is given
  \<open>new\<close> after \<open>seen\<close>; \<open>True\<close>: the subject callback.
\<close>

type_synonym dn_decoder = "byte list \<Rightarrow> byte list \<Rightarrow> (bool \<times> byte list) list"

definition decoder_push :: "dn_decoder \<Rightarrow> byte list \<Rightarrow> insecure_ctx \<Rightarrow> insecure_ctx" where
  "decoder_push dec buf xc =
     (let xc' = fold (\<lambda>(subj, b) x. if subj then insecure_subject_dn_append b x
                                   else insecure_issuer_dn_append b x)
                  (dec (decoder_in xc) buf) xc
      in xc'\<lparr>decoder_in := decoder_in xc @ buf\<rparr>)"

definition insecure_start_chain :: "insecure_ctx \<Rightarrow> insecure_ctx" where
  "insecure_start_chain xc = xc\<lparr>decoder_in := [], done_cert := False, sha1_cert := [],
     sha256_subject := [], sha256_issuer := []\<rparr>"

definition insecure_start_cert :: "insecure_ctx \<Rightarrow> insecure_ctx" where
  "insecure_start_cert xc = xc"

definition insecure_append :: "dn_decoder \<Rightarrow> byte list \<Rightarrow> insecure_ctx \<Rightarrow> insecure_ctx" where
  "insecure_append dec buf xc =
     (if \<not> done_cert xc
      then decoder_push dec buf (xc\<lparr>sha1_cert := sha1_cert xc @ buf\<rparr>) else xc)"

definition insecure_end_cert :: "insecure_ctx \<Rightarrow> insecure_ctx" where
  "insecure_end_cert xc = xc\<lparr>done_cert := True\<rparr>"

datatype verdict = Accepted | No_cert_seen | Not_trusted

definition insecure_end_chain ::
  "(byte list \<Rightarrow> byte list) \<Rightarrow> (byte list \<Rightarrow> byte list) \<Rightarrow> insecure_ctx \<Rightarrow> verdict" where
  "insecure_end_chain sha1 sha256 xc =
     (if \<not> done_cert xc then No_cert_seen
      else if (case match_fingerprint xc of None \<Rightarrow> False
               | Some fp \<Rightarrow> take 20 (sha1 (sha1_cert xc)) \<noteq> take 20 fp) then Not_trusted
      else if allow_self_signed xc
              \<and> take 32 (sha256 (sha256_subject xc)) \<noteq> take 32 (sha256 (sha256_issuer xc))
           then Not_trusted
      else Accepted)"

text \<open>
  The engine drives the validator: \<open>start_chain\<close>, then for every certificate
  \<open>start_cert\<close>, its bytes in chunks, \<open>end_cert\<close>; finally \<open>end_chain\<close>.
\<close>

definition run_cert :: "dn_decoder \<Rightarrow> byte list list \<Rightarrow> insecure_ctx \<Rightarrow> insecure_ctx" where
  "run_cert dec chunks xc =
     insecure_end_cert (fold (insecure_append dec) chunks (insecure_start_cert xc))"

definition validate_chain ::
  "(byte list \<Rightarrow> byte list) \<Rightarrow> (byte list \<Rightarrow> byte list) \<Rightarrow> dn_decoder \<Rightarrow>
   byte list list list \<Rightarrow> insecure_ctx \<Rightarrow> verdict" where
  "validate_chain sha1 sha256 dec certs xc =
     insecure_end_chain sha1 sha256 (fold (run_cert dec) certs (insecure_start_chain xc))"

section \<open>What it accepts\<close>

text \<open>Subject and issuer bytes the decoder reports over a sequence of chunks.\<close>

fun dn_calls :: "dn_decoder \<Rightarrow> byte list \<Rightarrow> byte list list \<Rightarrow> (bool \<times> byte list) list" where
  "dn_calls dec seen [] = []"
| "dn_calls dec seen (c # cs) = dec seen c @ dn_calls dec (seen @ c) cs"

definition dn_bytes :: "bool \<Rightarrow> (bool \<times> byte list) list \<Rightarrow> byte list" where
  "dn_bytes which calls = concat (map snd (filter (\<lambda>(b, _). b = which) calls))"

lemma dn_fold:
  "fold (\<lambda>(subj, b) x. if subj then insecure_subject_dn_append b x
         else insecure_issuer_dn_append b x) calls xc
   = xc\<lparr>sha256_subject := sha256_subject xc @ dn_bytes True calls,
        sha256_issuer := sha256_issuer xc @ dn_bytes False calls\<rparr>"
  by (induction calls arbitrary: xc)
    (auto simp: dn_bytes_def insecure_subject_dn_append_def insecure_issuer_dn_append_def)

lemma dn_bytes_append [simp]: "dn_bytes b (xs @ ys) = dn_bytes b xs @ dn_bytes b ys"
  by (simp add: dn_bytes_def)

lemma insecure_append_open:
  "\<not> done_cert xc \<Longrightarrow> insecure_append dec c xc =
     xc\<lparr>sha1_cert := sha1_cert xc @ c,
        sha256_subject := sha256_subject xc @ dn_bytes True (dec (decoder_in xc) c),
        sha256_issuer := sha256_issuer xc @ dn_bytes False (dec (decoder_in xc) c),
        decoder_in := decoder_in xc @ c\<rparr>"
  by (simp add: insecure_append_def decoder_push_def dn_fold Let_def)

lemma append_pending:
  "\<not> done_cert xc \<Longrightarrow> fold (insecure_append dec) chunks xc =
     xc\<lparr>sha1_cert := sha1_cert xc @ concat chunks,
        sha256_subject := sha256_subject xc @ dn_bytes True (dn_calls dec (decoder_in xc) chunks),
        sha256_issuer := sha256_issuer xc @ dn_bytes False (dn_calls dec (decoder_in xc) chunks),
        decoder_in := decoder_in xc @ concat chunks\<rparr>"
proof (induction chunks arbitrary: xc)
  case Nil
  then show ?case by (simp add: dn_bytes_def)
next
  case (Cons c cs)
  then show ?case by (simp add: insecure_append_open)
qed

lemma append_done: "done_cert xc \<Longrightarrow> fold (insecure_append dec) chunks xc = xc"
  by (induction chunks) (simp_all add: insecure_append_def)

lemma run_one_done: "done_cert xc \<Longrightarrow> run_cert dec cert xc = xc"
  by (cases xc) (simp add: run_cert_def append_done insecure_start_cert_def insecure_end_cert_def)

lemma run_cert_done: "done_cert xc \<Longrightarrow> fold (run_cert dec) certs xc = xc"
  by (induction certs) (simp_all add: run_one_done)

text \<open>
  C25: exactly which chains the insecure validator accepts, for any way the bytes are cut
  into chunks: there is a certificate; if a fingerprint is configured, the SHA-1 of the
  whole first certificate equals it in its first 20 bytes; in self-signed mode the
  subject and the issuer of the first certificate hash to the same value.  Later
  certificates of the chain have no influence, nor has the validator's earlier state.
\<close>

theorem insecure_validator_accepts:
  "validate_chain sha1 sha256 dec certs xc = Accepted \<longleftrightarrow>
     (\<exists>cert rest. certs = cert # rest
        \<and> (\<forall>fp. match_fingerprint xc = Some fp \<longrightarrow> take 20 (sha1 (concat cert)) = take 20 fp)
        \<and> (allow_self_signed xc \<longrightarrow>
             take 32 (sha256 (dn_bytes True (dn_calls dec [] cert)))
               = take 32 (sha256 (dn_bytes False (dn_calls dec [] cert)))))"
proof (cases certs)
  case Nil
  then show ?thesis
    by (simp add: validate_chain_def insecure_end_chain_def insecure_start_chain_def)
next
  case (Cons cert rest)
  let ?x = "run_cert dec cert (insecure_start_chain xc)"
  have x: "?x = xc\<lparr>decoder_in := concat cert, done_cert := True, sha1_cert := concat cert,
      sha256_subject := dn_bytes True (dn_calls dec [] cert),
      sha256_issuer := dn_bytes False (dn_calls dec [] cert)\<rparr>"
    by (simp add: run_cert_def insecure_start_cert_def insecure_end_cert_def append_pending
        insecure_start_chain_def)
  then have "fold (run_cert dec) certs (insecure_start_chain xc) = ?x"
    by (simp add: Cons run_cert_done)
  with x show ?thesis
    by (auto simp: validate_chain_def insecure_end_chain_def Cons split: option.split)
qed

theorem insecure_validator_accepts_witness:
  "validate_chain (\<lambda>x. x) (\<lambda>x. x) (\<lambda>seen new. []) [[[1], [2, 3]], [[9]]]
     (br_x509_insecure_init True (Some [1, 2, 3]) False) = Accepted"
  by (subst insecure_validator_accepts) (simp add: br_x509_insecure_init_def)

text \<open>
  \<open>insecure_get_pkey\<close>: the key BearSSL's decoder found in the bytes it was fed (\<open>pk_of\<close>), and
  the usages, which allow everything.
\<close>

definition BR_KEYTYPE_KEYX :: u32 where
  "BR_KEYTYPE_KEYX = 0x10"

definition BR_KEYTYPE_SIGN :: u32 where
  "BR_KEYTYPE_SIGN = 0x20"

definition insecure_get_pkey :: "(byte list \<Rightarrow> 'k) \<Rightarrow> insecure_ctx \<Rightarrow> bool \<Rightarrow> 'k \<times> u32 option" where
  "insecure_get_pkey pk_of xc usages =
     (pk_of (decoder_in xc), if usages then Some (BR_KEYTYPE_KEYX OR BR_KEYTYPE_SIGN) else None)"

text \<open>The key of a chain is that of its first certificate, which is the one that was checked.\<close>

lemma key_of_first_certificate:
  "fst (insecure_get_pkey pk_of (fold (run_cert dec) (cert # rest) (insecure_start_chain xc)) u)
    = pk_of (concat cert)"
proof -
  let ?x = "run_cert dec cert (insecure_start_chain xc)"
  have "done_cert ?x" "decoder_in ?x = concat cert"
    by (simp_all add: run_cert_def insecure_start_cert_def insecure_end_cert_def append_pending
        insecure_start_chain_def)
  then show ?thesis by (simp add: insecure_get_pkey_def run_cert_done)
qed

end
