(* ===== verification/Client.thy ===== *)
theory Client
  imports SslReassembly X509
begin

text \<open>
  \<open>AsyncClient\<close> (ESPAsyncTCPClient.h/.cpp), built with TLS support: its state and every
  operation of it that does not come from lwIP.  The user's handlers are the parameter
  \<open>cb\<close>: what running the handler for an event does to the state.  They may call the
  client again, close or delete it; theory ClientRun instantiates \<open>cb\<close> with arbitrary
  sequences of API calls.
\<close>

section \<open>State\<close>

text \<open>
  A client between its construction and \<open>delete\<close> is \<open>Alive\<close>; \<open>Dying\<close> while its
  destructor runs.  The callback members are represented by whether they are set; the
  error tracker outlives the client.
\<close>

datatype life = Alive | Dying | Dead

record conn = ssl_world +
  c_pcb :: "pcb option"
  connect_cb :: bool
  discard_cb :: bool
  sent_cb :: bool
  error_cb :: bool
  recv_cb :: bool
  pb_cb :: bool
  timeout_cb :: bool
  poll_cb :: bool
  pcb_busy :: bool
  pcb_sent_at :: u32
  close_pcb :: bool
  ack_pcb :: bool
  tx_unacked_len :: u32
  tx_acked_len :: u32
  rx_ack_len :: u32
  rx_last_packet :: u32
  rx_since_timeout :: u32
  ack_timeout :: u32
  connect_port :: u16
  recv_pbuf_flags :: u8
  trk :: tracker              \<comment> \<open>\<open>_errorTracker\<close>\<close>
  use_tls :: bool
  ssl_auth_mode :: u8
  fingerprint :: "byte list option"
  knownkey_usages :: u32
  handshake_done :: bool
  c_host :: string
  knownkey :: "key_kind option"
  ca_certs :: "nat option"    \<comment> \<open>the number of trust anchors loaded\<close>
  x509_minimal :: bool
  x509_insecure :: "insecure_ctx option"
  x509_knownkey :: bool
  life :: life

type_synonym user = "cb_ev \<Rightarrow> conn \<Rightarrow> conn res"

text \<open>Access to a member after user code ran: the object may be gone.\<close>

definition touch :: "conn \<Rightarrow> 'b res \<Rightarrow> 'b res" where
  "touch s r = (if life s = Dead then Inl Use_after_free else r)"

lemma touch_live [simp]: "life s \<noteq> Dead \<Longrightarrow> touch s r = r"
  by (simp add: touch_def)

lemma touch_eq_Inr [simp]: "touch s r = Inr a \<longleftrightarrow> life s \<noteq> Dead \<and> r = Inr a"
  by (simp add: touch_def)

definition invoke :: "user \<Rightarrow> cb_ev \<Rightarrow> conn \<Rightarrow> conn res" where
  "invoke cb ev s = cb ev (emit (A_cb ev) s)"

definition invoke_if :: "bool \<Rightarrow> user \<Rightarrow> cb_ev \<Rightarrow> conn \<Rightarrow> conn res" where
  "invoke_if b cb ev s = (if b then invoke cb ev s else Inr s)"

definition set_close_error :: "err_t \<Rightarrow> conn \<Rightarrow> conn" where
  "set_close_error e s = s\<lparr>trk := setCloseError e (trk s)\<rparr>"

definition set_errored :: "error_event \<Rightarrow> conn \<Rightarrow> conn" where
  "set_errored ev s = s\<lparr>trk := setErrored ev (trk s)\<rparr>"

section \<open>Queries\<close>

definition connected :: "env \<Rightarrow> conn \<Rightarrow> bool" where
  "connected en s = (case c_pcb s of None \<Rightarrow> False
     | Some p \<Rightarrow> e_state en (log s) p = ESTABLISHED \<and> (\<not> use_tls s \<or> handshake_done s))"

definition connecting :: "env \<Rightarrow> conn \<Rightarrow> bool" where
  "connecting en s = (case c_pcb s of None \<Rightarrow> False
     | Some p \<Rightarrow> e_state en (log s) p > CLOSED \<and> e_state en (log s) p < ESTABLISHED)"

definition disconnecting :: "env \<Rightarrow> conn \<Rightarrow> bool" where
  "disconnecting en s = (case c_pcb s of None \<Rightarrow> False
     | Some p \<Rightarrow> e_state en (log s) p > ESTABLISHED \<and> e_state en (log s) p < TIME_WAIT)"

definition disconnected :: "env \<Rightarrow> conn \<Rightarrow> bool" where
  "disconnected en s = (case c_pcb s of None \<Rightarrow> True
     | Some p \<Rightarrow> e_state en (log s) p = CLOSED \<or> e_state en (log s) p = TIME_WAIT)"

definition freeable :: "env \<Rightarrow> conn \<Rightarrow> bool" where
  "freeable en s = (case c_pcb s of None \<Rightarrow> True
     | Some p \<Rightarrow> e_state en (log s) p = CLOSED \<or> e_state en (log s) p > ESTABLISHED)"

definition client_state :: "env \<Rightarrow> conn \<Rightarrow> nat" where
  "client_state en s = (case c_pcb s of None \<Rightarrow> 0 | Some p \<Rightarrow> state_num (e_state en (log s) p))"

definition stateToString :: "env \<Rightarrow> conn \<Rightarrow> string" where
  "stateToString en s =
     (let n = client_state en s in
      if n = 0 then ''Closed'' else if n = 1 then ''Listen'' else if n = 2 then ''SYN Sent''
      else if n = 3 then ''SYN Received'' else if n = 4 then ''Established''
      else if n = 5 then ''FIN Wait 1'' else if n = 6 then ''FIN Wait 2''
      else if n = 7 then ''Close Wait'' else if n = 8 then ''Closing''
      else if n = 9 then ''Last ACK'' else if n = 10 then ''Time Wait'' else ''UNKNOWN'')"

definition space :: "env \<Rightarrow> conn \<Rightarrow> nat" where
  "space en s = (case c_pcb s of
     Some p \<Rightarrow>
      if connected en s then
        (let n = unat (e_sndbuf en (log s) p) in
         if use_tls s then (if n \<ge> 128 then n - 128 else 0) else n)
      else 0
   | None \<Rightarrow> 0)"

definition canSend :: "env \<Rightarrow> conn \<Rightarrow> bool" where
  "canSend en s = (\<not> pcb_busy s \<and> space en s > 0)"

section \<open>Closing\<close>

definition clearTcpCallbacks :: "pcb \<Rightarrow> conn \<Rightarrow> conn" where
  "clearTcpCallbacks p s = emits [A_arg p False, A_sent_fn p False, A_recv_fn p False,
     A_err_fn p False, A_poll_fn p False] s"

text \<open>Is the error callback of \<open>p\<close> set, according to the history?\<close>

fun err_registered :: "pcb \<Rightarrow> hist \<Rightarrow> bool" where
  "err_registered p [] = False"
| "err_registered p (a # h) = (case a of
     A_err_fn q b \<Rightarrow> if q = p then b else err_registered p h
   | _ \<Rightarrow> err_registered p h)"

definition do_error :: "user \<Rightarrow> err_t \<Rightarrow> conn \<Rightarrow> conn res" where
  "do_error cb e s =
     (let s = (case c_pcb s of None \<Rightarrow> s
               | Some p \<Rightarrow> (if use_tls s then snd (tcp_ssl_free p s) else s)\<lparr>c_pcb := None\<rparr>)
      in rbind (invoke_if (error_cb s) cb (CB_error e) s) (\<lambda>s.
           touch s (invoke_if (discard_cb s) cb CB_disconnect s)))"

definition s_error :: "user \<Rightarrow> err_t \<Rightarrow> conn \<Rightarrow> conn res" where
  "s_error cb e s = touch s (do_error cb e (set_errored EE_ERROR_CB (set_close_error e s)))"

definition abort :: "env \<Rightarrow> user \<Rightarrow> conn \<Rightarrow> conn res" where
  "abort en cb s = (case c_pcb s of None \<Rightarrow> Inr s
   | Some p \<Rightarrow>
      (let s = emit (A_tcp_abort p) s in
       rbind (case (if err_registered p (log s) then e_abort_err en (log s) else None) of
                Some e \<Rightarrow> s_error cb e s | None \<Rightarrow> Inr s)
         (\<lambda>s. touch s (Inr (set_close_error ERR_ABRT (s\<lparr>c_pcb := None\<rparr>))))))"

definition drop_tls :: "pcb \<Rightarrow> conn \<Rightarrow> conn" where
  "drop_tls p s = (if use_tls s
     then (snd (tcp_ssl_free p s))\<lparr>x509_minimal := False, x509_insecure := None,
            x509_knownkey := False, handshake_done := False\<rparr>
     else s)"

definition do_close :: "env \<Rightarrow> user \<Rightarrow> conn \<Rightarrow> conn res" where
  "do_close en cb s = (case c_pcb s of None \<Rightarrow> Inr s
   | Some p \<Rightarrow>
      (let s = clearTcpCallbacks p (drop_tls p s);
           err = e_close en (log s);
           s = emit (A_tcp_close p err) s
       in rbind (if ERR_OK = err then Inr (set_close_error err s) else abort en cb s)
            (\<lambda>s. let s = s\<lparr>c_pcb := None\<rparr>
                 in invoke_if (discard_cb s) cb CB_disconnect s)))"

definition close :: "env \<Rightarrow> user \<Rightarrow> bool \<Rightarrow> conn \<Rightarrow> conn res" where
  "close en cb now s =
     (let s = (case c_pcb s of None \<Rightarrow> s
               | Some p \<Rightarrow> emit (A_tcp_recved (Some p) (rx_ack_len s)) s)
      in if now then do_close en cb s else Inr (s\<lparr>close_pcb := True\<rparr>))"

definition delete_client :: "env \<Rightarrow> user \<Rightarrow> conn \<Rightarrow> conn res" where
  "delete_client en cb s =
     (if life s = Dead then Inl User_use_after_free
      else if life s = Dying then Inl Double_delete
      else rbind (do_close en cb (s\<lparr>life := Dying\<rparr>)) (\<lambda>s.
             let s = (if use_tls s then s\<lparr>trk := clearClient (trk s)\<rparr> else s)
             in Inr (emit A_delete_client (s\<lparr>life := Dead\<rparr>))))"

section \<open>Sending and acknowledging\<close>

text \<open>The callbacks the client installs in its TLS context.\<close>

definition client_ssl_cb :: "user \<Rightarrow> ssl_ev \<Rightarrow> conn \<Rightarrow> conn res" where
  "client_ssl_cb cb ev s = touch s (case ev of
     S_data p d \<Rightarrow> invoke_if (recv_cb s) cb (CB_data d) s
   | S_handshake p \<Rightarrow> invoke_if (connect_cb s) cb CB_connect (s\<lparr>handshake_done := True\<rparr>)
   | S_error p e \<Rightarrow> invoke_if (error_cb s) cb (CB_error (Err_num (e + 64))) s)"

definition add :: "env \<Rightarrow> user \<Rightarrow> byte list option \<Rightarrow> u8 \<Rightarrow> conn \<Rightarrow> (nat \<times> conn) res" where
  "add en cb data flags s = (case (c_pcb s, data) of
     (Some p, Some bs) \<Rightarrow>
      if bs = [] then Inr (0, s)
      else let room = space en s in
        if room = 0 then Inr (0, s)
        else if use_tls s then
          rbind (tcp_ssl_write en (client_ssl_cb cb) p bs s) (\<lambda>(sent, s). touch s
            (if sent \<ge> 0
             then Inr (nat sent, s\<lparr>tx_unacked_len := tx_unacked_len s + of_int sent\<rparr>)
             else rbind (do_close en cb s) (\<lambda>s. Inr (0, s))))
        else
          (let will_send = (if room < length bs then room else length bs);
               err = e_write en (log s);
               s = emit (A_tcp_write p (take will_send bs) flags) s
           in if err \<noteq> ERR_OK then Inr (0, s)
              else Inr (will_send, s\<lparr>tx_unacked_len := tx_unacked_len s + of_nat will_send\<rparr>))
   | _ \<Rightarrow> Inr (0, s))"

definition send :: "env \<Rightarrow> conn \<Rightarrow> bool \<times> conn" where
  "send en s =
     (if use_tls s then (True, s)
      else let err = e_output en (log s);
               s = emit (A_tcp_output (c_pcb s)) s
           in if err = ERR_OK
              then let (now, s) = millis en s in (True, s\<lparr>pcb_busy := True, pcb_sent_at := now\<rparr>)
              else (False, s))"

definition client_write ::
  "env \<Rightarrow> user \<Rightarrow> byte list option \<Rightarrow> u8 \<Rightarrow> conn \<Rightarrow> (nat \<times> conn) res" where
  "client_write en cb data flags s =
     rbind (add en cb data flags s) (\<lambda>(will_send, s).
       if will_send = 0 then Inr (0, s)
       else touch s (let (sent, s) = send en s in Inr (if sent then will_send else 0, s)))"

text \<open>\<open>write(const char* data)\<close>: the bytes before the terminating NUL.\<close>

definition write_cstr :: "env \<Rightarrow> user \<Rightarrow> byte list option \<Rightarrow> conn \<Rightarrow> (nat \<times> conn) res" where
  "write_cstr en cb data s = (case data of None \<Rightarrow> Inr (0, s)
     | Some bs \<Rightarrow> client_write en cb (Some (takeWhile (\<lambda>b. b \<noteq> 0) bs)) 0 s)"

definition ack :: "u32 \<Rightarrow> conn \<Rightarrow> u32 \<times> conn" where
  "ack len s =
     (let len = (if len > rx_ack_len s then rx_ack_len s else len);
          s = (if len \<noteq> 0 then emit (A_tcp_recved (c_pcb s) len) s else s)
      in (len, s\<lparr>rx_ack_len := rx_ack_len s - len\<rparr>))"

definition ackLater :: "conn \<Rightarrow> conn" where
  "ackLater s = s\<lparr>ack_pcb := False\<rparr>"

definition ackPacket :: "pbuf option \<Rightarrow> conn \<Rightarrow> conn" where
  "ackPacket pb s = (case pb of None \<Rightarrow> s
     | Some b \<Rightarrow> emits [A_tcp_recved (c_pcb s) (of_nat (length (payload b))),
                      A_pbuf_free [pb_id b]] s)"

definition setNoDelay :: "bool \<Rightarrow> conn \<Rightarrow> conn" where
  "setNoDelay nodelay s = (case c_pcb s of None \<Rightarrow> s | Some p \<Rightarrow> emit (A_nagle p nodelay) s)"

section \<open>Connecting\<close>

definition connect_ip :: "env \<Rightarrow> ip \<Rightarrow> u16 \<Rightarrow> bool \<Rightarrow> conn \<Rightarrow> bool \<times> conn" where
  "connect_ip en addr port tls s =
     (let s = s\<lparr>use_tls := tls\<rparr> in
      if connected en s then (False, s)
      else let np = e_new en (log s); s = emit A_tcp_new s in
        case np of None \<Rightarrow> (False, s)
        | Some p \<Rightarrow>
           let s = (emit (A_setprio p) s)\<lparr>handshake_done := False\<rparr>;
               s = emits [A_arg p True, A_err_fn p True] s;
               err = e_connect en (log s);
               s = emit (A_tcp_connect p addr port) s
           in (ERR_OK = err, s))"

definition connect_host :: "env \<Rightarrow> string \<Rightarrow> u16 \<Rightarrow> bool \<Rightarrow> conn \<Rightarrow> bool \<times> conn" where
  "connect_host en name port tls s =
     (let s = s\<lparr>handshake_done := False, c_host := name, connect_port := port, use_tls := tls\<rparr>;
          (err, addr) = e_dns en (log s);
          s = emit (A_gethostbyname name) s
      in if err = ERR_OK then connect_ip en addr port (use_tls s) s
         else if err = ERR_INPROGRESS then (True, s)
         else (False, s))"

definition dns_found :: "env \<Rightarrow> user \<Rightarrow> ip option \<Rightarrow> conn \<Rightarrow> conn res" where
  "dns_found en cb addr s = touch s (case addr of
     Some a \<Rightarrow> Inr (snd (connect_ip en a (connect_port s) (use_tls s) s))
   | None \<Rightarrow>
      rbind (invoke_if (error_cb s) cb (CB_error (Err_num (-55))) s) (\<lambda>s.
        touch s (invoke_if (discard_cb s) cb CB_disconnect s)))"

section \<open>Authentication settings\<close>

definition clearAuthenticationSettings :: "conn \<Rightarrow> conn" where
  "clearAuthenticationSettings s = s\<lparr>ssl_auth_mode := SSL_AUTH_SECURE, knownkey := None\<rparr>"

definition setInsecure :: "bool \<Rightarrow> conn \<Rightarrow> conn" where
  "setInsecure b s = s\<lparr>ssl_auth_mode := (if b then SSL_AUTH_INSECURE else SSL_AUTH_SECURE)\<rparr>"

definition setKnownKey :: "key_kind option \<Rightarrow> u32 \<Rightarrow> conn \<Rightarrow> conn" where
  "setKnownKey k usages s = (clearAuthenticationSettings s)
     \<lparr>knownkey := k, ssl_auth_mode := SSL_AUTH_KNOWN_KEY, knownkey_usages := usages\<rparr>"

definition allowSelfSignedCerts :: "conn \<Rightarrow> conn" where
  "allowSelfSignedCerts s =
     (clearAuthenticationSettings s)\<lparr>ssl_auth_mode := SSL_AUTH_SELF_SIGNED\<rparr>"

text \<open>
  \<open>setFingerprint\<close>: the new buffer is allocated before the argument is looked at; a
  NULL argument leaves it allocated and unwritten.  (An allocation failure is not
  detected by the code, which then copies to NULL; the model is of the case that the
  allocation succeeds.)
\<close>

definition setFingerprint :: "env \<Rightarrow> byte list option \<Rightarrow> nat \<Rightarrow> conn \<Rightarrow> bool \<times> conn" where
  "setFingerprint en fp n s =
     (let s = (clearAuthenticationSettings s)\<lparr>ssl_auth_mode := SSL_AUTH_FINGERPRINT,
                fingerprint := Some (map (e_junk en) [0..<n])\<rparr>
      in case fp of None \<Rightarrow> (False, s)
         | Some bs \<Rightarrow> (True, s\<lparr>fingerprint := Some (take n bs)\<rparr>))"

definition initClientX509Validator :: "env \<Rightarrow> conn \<Rightarrow> bool \<times> conn" where
  "initClientX509Validator en s =
     (if insecure_modes (ssl_auth_mode s) then
        (if \<not> e_alloc en (log s) then (False, s\<lparr>x509_insecure := None\<rparr>)
         else (True, s\<lparr>x509_insecure := Some (br_x509_insecure_init
                 (ssl_auth_mode s AND SSL_AUTH_FINGERPRINT \<noteq> 0) (fingerprint s)
                 (ssl_auth_mode s AND SSL_AUTH_SELF_SIGNED \<noteq> 0))\<rparr>))
      else if knownkey s \<noteq> None \<and> ssl_auth_mode s AND SSL_AUTH_KNOWN_KEY \<noteq> 0 then
        (if \<not> e_alloc en (log s) then (False, s\<lparr>x509_knownkey := False\<rparr>)
         else (True, s\<lparr>x509_knownkey := True\<rparr>))
      else
        (if \<not> e_alloc en (log s) then (False, s\<lparr>x509_minimal := False\<rparr>)
         else if (case ca_certs s of None \<Rightarrow> True | Some n \<Rightarrow> n = 0)
         then (False, s\<lparr>x509_minimal := True\<rparr>)
         else (True, s\<lparr>x509_minimal := True\<rparr>)))"

section \<open>Construction\<close>

text \<open>
  \<open>mem\<close> is the memory the object is built in: the members the constructor does not
  initialise (\<open>_fingerprint\<close>, \<open>_knownkey\<close>, \<open>_knownkey_usages\<close>, \<open>_ca_certs\<close>, \<open>_host\<close>)
  keep what is there.  \<open>x509_mode\<close> is \<open>ASYNC_TCP_SSL_X509_MODE\<close>.
\<close>

definition client_init :: "env \<Rightarrow> conn \<Rightarrow> u8 \<Rightarrow> pcb option \<Rightarrow> conn" where
  "client_init en mem x509_mode po = mem\<lparr>
     c_pcb := po, connect_cb := False, discard_cb := False, sent_cb := False,
     error_cb := False, recv_cb := False, pb_cb := False, timeout_cb := False,
     poll_cb := False, pcb_busy := False, pcb_sent_at := 0, close_pcb := False,
     ack_pcb := True, tx_unacked_len := 0, tx_acked_len := 0, rx_ack_len := 0,
     rx_last_packet := 0, rx_since_timeout := ASYNC_MAX_RX_TIME,
     ack_timeout := ASYNC_MAX_ACK_TIME, connect_port := 0, recv_pbuf_flags := 0,
     trk := new_tracker, use_tls := False, ssl_auth_mode := x509_mode,
     handshake_done := False,
     x509_minimal := False, x509_insecure := None, x509_knownkey := False, life := Alive\<rparr>"

definition install_ssl_callbacks :: "pcb \<Rightarrow> conn \<Rightarrow> conn" where
  "install_ssl_callbacks p s =
     tcp_ssl_err p True (tcp_ssl_handshake p True (tcp_ssl_data p True (tcp_ssl_arg p True s)))"

definition new_client ::
  "env \<Rightarrow> user \<Rightarrow> u8 \<Rightarrow> pcb option \<Rightarrow> ssl_ctx option \<Rightarrow> conn \<Rightarrow> conn res" where
  "new_client en cb x509_mode po ctx mem =
     (let s = client_init en mem x509_mode po in
      case po of None \<Rightarrow> Inr s
      | Some p \<Rightarrow>
         let (now, s) = millis en s;
             s = s\<lparr>rx_last_packet := now\<rparr>;
             s = emits [A_setprio p, A_arg p True, A_recv_fn p True, A_sent_fn p True,
                        A_err_fn p True, A_poll_fn p True] s
         in case ctx of None \<Rightarrow> Inr s
            | Some c \<Rightarrow>
               let (r, s) = tcp_ssl_new_server en po (Some c) s in
               if r < 0 then do_close en cb s else Inr (install_ssl_callbacks p s))"

end
