(* ===== verification/ClientRun.thy ===== *)
theory ClientRun
  imports Client
begin

text \<open>
  The lwIP side of \<open>AsyncClient\<close>: the handlers \<open>_connected\<close>, \<open>_recv\<close>, \<open>_sent\<close>,
  \<open>_poll\<close>, \<open>_error\<close>, \<open>_dns_found\<close> and their static wrappers, which return the
  \<open>err_t\<close> of the error tracker to lwIP.  Then the two closures of the model: user code as
  arbitrary sequences of API calls, and the step relation of a client driven by lwIP and
  by its user.
\<close>

section \<open>Handlers\<close>

definition client_sent :: "env \<Rightarrow> user \<Rightarrow> u16 \<Rightarrow> conn \<Rightarrow> conn res" where
  "client_sent en cb len s =
     (if use_tls s \<and> \<not> handshake_done s then Inr s
      else let (now, s) = millis en s;
               s = s\<lparr>rx_last_packet := now\<rparr>;
               n = tx_unacked_len s;
               s = s\<lparr>tx_unacked_len := n - (if n > ucast len then ucast len else n),
                     tx_acked_len := tx_acked_len s + ucast len\<rparr>
           in if tx_unacked_len s = 0 then
                (let s = set_close_error ERR_OK (s\<lparr>pcb_busy := False\<rparr>)
                 in if sent_cb s then
                      (let (now, s) = millis en s in
                       rbind (invoke cb (CB_ack (tx_acked_len s) (now - pcb_sent_at s)) s) (\<lambda>s.
                         if \<not> hasClient (trk s) then Inr s
                         else touch s (Inr (s\<lparr>tx_acked_len := 0\<rparr>))))
                    else Inr (s\<lparr>tx_acked_len := 0\<rparr>))
              else Inr s)"

text \<open>
  The pbuf loop.  When the client was deleted (and the tracker knows it) the rest of the
  chain is freed.  \<open>deliver\<close> is the branch without an \<open>onPacket\<close> handler, up to the
  acknowledgement of the window.
\<close>

definition deliver :: "env \<Rightarrow> user \<Rightarrow> pcb \<Rightarrow> pbuf \<Rightarrow> conn \<Rightarrow> conn res" where
  "deliver en cb p b s =
     rbind (if recv_cb s then invoke cb (CB_data (payload b)) (s\<lparr>recv_pbuf_flags := pb_flags b\<rparr>)
            else Inr s) (\<lambda>s.
       if hasClient (trk s) then
         touch s (Inr (if \<not> ack_pcb s
                       then s\<lparr>rx_ack_len := rx_ack_len s + of_nat (length (payload b))\<rparr>
                       else emit (A_tcp_recved (Some p) (of_nat (length (payload b)))) s))
       else Inr s)"

fun recv_loop :: "env \<Rightarrow> user \<Rightarrow> pcb \<Rightarrow> pbuf list \<Rightarrow> conn \<Rightarrow> conn res" where
  "recv_loop en cb p [] s = Inr s"
| "recv_loop en cb p (b # pb) s =
     (if \<not> hasClient (trk s)
      then Inr (emits (map (\<lambda>b. A_pbuf_free [pb_id b]) (b # pb)) s)
      else touch s
        (let s = s\<lparr>ack_pcb := True\<rparr> in
         if pb_cb s then rbind (invoke cb (CB_packet b) s) (recv_loop en cb p pb)
         else rbind (deliver en cb p b s)
                (\<lambda>s. recv_loop en cb p pb (emit (A_pbuf_free [pb_id b]) s))))"

text \<open>The common error branch of \<open>_recv\<close> and \<open>_connected\<close>.\<close>

definition fail_pcb :: "user \<Rightarrow> error_event \<Rightarrow> pcb option \<Rightarrow> err_t \<Rightarrow> conn \<Rightarrow> conn res" where
  "fail_pcb cb ev po e s =
     (let s = set_errored ev (set_close_error e s);
          s = (case po of None \<Rightarrow> s | Some p \<Rightarrow> clearTcpCallbacks p s)\<lparr>c_pcb := None\<rparr>
      in do_error cb e s)"

definition client_recv ::
  "env \<Rightarrow> user \<Rightarrow> pcb option \<Rightarrow> pbuf list \<Rightarrow> err_t \<Rightarrow> conn \<Rightarrow> conn res" where
  "client_recv en cb po pb e s = (case po of
     None \<Rightarrow> fail_pcb cb EE_RECV_CB po e s
   | Some p \<Rightarrow>
      if ERR_OK \<noteq> e then fail_pcb cb EE_RECV_CB po e s
      else if pb = [] then do_close en cb s
      else let (now, s) = millis en s;
               s = set_close_error ERR_OK (s\<lparr>rx_last_packet := now\<rparr>)
           in if use_tls s
              then rbind (tcp_ssl_read en (client_ssl_cb cb) p pb s) (\<lambda>(r, s).
                     if r < 0 then touch s (do_close en cb s) else Inr s)
              else recv_loop en cb p pb s)"

definition client_poll :: "env \<Rightarrow> user \<Rightarrow> conn \<Rightarrow> conn res" where
  "client_poll en cb s =
     (let s = set_close_error ERR_OK s in
      if close_pcb s then do_close en cb (s\<lparr>close_pcb := False\<rparr>)
      else let (now, s) = millis en s in
        if pcb_busy s \<and> ack_timeout s \<noteq> 0 \<and> now - pcb_sent_at s \<ge> ack_timeout s
        then invoke_if (timeout_cb s) cb (CB_timeout (now - pcb_sent_at s))
               (s\<lparr>pcb_busy := False\<rparr>)
        else if rx_since_timeout s \<noteq> 0 \<and> now - rx_last_packet s \<ge> rx_since_timeout s * 1000
        then do_close en cb s
        else if use_tls s \<and> \<not> handshake_done s
                \<and> now - rx_last_packet s \<ge> TCP_SSL_HANDSHAKE_TIMEOUT
        then do_close en cb s
        else invoke_if (poll_cb s) cb CB_poll s)"

text \<open>The TLS part of \<open>_connected\<close>; the flag says whether the handler goes on.\<close>

definition x509_choice :: "conn \<Rightarrow> x509_kind" where
  "x509_choice s =
     (if insecure_modes (ssl_auth_mode s) then X509_insecure
      else if knownkey s \<noteq> None \<and> ssl_auth_mode s AND SSL_AUTH_KNOWN_KEY \<noteq> 0
      then X509_knownkey else X509_minimal)"

definition start_tls :: "env \<Rightarrow> user \<Rightarrow> conn \<Rightarrow> (bool \<times> conn) res" where
  "start_tls en cb s =
     (let (valid, s) = initClientX509Validator en s in
      rbind (if \<not> valid then do_close en cb s else Inr s) (\<lambda>s. touch s
        (rbind (tcp_ssl_new_client en (client_ssl_cb cb) (c_pcb s) (x509_choice s) s) (\<lambda>(err, s).
           if err \<noteq> 0 then rbind (do_close en cb s) (\<lambda>s. Inr (False, s))
           else Inr (True, case c_pcb s of None \<Rightarrow> s | Some p \<Rightarrow> install_ssl_callbacks p s)))))"

definition client_connected :: "env \<Rightarrow> user \<Rightarrow> pcb option \<Rightarrow> err_t \<Rightarrow> conn \<Rightarrow> conn res" where
  "client_connected en cb po e s = (case po of
     None \<Rightarrow> fail_pcb cb EE_CONNECTED_CB po e s
   | Some p \<Rightarrow>
      if ERR_OK \<noteq> e then fail_pcb cb EE_CONNECTED_CB po e s
      else let s = s\<lparr>c_pcb := Some p, pcb_busy := False\<rparr>;
               (now, s) = millis en s;
               s = emits [A_setprio p, A_recv_fn p True, A_sent_fn p True, A_poll_fn p True]
                     (s\<lparr>rx_last_packet := now\<rparr>)
           in rbind (if use_tls s then start_tls en cb s else Inr (True, s)) (\<lambda>(go, s).
                if go then invoke_if (connect_cb s \<and> connected en s) cb CB_connect s
                else Inr s))"

section \<open>Static wrappers\<close>

text \<open>
  lwIP calls the wrappers with the client as their argument, and their first access is to a
  member of it, the error tracker: on a deleted client this is a use after free.
\<close>

definition callback_result :: "conn \<Rightarrow> err_t \<times> conn" where
  "callback_result s = (let (e, t) = getCallbackCloseError (trk s) in (e, s\<lparr>trk := t\<rparr>))"

definition s_poll :: "env \<Rightarrow> user \<Rightarrow> conn \<Rightarrow> (err_t \<times> conn) res" where
  "s_poll en cb s =
     touch s (rbind (client_poll en cb s) (\<lambda>s. Inr (callback_result s)))"

definition s_recv ::
  "env \<Rightarrow> user \<Rightarrow> pcb option \<Rightarrow> pbuf list \<Rightarrow> err_t \<Rightarrow> conn \<Rightarrow> (err_t \<times> conn) res" where
  "s_recv en cb po pb e s =
     touch s (rbind (client_recv en cb po pb e s) (\<lambda>s. Inr (callback_result s)))"

definition s_sent :: "env \<Rightarrow> user \<Rightarrow> u16 \<Rightarrow> conn \<Rightarrow> (err_t \<times> conn) res" where
  "s_sent en cb len s =
     touch s (rbind (client_sent en cb len s) (\<lambda>s. Inr (callback_result s)))"

definition s_connected :: "env \<Rightarrow> user \<Rightarrow> pcb option \<Rightarrow> err_t \<Rightarrow> conn \<Rightarrow> (err_t \<times> conn) res" where
  "s_connected en cb po e s =
     touch s (rbind (client_connected en cb po e s) (\<lambda>s. Inr (callback_result s)))"

section \<open>User code\<close>

text \<open>The API a handler (or the sketch's loop) can call, and the handler setters.\<close>

datatype handler = H_connect | H_disconnect | H_ack | H_error | H_data | H_packet | H_timeout | H_poll

datatype api_op =
    Op_close bool
  | Op_abort
  | Op_add "byte list option" u8
  | Op_send
  | Op_write "byte list option" u8
  | Op_write_cstr "byte list option"
  | Op_ack u32
  | Op_ackLater
  | Op_ackPacket "pbuf option"
  | Op_setNoDelay bool
  | Op_setRxTimeout u32
  | Op_setAckTimeout u32
  | Op_on handler bool
  | Op_connect ip u16 bool
  | Op_connect_host string u16 bool
  | Op_setInsecure bool
  | Op_setKnownKey "key_kind option" u32
  | Op_allowSelfSigned
  | Op_setFingerprint "byte list option" nat
  | Op_delete

fun set_handler :: "handler \<Rightarrow> bool \<Rightarrow> conn \<Rightarrow> conn" where
  "set_handler H_connect b s = s\<lparr>connect_cb := b\<rparr>"
| "set_handler H_disconnect b s = s\<lparr>discard_cb := b\<rparr>"
| "set_handler H_ack b s = s\<lparr>sent_cb := b\<rparr>"
| "set_handler H_error b s = s\<lparr>error_cb := b\<rparr>"
| "set_handler H_data b s = s\<lparr>recv_cb := b\<rparr>"
| "set_handler H_packet b s = s\<lparr>pb_cb := b\<rparr>"
| "set_handler H_timeout b s = s\<lparr>timeout_cb := b\<rparr>"
| "set_handler H_poll b s = s\<lparr>poll_cb := b\<rparr>"

definition setRxTimeout :: "u32 \<Rightarrow> conn \<Rightarrow> conn" where
  "setRxTimeout t s = s\<lparr>rx_since_timeout := t\<rparr>"

definition setAckTimeout :: "u32 \<Rightarrow> conn \<Rightarrow> conn" where
  "setAckTimeout t s = s\<lparr>ack_timeout := t\<rparr>"

fun api_call :: "env \<Rightarrow> user \<Rightarrow> api_op \<Rightarrow> conn \<Rightarrow> conn res" where
  "api_call en cb (Op_close now) s = close en cb now s"
| "api_call en cb Op_abort s = abort en cb s"
| "api_call en cb (Op_add d f) s = rbind (add en cb d f s) (\<lambda>(_, s). Inr s)"
| "api_call en cb Op_send s = Inr (snd (send en s))"
| "api_call en cb (Op_write d f) s = rbind (client_write en cb d f s) (\<lambda>(_, s). Inr s)"
| "api_call en cb (Op_write_cstr d) s = rbind (write_cstr en cb d s) (\<lambda>(_, s). Inr s)"
| "api_call en cb (Op_ack n) s = Inr (snd (ack n s))"
| "api_call en cb Op_ackLater s = Inr (ackLater s)"
| "api_call en cb (Op_ackPacket b) s = Inr (ackPacket b s)"
| "api_call en cb (Op_setNoDelay b) s = Inr (setNoDelay b s)"
| "api_call en cb (Op_setRxTimeout t) s = Inr (setRxTimeout t s)"
| "api_call en cb (Op_setAckTimeout t) s = Inr (setAckTimeout t s)"
| "api_call en cb (Op_on h b) s = Inr (set_handler h b s)"
| "api_call en cb (Op_connect a p t) s = Inr (snd (connect_ip en a p t s))"
| "api_call en cb (Op_connect_host n p t) s = Inr (snd (connect_host en n p t s))"
| "api_call en cb (Op_setInsecure b) s = Inr (setInsecure b s)"
| "api_call en cb (Op_setKnownKey k u) s = Inr (setKnownKey k u s)"
| "api_call en cb Op_allowSelfSigned s = Inr (allowSelfSignedCerts s)"
| "api_call en cb (Op_setFingerprint f n) s = Inr (snd (setFingerprint en f n s))"
| "api_call en cb Op_delete s = delete_client en cb s"

definition user_call :: "env \<Rightarrow> user \<Rightarrow> api_op \<Rightarrow> conn \<Rightarrow> conn res" where
  "user_call en cb x s = (if life s = Dead then Inl User_use_after_free else api_call en cb x s)"

fun run_script :: "env \<Rightarrow> user \<Rightarrow> api_op list \<Rightarrow> conn \<Rightarrow> conn res" where
  "run_script en cb [] s = Inr s"
| "run_script en cb (x # xs) s = rbind (user_call en cb x s) (run_script en cb xs)"

text \<open>
  User code in full: \<open>usr ev h\<close> is the sequence of API calls the handler for \<open>ev\<close> makes
  when the history is \<open>h\<close>.  Handlers nest (a call made in a handler may run another
  handler), to any finite depth; the first argument bounds it.
\<close>

type_synonym sketch = "cb_ev \<Rightarrow> hist \<Rightarrow> api_op list"

fun run_cb :: "nat \<Rightarrow> env \<Rightarrow> sketch \<Rightarrow> user" where
  "run_cb 0 en usr ev s = Inl No_return"
| "run_cb (Suc d) en usr ev s = run_script en (run_cb d en usr) (usr ev (log s)) s"

section \<open>A client driven by lwIP and its user\<close>

text \<open>
  lwIP calls a handler with the client's own pcb, or, after a connect, with the pcb that
  is now connected, which is one that was not released; it frees a pcb before it calls
  the error callback, that of the client's own pcb (\<open>error\<close>) or that of a connection that
  could not be made (\<open>failed\<close>: the client does not have its pcb yet).  The sketch makes API
  calls between the callbacks.  (What happens when a second connection attempt succeeds
  while the client still has a pcb is in theory ClientConnect.)
\<close>

text \<open>
  \<open>released p h\<close>: the library gave \<open>p\<close> back to lwIP (a successful \<open>tcp_close\<close>, a
  \<open>tcp_abort\<close>) or lwIP freed it, and did not get it again since; the library calls
  \<open>tcp_setprio\<close> on every pcb it gets.
\<close>

primrec released :: "pcb \<Rightarrow> hist \<Rightarrow> bool" where
  "released p [] = False"
| "released p (a # h) = (case a of
     A_tcp_close q e \<Rightarrow> (q = p \<and> e = ERR_OK) \<or> released p h
   | A_tcp_abort q \<Rightarrow> q = p \<or> released p h
   | A_lwip_freed q \<Rightarrow> q = p \<or> released p h
   | A_setprio q \<Rightarrow> q \<noteq> p \<and> released p h
   | _ \<Rightarrow> released p h)"

inductive client_step :: "nat \<Rightarrow> env \<Rightarrow> sketch \<Rightarrow> conn \<Rightarrow> conn \<Rightarrow> bool" for d en usr where
  poll: "\<lbrakk>life s = Alive; c_pcb s = Some p; s_poll en (run_cb d en usr) s = Inr (e, t)\<rbrakk>
    \<Longrightarrow> client_step d en usr s t"
| recv: "\<lbrakk>life s = Alive; c_pcb s = Some p; s_recv en (run_cb d en usr) (Some p) pb err s = Inr (e, t)\<rbrakk>
    \<Longrightarrow> client_step d en usr s t"
| sent: "\<lbrakk>life s = Alive; c_pcb s = Some p; s_sent en (run_cb d en usr) len s = Inr (e, t)\<rbrakk>
    \<Longrightarrow> client_step d en usr s t"
| error: "\<lbrakk>life s = Alive; c_pcb s = Some p; 
      s_error (run_cb d en usr) err (emit (A_lwip_freed p) s) = Inr t\<rbrakk>
    \<Longrightarrow> client_step d en usr s t"
| connected: "\<lbrakk>life s = Alive; c_pcb s = None; \<forall>p. po = Some p \<longrightarrow> \<not> released p (log s);
      s_connected en (run_cb d en usr) po err s = Inr (e, t)\<rbrakk>
    \<Longrightarrow> client_step d en usr s t"
| failed: "\<lbrakk>life s = Alive; c_pcb s = None; \<not> released p (log s);
      s_error (run_cb d en usr) err (emit (A_lwip_freed p) s) = Inr t\<rbrakk>
    \<Longrightarrow> client_step d en usr s t"
| dns: "\<lbrakk>life s = Alive; dns_found en (run_cb d en usr) addr s = Inr t\<rbrakk>
    \<Longrightarrow> client_step d en usr s t"
| user: "\<lbrakk>life s = Alive; user_call en (run_cb d en usr) x s = Inr t\<rbrakk>
    \<Longrightarrow> client_step d en usr s t"

inductive_cases client_stepE: "client_step d en usr s t"

end
