(* ===== verification/ClientTls.thy ===== *)
theory ClientTls
  imports ClientRun
begin

text \<open>
  The client as the user of the TLS glue: whatever the sketch does in its handlers, the
  callbacks the client installs satisfy the contract \<open>engine_user\<close> of the glue, so the
  reassembly theorems hold for the whole of client and glue together.
\<close>

section \<open>Every operation of the client keeps the reassembly buffers\<close>

text \<open>
  \<open>kept p s0 s\<close>: between \<open>s0\<close> and \<open>s\<close> nothing was fed to the engine of \<open>p\<close>, its reassembly
  buffer is unchanged if its context still exists, and the registry has no duplicates.
  It depends on the registry and the log only.
\<close>

definition kept_core :: "pcb \<Rightarrow> conn \<Rightarrow> ssl_pcb list \<Rightarrow> byte list \<Rightarrow> bool" where
  "kept_core p s0 l f \<longleftrightarrow> registry_wf l \<and> f = fed p (log s0)
     \<and> (\<forall>sp'. find_ssl_pcb p l = Some sp' \<longrightarrow>
          (\<exists>sp. find_ssl_pcb p (ssl s0) = Some sp \<and> same_accum sp sp'))"

abbreviation kept :: "pcb \<Rightarrow> conn \<Rightarrow> conn \<Rightarrow> bool" where
  "kept p s0 s \<equiv> kept_core p s0 (ssl s) (fed p (log s))"

lemma kept_iff: "kept p s0 s \<longleftrightarrow> registry_wf (ssl s) \<and> keeps p s0 s"
  by (auto simp: kept_core_def keeps_def)

lemma kept_refl: "registry_wf (ssl s) \<Longrightarrow> kept p s s"
  by (simp add: kept_iff)

lemma kept_trans: "kept p s t \<Longrightarrow> kept p t u \<Longrightarrow> kept p s u"
  by (auto simp: kept_iff intro: keeps_trans)

lemma kept_wf: "kept p s t \<Longrightarrow> registry_wf (ssl t)"
  by (simp add: kept_iff)

lemma kept_free: "kept p s0 s \<Longrightarrow> kept p s0 (snd (tcp_ssl_free q s))"
proof -
  assume k: "kept p s0 s"
  have "registry_wf (ssl s) \<Longrightarrow> kept p s (snd (tcp_ssl_free q s))"
    by (auto simp: tcp_ssl_free_def kept_iff emit_def split: option.split
        intro: keeps_unlink ssl_reg.wf_remove)
  with k show ?thesis by (blast intro: kept_trans kept_wf)
qed

named_theorems kept_intros

locale client_user =
  fixes cb :: user
  assumes cb_kept: "registry_wf (ssl s) \<Longrightarrow> ok (kept p s) (cb ev s)"
begin

lemma user_kept: "kept p s0 s \<Longrightarrow> ok (kept p s0) (cb ev s)"
  by (rule ok_mono [OF cb_kept [OF kept_wf]]) (auto intro: kept_trans)

lemma invoke_kept [kept_intros]: "kept p s0 s \<Longrightarrow> ok (kept p s0) (invoke cb ev s)"
  by (simp add: invoke_def user_kept)

lemma invoke_if_kept [kept_intros]: "kept p s0 s \<Longrightarrow> ok (kept p s0) (invoke_if b cb ev s)"
  by (simp add: invoke_if_def invoke_kept)

lemma ssl_cb_kept: "kept p s0 s \<Longrightarrow> ok (kept p s0) (client_ssl_cb cb ev s)"
  by (cases ev) (auto simp: client_ssl_cb_def touch_def intro: invoke_if_kept)

text \<open>The client is a TLS user in the sense of the glue.\<close>

sublocale engine_user en "client_ssl_cb cb" "\<lambda>s. registry_wf (ssl s)"
proof
  fix p s ev
  show "registry_wf (ssl s) \<Longrightarrow>
      ok (\<lambda>s'. registry_wf (ssl s') \<and> keeps p s s') (client_ssl_cb cb ev s)"
    using ssl_cb_kept [of p s s ev] by (simp add: kept_refl kept_iff)
qed (auto intro: ssl_reg.wf_modify)

lemma ssl_write_kept:
  "kept p s0 s \<Longrightarrow> ok (\<lambda>(r, s'). kept p s0 s') (tcp_ssl_write en (client_ssl_cb cb) q d s)"
  by (rule ok_mono [OF tcp_ssl_write_keeps [OF kept_wf, of p s0 s p]])
    (auto simp: kept_iff intro: keeps_trans)

lemma do_error_kept [kept_intros]:
  assumes "kept p s0 s"
  shows "ok (kept p s0) (do_error cb e s)"
proof -
  have "kept p s0 (case c_pcb s of None \<Rightarrow> s
     | Some q \<Rightarrow> (if use_tls s then snd (tcp_ssl_free q s) else s)\<lparr>c_pcb := None\<rparr>)"
    using assms kept_free [OF assms] by (simp split: option.split)
  then show ?thesis
    unfolding do_error_def Let_def
    by (intro ok_rbind [OF invoke_if_kept]) (auto simp: touch_def intro: invoke_if_kept)
qed

lemma s_error_kept [kept_intros]: "kept p s0 s \<Longrightarrow> ok (kept p s0) (s_error cb e s)"
  by (simp add: s_error_def touch_def set_errored_def set_close_error_def do_error_kept)

lemma abort_kept [kept_intros]:
  assumes "kept p s0 s"
  shows "ok (kept p s0) (abort en cb s)"
  unfolding abort_def Let_def
  using assms by (auto split: option.split simp: touch_def set_close_error_def
      intro!: ok_rbind [where Q = "kept p s0"] s_error_kept)

lemma drop_tls_kept: "kept p s0 s \<Longrightarrow> kept p s0 (drop_tls q s)"
  using kept_free [of p s0 s q] by (simp add: drop_tls_def)

lemma do_close_kept [kept_intros]:
  assumes "kept p s0 s"
  shows "ok (kept p s0) (do_close en cb s)"
proof -
  have closed: "kept p s0 (emit (A_tcp_close q e) (clearTcpCallbacks q (drop_tls q s)))" for q e
    using drop_tls_kept [OF assms] by (simp add: clearTcpCallbacks_def)
  show ?thesis
    unfolding do_close_def Let_def
    using assms closed
    by (auto split: option.split simp: set_close_error_def
        intro!: ok_rbind [where Q = "kept p s0"] abort_kept invoke_if_kept)
qed

lemma close_kept [kept_intros]: "kept p s0 s \<Longrightarrow> ok (kept p s0) (close en cb now s)"
  by (auto simp: close_def Let_def split: option.split intro!: do_close_kept)

lemma delete_kept [kept_intros]: "kept p s0 s \<Longrightarrow> ok (kept p s0) (delete_client en cb s)"
  by (auto simp: delete_client_def Let_def intro!: ok_rbind [where Q = "kept p s0"] do_close_kept)

lemma add_kept:
  assumes "kept p s0 s"
  shows "ok (\<lambda>(n, s'). kept p s0 s') (add en cb d f s)"
proof -
  have tls: "ok (\<lambda>(n, s'). kept p s0 s') (rbind (tcp_ssl_write en (client_ssl_cb cb) q bs s)
      (\<lambda>(sent, s). touch s
         (if sent \<ge> 0
          then Inr (nat sent, s\<lparr>tx_unacked_len := tx_unacked_len s + of_int sent\<rparr>)
          else rbind (do_close en cb s) (\<lambda>s. Inr (0, s)))))" for q bs
    by (rule ok_rbind [OF ssl_write_kept [OF assms]])
      (auto simp: touch_def intro!: ok_rbind [OF do_close_kept])
  show ?thesis
    using assms tls by (auto simp: add_def Let_def split: option.split)
qed

lemma send_kept: "kept p s0 s \<Longrightarrow> kept p s0 (snd (send en s))"
  by (auto simp: send_def millis_def Let_def)

lemma write_kept:
  "kept p s0 s \<Longrightarrow> ok (\<lambda>(n, s'). kept p s0 s') (client_write en cb d f s)"
  unfolding client_write_def
  by (rule ok_rbind [OF add_kept])
    (auto simp: touch_def split_beta Let_def send_kept)

lemma connect_ip_kept: "kept p s0 s \<Longrightarrow> kept p s0 (snd (connect_ip en a n b s))"
  by (auto simp: connect_ip_def Let_def split: option.split)

lemma connect_host_kept: "kept p s0 s \<Longrightarrow> kept p s0 (snd (connect_host en h n b s))"
  by (auto simp: connect_host_def Let_def split_beta intro!: connect_ip_kept)

lemma user_call_kept:
  assumes k: "kept p s0 s"
  shows "ok (kept p s0) (user_call en cb x s)"
proof -
  have pair: "ok (kept p s0) (rbind r (\<lambda>(_, s). Inr s))"
    if "ok (\<lambda>(n :: nat, s'). kept p s0 s') r" for r
    by (rule ok_rbind [OF that]) auto
  have "ok (kept p s0) (api_call en cb x s)"
  proof (cases x)
    case (Op_on h b)
    with k show ?thesis by (cases h) auto
  qed (use k in \<open>auto intro!: kept_intros pair add_kept write_kept send_kept
        connect_ip_kept connect_host_kept
      simp: ack_def ackLater_def ackPacket_def setNoDelay_def setInsecure_def setKnownKey_def
        allowSelfSignedCerts_def setFingerprint_def clearAuthenticationSettings_def Let_def
        write_cstr_def setRxTimeout_def setAckTimeout_def
      split: option.split\<close>)
  then show ?thesis by (simp add: user_call_def)
qed

lemma run_script_kept: "kept p s0 s \<Longrightarrow> ok (kept p s0) (run_script en cb xs s)"
  by (induction xs arbitrary: s) (auto intro!: ok_rbind [OF user_call_kept])

end

section \<open>The model's own user code satisfies the contract\<close>

lemma run_cb_client_user: "client_user (run_cb d en usr)"
proof (induction d)
  case 0
  show ?case by unfold_locales simp
next
  case (Suc d)
  show ?case
    by unfold_locales (simp add: client_user.run_script_kept [OF Suc.IH] kept_refl)
qed

interpretation run: client_user "run_cb d en usr" for d en usr
  by (rule run_cb_client_user)

text \<open>The callbacks of a client whose handlers run the sketch \<open>usr\<close>.\<close>

abbreviation tls_cb :: "nat \<Rightarrow> env \<Rightarrow> sketch \<Rightarrow> ssl_ev \<Rightarrow> conn \<Rightarrow> conn res" where
  "tls_cb d en usr \<equiv> client_ssl_cb (run_cb d en usr)"

text \<open>A platform and a state to evaluate TLS reads on: a client with one idle context.\<close>

definition mem0 :: conn where
  "mem0 = \<lparr>log = [], ssl = [], c_pcb = None, connect_cb = False, discard_cb = False,
     sent_cb = False, error_cb = False, recv_cb = False, pb_cb = False, timeout_cb = False,
     poll_cb = False, pcb_busy = False, pcb_sent_at = 0, close_pcb = False, ack_pcb = True,
     tx_unacked_len = 0, tx_acked_len = 0, rx_ack_len = 0, rx_last_packet = 0,
     rx_since_timeout = 5, ack_timeout = 3000, connect_port = 0, recv_pbuf_flags = 0,
     trk = new_tracker, use_tls = False, ssl_auth_mode = 0, fingerprint = None,
     knownkey_usages = 0, handshake_done = False, c_host = [], knownkey = None,
     ca_certs = None, x509_minimal = False, x509_insecure = None, x509_knownkey = False,
     life = Alive\<rparr>"

definition tls0 :: conn where
  "tls0 = mem0\<lparr>ssl := [sample_ssl_pcb 1 8], c_pcb := Some 1, use_tls := True,
     handshake_done := True, recv_cb := True, discard_cb := True\<rparr>"

definition packet :: "byte list \<Rightarrow> pbuf list" where
  "packet bs = [\<lparr>pb_id = 0, payload = bs, pb_flags = 0\<rparr>]"

text \<open>
  C5: the reassembly buffer of a TLS connection, for every platform, every sketch and
  every nesting of its handlers: a received packet that fits is taken in full; the
  engine is fed a prefix of the packet followed by the bytes that were pending before,
  and exactly the rest is pending afterwards.  No byte is lost, duplicated or read from
  outside the buffer, and the buffer stays within its bounds.
\<close>

theorem tls_read_reassembly:
  assumes "registry_wf (ssl s)" "find_ssl_pcb p (ssl s) = Some sp" "accum_ok en sp"
    and "tot_len pb \<le> sp_accum_pos sp"
    and "tcp_ssl_read en (tls_cb d en usr) p pb s = Inr (r, s')"
  shows "\<exists>k. fed p (log s') = fed p (log s) @ take k (chain_bytes pb @ pending sp)
      \<and> (\<forall>sp'. find_ssl_pcb p (ssl s') = Some sp' \<longrightarrow>
           accum_ok en sp' \<and> pending sp' = drop k (chain_bytes pb @ pending sp))"
  using okD [OF run.tcp_ssl_read_spec [OF assms(1-3)] assms(5)] assms(4)
  by (simp del: take_append drop_append)

lemma tls0_facts:
  "registry_wf (ssl tls0)" "find_ssl_pcb 1 (ssl tls0) = Some (sample_ssl_pcb 1 8)"
  "accum_ok quiet_env (sample_ssl_pcb 1 8)" "pending (sample_ssl_pcb 1 8) = []"
  by (simp_all add: tls0_def registry_wf_def sample_ssl_pcb_def accum_ok_def quiet_env_def
      pending_def)

lemmas tls_eval = tls0_def mem0_def sample_ssl_pcb_def quiet_env_def packet_def chain_bytes_def
  tot_len_def tcp_ssl_read_def ssl_feed_def accum_copy_def accum_shift_def process_ssl_engine_def
  engine_step_def engine_send_def finish_handshake_def set_out_len_def set_in_len_def
  emits_def emit_def Let_def ASYNC_TCP_SSL_MAX_FEED_LOOPS_def accum_loop.simps
  eval_nat_numeral

definition tls1 :: conn where
  "tls1 = tls0\<lparr>log := [A_br_recvrec 1 [5, 6, 7], A_pbuf_free [0], A_tcp_recved (Some 1) 3],
     ssl := [(sample_ssl_pcb 1 8)\<lparr>sp_accum := [0, 0, 0, 0, 0, 5, 6, 7], sp_accum_pos := 8\<rparr>]\<rparr>"

lemma tls_read_example:
  "tcp_ssl_read quiet_env (tls_cb 1 quiet_env usr) 1 (packet [5, 6, 7]) tls0 = Inr (0, tls1)"
  by (simp add: tls_eval tls1_def)

lemma packet_facts: "chain_bytes (packet bs) = bs" "tot_len (packet bs) = length bs"
  by (simp_all add: packet_def chain_bytes_def tot_len_def)

theorem tls_read_reassembly_witness:
  "\<exists>k. fed 1 (log tls1) = take k [5, 6, 7]
     \<and> (\<forall>sp'. find_ssl_pcb 1 (ssl tls1) = Some sp' \<longrightarrow>
          accum_ok quiet_env sp' \<and> pending sp' = drop k [5, 6, 7])"
proof -
  have fits: "tot_len (packet [5, 6, 7]) \<le> sp_accum_pos (sample_ssl_pcb 1 8)"
    by (simp add: packet_facts sample_ssl_pcb_def)
  from tls_read_reassembly [OF tls0_facts(1-3) fits tls_read_example] show ?thesis
    by (simp add: tls0_facts(4) [simplified] packet_facts tls0_def mem0_def del: find_ssl_pcb.simps)
qed

inductive drained_reads ::
  "env \<Rightarrow> (ssl_ev \<Rightarrow> conn \<Rightarrow> conn res) \<Rightarrow> pcb \<Rightarrow> pbuf list list \<Rightarrow> conn \<Rightarrow> conn \<Rightarrow> bool"
  for en cb p where
  none: "drained_reads en cb p [] s s"
| read: "\<lbrakk>find_ssl_pcb p (ssl s) = Some sp; pending sp = [];
     tcp_ssl_read en cb p pb s = Inr (0, t); drained_reads en cb p pbs t u;
     find_ssl_pcb p (ssl t) = Some sp'; pending sp' = []\<rbrakk>
    \<Longrightarrow> drained_reads en cb p (pb # pbs) s u"

text \<open>
  C23: packets are fed to the engine in the order they arrived as long as each one is
  consumed before the next arrives: over a sequence of reads that each leave nothing
  pending, the engine has been fed exactly the concatenation of the packets.
\<close>

theorem tls_stream_in_order:
  assumes "drained_reads en (tls_cb d en usr) p pbs s s'"
    and "registry_wf (ssl s)" and "\<forall>sp. find_ssl_pcb p (ssl s) = Some sp \<longrightarrow> accum_ok en sp"
  shows "fed p (log s') = fed p (log s) @ concat (map chain_bytes pbs)"
  using assms
proof (induction rule: drained_reads.induct)
  case (read s sp pb t pbs u sp')
  note spec = okD [OF run.tcp_ssl_read_spec [OF read.prems(1) read.hyps(1)] read.hyps(3)]
  have okp: "accum_ok en sp" using read by simp
  from spec [OF okp] have wf: "registry_wf (ssl t)"
    and fit: "\<not> sp_accum_pos sp < tot_len pb" by (auto split: if_splits)
  with spec [OF okp] read.hyps obtain k where k: "fed p (log t) = fed p (log s) @ take k (chain_bytes pb)"
    "accum_ok en sp'" "drop k (chain_bytes pb) = []" by auto
  with read.IH wf read.hyps have "fed p (log u) = fed p (log t) @ concat (map chain_bytes pbs)"
    by auto
  with k show ?case by simp
qed simp

theorem tls_stream_in_order_witness:
  "fed 1 (log tls1) = fed 1 (log tls0) @ concat (map chain_bytes [packet [5, 6, 7]])"
proof -
  have "drained_reads quiet_env (tls_cb 1 quiet_env (\<lambda>ev h. [])) 1 [packet [5, 6, 7]] tls0 tls1"
    by (rule drained_reads.read [OF tls0_facts(2,4) tls_read_example drained_reads.none,
          where sp' = "hd (ssl tls1)"])
      (simp_all add: tls1_def sample_ssl_pcb_def pending_def)
  from tls_stream_in_order [OF this tls0_facts(1)] tls0_facts show ?thesis by simp
qed

text \<open>
  A packet longer than the free part of the reassembly buffer is refused: the read
  reports \<open>-1\<close> (on which \<open>_recv\<close> closes the connection) and nothing of the packet, nor
  of what was pending, reaches the engine.  The buffer has
  \<open>ASYNC_TCP_SSL_IN_BUFFER_SIZE\<close> bytes, 1024 by default, while a full segment carries
  \<open>TCP_MSS\<close> = 1460.
\<close>

theorem tls_packet_too_large:
  assumes "registry_wf (ssl s)" "find_ssl_pcb p (ssl s) = Some sp" "accum_ok en sp"
    and "in_size en < tot_len pb"
    and "tcp_ssl_read en (tls_cb d en usr) p pb s = Inr (r, s')"
  shows "r = -1 \<and> fed p (log s') = fed p (log s)"
  using okD [OF run.tcp_ssl_read_spec [OF assms(1-3)] assms(5)] assms(3,4)
  by (simp add: accum_ok_def split: if_splits)

theorem tls_packet_too_large_witness:
  "\<exists>s'. tcp_ssl_read quiet_env (tls_cb 1 quiet_env (\<lambda>ev h. [])) 1 (packet [1, 2, 3, 4, 5, 6, 7, 8, 9]) tls0
       = Inr (-1, s') \<and> fed 1 (log s') = fed 1 (log tls0)"
proof -
  have "\<exists>s'. tcp_ssl_read quiet_env (tls_cb 1 quiet_env (\<lambda>ev h. [])) 1
      (packet [1, 2, 3, 4, 5, 6, 7, 8, 9]) tls0 = Inr (-1, s')"
    by (simp add: tls_eval)
  then obtain s' where run: "tcp_ssl_read quiet_env (tls_cb 1 quiet_env (\<lambda>ev h. [])) 1
      (packet [1, 2, 3, 4, 5, 6, 7, 8, 9]) tls0 = Inr (-1, s')" ..
  have "in_size quiet_env < tot_len (packet [1, 2, 3, 4, 5, 6, 7, 8, 9])"
    by (simp add: quiet_env_def packet_facts)
  from tls_packet_too_large [OF tls0_facts(1-3) this run] run show ?thesis by blast
qed

definition slow_env :: env where
  "slow_env = quiet_env\<lparr>b_recvrec_room :=
     (\<lambda>h p. if A_tcp_recved (Some p) 1 \<in> set h then 64 else 0)\<rparr>"

text \<open>
  When the engine did not take all of the previous packet, the next packet overtakes
  the bytes still pending: the accumulator is filled backwards, in front of the old data,
  but emptied forwards.  Here \<open>[1, 2]\<close> arrives while the engine has no room, then \<open>[3]\<close>
  arrives and the engine is fed \<open>3, 1, 2\<close>: the ciphertext stream is reordered.
\<close>

theorem tls_read_reorders:
  "\<exists>s1 s2. tcp_ssl_read slow_env (tls_cb 1 slow_env usr) 1 (packet [1, 2]) tls0 = Inr (0, s1)
     \<and> tcp_ssl_read slow_env (tls_cb 1 slow_env usr) 1 (packet [3]) s1 = Inr (0, s2)
     \<and> fed 1 (log tls0) = [] \<and> fed 1 (log s2) = [3, 1, 2]"
  by (simp add: tls_eval slow_env_def)

end
