(* ===== verification/ClientProps.thy ===== *)
theory ClientProps
  imports ClientTls
begin

text \<open>
  Functional properties of the client's operations and handlers: what a write hands to
  lwIP, how acknowledgements are counted, how received packets are delivered, when the
  timeouts fire, and what a close does.
\<close>

lemmas log_defs = emit_def emits_def millis_def

section \<open>Sending\<close>

text \<open>
  A plain \<open>write\<close> that returns \<open>n > 0\<close> handed exactly the first \<open>n\<close> bytes to
  \<open>tcp_write\<close> on the client's own pcb, flushed that pcb (never a NULL one), counted the
  bytes as unacknowledged and marked the connection busy; \<open>n\<close> is the smaller of the
  length and the send space.
\<close>

theorem plain_write_sends_prefix:
  assumes "\<not> use_tls s" and "client_write en cb (Some bs) flags s = Inr (n, s')" and "0 < n"
  shows "\<exists>p. c_pcb s = Some p \<and> n = min (space en s) (length bs)
     \<and> log s' = A_millis # A_tcp_output (Some p) # A_tcp_write p (take n bs) flags # log s
     \<and> tx_unacked_len s' = tx_unacked_len s + of_nat n
     \<and> pcb_busy s' \<and> pcb_sent_at s' = e_millis en (tl (log s'))"
  using assms
  by (auto simp: client_write_def add_def send_def touch_def Let_def log_defs min_def rbind_eq_Inr
      split: option.splits if_splits)

definition plain0 :: conn where
  "plain0 = mem0\<lparr>c_pcb := Some 1\<rparr>"

lemma plain_write_example:
  "client_write quiet_env cb (Some [1, 2]) 0 plain0
     = Inr (2, plain0\<lparr>log := [A_millis, A_tcp_output (Some 1), A_tcp_write 1 [1, 2] 0],
                tx_unacked_len := 2, pcb_busy := True, pcb_sent_at := 1000\<rparr>)"
  by (simp add: client_write_def add_def send_def touch_def Let_def log_defs plain0_def mem0_def
      quiet_env_def space_def connected_def)

theorem plain_write_sends_prefix_witness:
  "2 = min (space quiet_env plain0) (length [1 :: byte, 2])"
  using plain_write_sends_prefix [OF _ plain_write_example] by (auto simp: plain0_def mem0_def)

text \<open>
  \<open>write\<close> can return 0 although lwIP has queued the data: when \<open>tcp_write\<close> succeeds and
  \<open>tcp_output\<close> fails.  The bytes are counted as unacknowledged and will be sent, but the
  caller is told that none were taken.
\<close>

lemma write_zero_although_queued:
  assumes "\<not> use_tls s" and "life s = Alive" and "c_pcb s = Some p"
    and "bs \<noteq> []" and "0 < space en s"
    and "e_write en (log s) = ERR_OK" and "\<forall>h. e_output en h \<noteq> ERR_OK"
  shows "\<exists>s'. client_write en cb (Some bs) flags s = Inr (0, s')
     \<and> A_tcp_write p (take (min (space en s) (length bs)) bs) flags \<in> set (log s')
     \<and> tx_unacked_len s' = tx_unacked_len s + of_nat (min (space en s) (length bs))"
  using assms
  by (simp add: client_write_def add_def send_def touch_def Let_def log_defs min_def)

definition no_route_env :: env where
  "no_route_env = quiet_env\<lparr>e_output := (\<lambda>h. ERR_RTE)\<rparr>"

lemma write_zero_although_queued_witness:
  "\<exists>s'. client_write no_route_env (\<lambda>ev s. Inr s) (Some [1, 2]) 0 plain0 = Inr (0, s')
     \<and> A_tcp_write 1 [1, 2] 0 \<in> set (log s')"
proof -
  have sp: "space no_route_env plain0 = 512"
    by (simp add: no_route_env_def quiet_env_def plain0_def mem0_def space_def connected_def)
  have "\<not> use_tls plain0" "life plain0 = Alive" "c_pcb plain0 = Some 1" "[1 :: byte, 2] \<noteq> []"
    "0 < space no_route_env plain0" "e_write no_route_env (log plain0) = ERR_OK"
    "\<forall>h. e_output no_route_env h \<noteq> ERR_OK"
    by (simp_all add: sp) (simp_all add: plain0_def mem0_def no_route_env_def quiet_env_def)
  from write_zero_although_queued [OF this, of "\<lambda>ev s. Inr s" 0] show ?thesis by (auto simp: sp)
qed

section \<open>Acknowledgements of sent data\<close>

text \<open>Successive \<open>_sent\<close> callbacks.\<close>

fun sent_run :: "env \<Rightarrow> user \<Rightarrow> u16 list \<Rightarrow> conn \<Rightarrow> conn res" where
  "sent_run en cb [] s = Inr s"
| "sent_run en cb (l # ls) s = rbind (client_sent en cb l s) (sent_run en cb ls)"

definition cbs :: "hist \<Rightarrow> cb_ev list" where
  "cbs h = rev (List.map_filter (\<lambda>a. case a of A_cb ev \<Rightarrow> Some ev | _ \<Rightarrow> None) h)"

lemma cbs_simps [simp]: "cbs [] = []"
  "cbs (a # h) = (case a of A_cb ev \<Rightarrow> cbs h @ [ev] | _ \<Rightarrow> cbs h)"
  by (cases a; simp add: cbs_def map_filter_simps)+

lemma unat_ucast16: "unat (ucast (l :: u16) :: u32) = unat l"
  by transfer (simp add: take_bit_take_bit min_def take_bit_nat_eq_self)

lemma client_sent_partial:
  assumes "\<not> (use_tls s \<and> \<not> handshake_done s)" and "unat l < unat (tx_unacked_len s)"
  obtains s' where "client_sent en cb l s = Inr s'"
    and "unat (tx_unacked_len s') = unat (tx_unacked_len s) - unat l"
    and "tx_acked_len s' = tx_acked_len s + ucast l"
    and "pcb_busy s' = pcb_busy s" "pcb_sent_at s' = pcb_sent_at s" "cbs (log s') = cbs (log s)"
    and "use_tls s' = use_tls s" "handshake_done s' = handshake_done s"
    and "sent_cb s' = sent_cb s" "life s' = life s"
proof -
  let ?n = "tx_unacked_len s"
  have gt: "?n > ucast l" using assms(2) by (simp add: word_less_nat_alt unat_ucast16)
  then have un: "unat (?n - ucast l) = unat ?n - unat l"
    by (simp add: unat_sub word_le_nat_alt word_less_nat_alt unat_ucast16)
  with assms(2) have "?n - ucast l \<noteq> 0" by (metis unat_0 zero_less_diff less_irrefl)
  with gt assms(1) un show thesis
    by (intro that [of "snd (millis en s)\<lparr>rx_last_packet := fst (millis en s),
         tx_unacked_len := ?n - ucast l, tx_acked_len := tx_acked_len s + ucast l\<rparr>"])
      (auto simp: client_sent_def Let_def log_defs)
qed

lemma sent_run_partial:
  assumes "\<not> (use_tls s \<and> \<not> handshake_done s)"
    and "sum_list (map unat ls) < unat (tx_unacked_len s)"
  shows "\<exists>s'. sent_run en cb ls s = Inr s'
    \<and> unat (tx_unacked_len s') = unat (tx_unacked_len s) - sum_list (map unat ls)
    \<and> tx_acked_len s' = tx_acked_len s + of_nat (sum_list (map unat ls))
    \<and> pcb_busy s' = pcb_busy s \<and> pcb_sent_at s' = pcb_sent_at s \<and> cbs (log s') = cbs (log s)
    \<and> use_tls s' = use_tls s \<and> handshake_done s' = handshake_done s
    \<and> sent_cb s' = sent_cb s \<and> life s' = life s"
  using assms
proof (induction ls arbitrary: s)
  case (Cons l ls)
  from Cons.prems have "unat l < unat (tx_unacked_len s)" by simp
  from client_sent_partial [OF Cons.prems(1) this] obtain t where
    t: "client_sent en cb l s = Inr t"
    "unat (tx_unacked_len t) = unat (tx_unacked_len s) - unat l"
    "tx_acked_len t = tx_acked_len s + ucast l"
    "pcb_busy t = pcb_busy s" "pcb_sent_at t = pcb_sent_at s" "cbs (log t) = cbs (log s)"
    "use_tls t = use_tls s" "handshake_done t = handshake_done s"
    "sent_cb t = sent_cb s" "life t = life s" by metis
  from Cons.IH [of t] Cons.prems t show ?case
    by (auto simp: add.assoc)
qed simp

text \<open>
  C28: as long as not everything handed to lwIP has been acknowledged, \<open>_sent\<close> runs no
  handler, leaves the connection busy and counts exactly the acknowledged bytes.  The
  callback that acknowledges the last byte clears the busy flag and calls \<open>onAck\<close> once,
  with the exact number of bytes since the last time, however they were split into
  acknowledgements (\<open>s\<close>: a state in which \<open>tx_unacked_len\<close> bytes are outstanding).
\<close>

theorem ack_reported_exactly_once:
  assumes ready: "\<not> (use_tls s \<and> \<not> handshake_done s)" and "tx_acked_len s = 0" and "sent_cb s"
    and "unat l > 0" and "sum_list (map unat ls) + unat l = unat (tx_unacked_len s)"
  shows "\<exists>t now. sent_run en cb (ls @ [l]) s =
        rbind (cb (CB_ack (tx_unacked_len s) (now - pcb_sent_at s)) t)
          (\<lambda>s. if \<not> hasClient (trk s) then Inr s
               else touch s (Inr (s\<lparr>tx_acked_len := 0\<rparr>)))
     \<and> cbs (log t) = cbs (log s) @ [CB_ack (tx_unacked_len s) (now - pcb_sent_at s)]
     \<and> \<not> pcb_busy t \<and> tx_unacked_len t = 0 \<and> now = e_millis en (tl (tl (log t)))"
proof -
  have lt: "sum_list (map unat ls) < unat (tx_unacked_len s)" using assms(4,5) by simp
  from sent_run_partial [OF ready lt, of en cb] obtain u where
    u: "sent_run en cb ls s = Inr u"
    "unat (tx_unacked_len u) = unat (tx_unacked_len s) - sum_list (map unat ls)"
    "tx_acked_len u = tx_acked_len s + of_nat (sum_list (map unat ls))"
    "pcb_sent_at u = pcb_sent_at s" "cbs (log u) = cbs (log s)"
    "use_tls u = use_tls s" "handshake_done u = handshake_done s" "sent_cb u" using assms(3) by auto
  have app: "sent_run en cb (xs @ ys) v = rbind (sent_run en cb xs v) (sent_run en cb ys)" for xs ys v
    by (induction xs arbitrary: v) (auto simp: rbind_assoc intro!: rbind_cong)
  have eq: "unat (tx_unacked_len u) = unat l" using u(2) assms(5) by simp
  then have un: "tx_unacked_len u = ucast l" by (simp add: word_unat_eq_iff unat_ucast16)
  have "tx_acked_len u + ucast l = of_nat (sum_list (map unat ls)) + of_nat (unat l)"
    using u(3) assms(2) by simp
  also have "\<dots> = tx_unacked_len s"
    using assms(5) by (metis of_nat_add of_nat_unat ucast_id)
  finally have acked: "tx_acked_len u + ucast l = tx_unacked_len s" .
  have not_ready: "(use_tls u \<and> \<not> handshake_done u) = False" using ready u(6,7) by simp
  have sent: "client_sent en cb l u =
      (let s1 = snd (millis en (snd (millis en u)\<lparr>rx_last_packet := fst (millis en u),
            tx_unacked_len := 0, tx_acked_len := tx_unacked_len s, pcb_busy := False,
            trk := setCloseError ERR_OK (trk u)\<rparr>));
           now = e_millis en (A_millis # log u)
       in rbind (invoke cb (CB_ack (tx_unacked_len s) (now - pcb_sent_at s)) s1)
          (\<lambda>s. if \<not> hasClient (trk s) then Inr s
               else touch s (Inr (s\<lparr>tx_acked_len := 0\<rparr>))))"
    using u(4,8) by (simp add: client_sent_def not_ready Let_def log_defs un acked
        set_close_error_def)
  have last: "rbind r (sent_run en cb []) = r" for r by (cases r) auto
  show ?thesis
    using u(1,5) sent
    by (intro exI [of _ "emit (A_cb (CB_ack (tx_unacked_len s)
          (e_millis en (A_millis # log u) - pcb_sent_at s)))
          (snd (millis en (snd (millis en u)\<lparr>rx_last_packet := fst (millis en u),
            tx_unacked_len := 0, tx_acked_len := tx_unacked_len s, pcb_busy := False,
            trk := setCloseError ERR_OK (trk u)\<rparr>)))"] exI [of _ "e_millis en (A_millis # log u)"])
      (simp add: app last invoke_def Let_def log_defs del: sent_run.simps(1))
qed

definition sending0 :: conn where
  "sending0 = plain0\<lparr>tx_unacked_len := 300, pcb_busy := True, sent_cb := True\<rparr>"

theorem ack_reported_exactly_once_witness:
  "\<exists>(t :: conn) now. cbs (log t) = [CB_ack 300 now] \<and> \<not> pcb_busy t \<and> tx_unacked_len t = 0"
proof -
  have "\<not> (use_tls sending0 \<and> \<not> handshake_done sending0)" "tx_acked_len sending0 = 0"
    "sent_cb sending0" "unat (200 :: u16) > 0"
    "sum_list (map unat [100 :: u16]) + unat (200 :: u16) = unat (tx_unacked_len sending0)"
    "tx_unacked_len sending0 = 300" "cbs (log sending0) = []"
    by (simp_all add: sending0_def plain0_def mem0_def)
  with ack_reported_exactly_once [OF this(1-5), of quiet_env "\<lambda>ev s. Inr s"]
  show ?thesis by fastforce
qed

section \<open>Acknowledging received data\<close>

fun ack_run :: "u32 list \<Rightarrow> conn \<Rightarrow> nat \<times> conn" where
  "ack_run [] s = (0, s)"
| "ack_run (n # ns) s = (let (m, s) = ack n s; (k, s) = ack_run ns s in (unat m + k, s))"

lemma ack_conserves:
  "ack n s = (m, s') \<Longrightarrow> unat m + unat (rx_ack_len s') = unat (rx_ack_len s) \<and> unat m \<le> unat n"
proof -
  assume a: "ack n s = (m, s')"
  then have m: "m = (if n > rx_ack_len s then rx_ack_len s else n)"
    and r: "rx_ack_len s' = rx_ack_len s - m" by (auto simp: ack_def Let_def log_defs split: if_splits)
  then have "m \<le> rx_ack_len s" "m \<le> n" by (auto simp: not_less)
  with r show ?thesis by (simp add: unat_sub word_le_nat_alt)
qed

text \<open>
  \<open>ack\<close> never acknowledges more than what was received and not acknowledged yet: a
  sequence of \<open>ack\<close> calls with any arguments moves bytes from \<open>_rx_ack_len\<close> to the
  window, and the sum is conserved.
\<close>

lemma acks_conserve_window:
  "case ack_run ns s of (acked, s') \<Rightarrow>
     acked + unat (rx_ack_len s') = unat (rx_ack_len s)
     \<and> acked \<le> sum_list (map unat ns)"
proof (induction ns arbitrary: s)
  case (Cons n ns)
  obtain m t where a: "ack n s = (m, t)" by fastforce
  obtain k u where r: "ack_run ns t = (k, u)" by fastforce
  from ack_conserves [OF a] Cons.IH [of t] r a show ?case by (simp add: Let_def)
qed simp

text \<open>
  \<open>close()\<close> acknowledges \<open>_rx_ack_len\<close> bytes without resetting the counter: a second
  \<open>close()\<close> (or an \<open>ack\<close>) before the connection is polled acknowledges the same bytes
  again.
\<close>

lemma close_acks_again:
  assumes "c_pcb s = Some p" "life s = Alive"
  shows "\<exists>s'. rbind (close en cb False s) (close en cb False) = Inr s'
     \<and> log s' = A_tcp_recved (Some p) (rx_ack_len s) # A_tcp_recved (Some p) (rx_ack_len s) # log s
     \<and> rx_ack_len s' = rx_ack_len s"
  using assms by (simp add: close_def Let_def log_defs)

lemma close_acks_again_witness:
  "\<exists>s' :: conn. log s' = [A_tcp_recved (Some 1) 5, A_tcp_recved (Some 1) 5] \<and> rx_ack_len s' = 5"
proof -
  let ?s = "plain0\<lparr>rx_ack_len := 5\<rparr>"
  have "c_pcb ?s = Some 1" "life ?s = Alive" "rx_ack_len ?s = 5" "log ?s = []"
    by (simp_all add: plain0_def mem0_def)
  with close_acks_again [OF this(1,2), of quiet_env "\<lambda>ev s. Inr s"] show ?thesis by auto
qed

end
