(* ===== verification/ClientContract.thy ===== *)
theory ClientContract
  imports ClientProps
begin

text \<open>
  Properties of the client that hold whatever its user does in the handlers.  The locale
  \<open>client_contract\<close> is the common part: a relation \<open>K\<close> between the client's pcb, its error
  tracker, the history and \<open>_use_tls\<close> that the primitive steps of the operations respect
  is respected by every operation.  A relation that only holds without TLS, or without
  \<open>abort()\<close> in a handler, says so with \<open>tls_ok\<close> and \<open>abort_ok\<close>.  The contract is used for what
  the callbacks return to lwIP, and for the use of released pcbs.
\<close>

section \<open>Kinds of calls\<close>

fun idle_act :: "act \<Rightarrow> bool" where
  "idle_act A_millis = True"
| "idle_act A_tcp_new = True"
| "idle_act (A_gethostbyname _) = True"
| "idle_act (A_pbuf_free _) = True"
| "idle_act (A_tcp_output None) = True"
| "idle_act (A_tcp_recved None _) = True"
| "idle_act (A_new_client _) = True"
| "idle_act A_delete_client = True"
| "idle_act (A_delete_ssl _) = True"
| "idle_act (A_cb _) = True"
| "idle_act _ = False"

text \<open>Calls on a pcb that do not release it.\<close>

fun own_act :: "pcb \<Rightarrow> act \<Rightarrow> bool" where
  "own_act p (A_setprio q) = (q = p)"
| "own_act p (A_arg q _) = (q = p)"
| "own_act p (A_recv_fn q _) = (q = p)"
| "own_act p (A_sent_fn q _) = (q = p)"
| "own_act p (A_err_fn q _) = (q = p)"
| "own_act p (A_poll_fn q _) = (q = p)"
| "own_act p (A_tcp_write q _ _) = (q = p)"
| "own_act p (A_tcp_output po) = (po = Some p)"
| "own_act p (A_tcp_recved po _) = (po = Some p)"
| "own_act p (A_nagle q _) = (q = p)"
| "own_act p (A_tcp_close q e) = (q = p \<and> e \<noteq> ERR_OK)"
| "own_act _ _ = False"

text \<open>Operations that may switch to TLS.\<close>

fun tls_op :: "api_op \<Rightarrow> bool" where
  "tls_op (Op_connect _ _ tls) = tls"
| "tls_op (Op_connect_host _ _ tls) = tls"
| "tls_op _ = False"

section \<open>The contract\<close>

locale client_relation =
  fixes en :: env
    and tls_ok :: bool
    and abort_ok :: bool
    and K :: "pcb option \<Rightarrow> tracker \<Rightarrow> hist \<Rightarrow> bool \<Rightarrow> bool"
  assumes K_idle: "idle_act a \<Longrightarrow> K c t h u \<Longrightarrow> K c t (a # h) u"
    and K_own: "own_act p a \<Longrightarrow> K (Some p) t h u \<Longrightarrow> K (Some p) t (a # h) u"
    and K_engine: "tls_ok \<Longrightarrow> engine_act a \<Longrightarrow> K c t h u \<Longrightarrow> K c t (a # h) u"
    and K_tls: "K c t h True \<Longrightarrow> tls_ok"
    and K_mode: "K c t h u \<Longrightarrow> tls \<longrightarrow> tls_ok \<Longrightarrow> K c t h tls"
    and K_drop: "K c t h u \<Longrightarrow> K None t h u"
    and K_fresh: "K c t h u \<Longrightarrow> K c t (A_tcp_connect p i n # A_err_fn p True # A_arg p True
        # A_setprio p # A_tcp_new # h) u"
    and K_closed: "K (Some p) t h u \<Longrightarrow> K None (setCloseError ERR_OK t) (A_tcp_close p ERR_OK # h) u"
    and K_aborted: "K (Some p) t h u \<Longrightarrow> K None (setCloseError ERR_ABRT t) (A_tcp_abort p # h) u"
    and K_abort_cb: "abort_ok \<Longrightarrow> e_abort_err en (A_tcp_abort p # h) = Some e \<Longrightarrow> K (Some p) t h u \<Longrightarrow>
        K None (setErrored EE_ERROR_CB (setCloseError e t)) (A_tcp_abort p # h) u"
    and K_abort_done: "abort_ok \<Longrightarrow> e_abort_err en h' = Some e \<Longrightarrow> K c t h u \<Longrightarrow>
        K None (setCloseError ERR_ABRT t) h u"
    and K_deleted: "K c t h u \<Longrightarrow> K c (clearClient t) h u"

locale client_contract = client_relation en tls_ok abort_ok K + client_user cb
  for en tls_ok abort_ok K cb +
  assumes cb_K: "registry_wf (ssl s) \<Longrightarrow> K (c_pcb s) (trk s) (log s) (use_tls s) \<Longrightarrow>
        ok (\<lambda>s. K (c_pcb s) (trk s) (log s) (use_tls s)) (cb ev s)"
begin

abbreviation holds :: "conn \<Rightarrow> bool" where
  "holds s \<equiv> registry_wf (ssl s) \<and> K (c_pcb s) (trk s) (log s) (use_tls s)"

lemma ok_touch: "ok P r \<Longrightarrow> ok P (touch s r)"
  by (simp add: touch_def)

lemma K_emit: "idle_act a \<Longrightarrow> holds s \<Longrightarrow> holds (emit a s)"
  by (cases s) (simp add: emit_def K_idle)

lemma K_drop_idle: "idle_act a \<Longrightarrow> K c t h u \<Longrightarrow> K None t (a # h) u"
  by (rule K_drop [OF K_idle])

lemma cb_holds: "holds s \<Longrightarrow> ok holds (cb ev s)"
  using cb_kept [of s 0 ev] cb_K [of s ev] by (cases "cb ev s") (auto simp: kept_iff)

lemma invoke_holds: "holds s \<Longrightarrow> ok holds (invoke cb ev s)"
  unfolding invoke_def by (rule cb_holds) (simp add: emit_def K_idle)

lemma invoke_if_holds: "holds s \<Longrightarrow> ok holds (invoke_if b cb ev s)"
  by (simp add: invoke_if_def invoke_holds)

lemma ssl_cb_holds: "holds s \<Longrightarrow> ok holds (client_ssl_cb cb ev s)"
  unfolding client_ssl_cb_def
  by (rule ok_touch) (auto split: ssl_ev.split intro!: invoke_if_holds)

text \<open>The engine of the TLS glue respects the relation.\<close>

lemma engine_contract: "tls_ok \<Longrightarrow> engine_user (client_ssl_cb cb) holds"
proof
  fix p s ev
  assume "holds s"
  with ssl_cb_holds [of s ev] ssl_cb_kept [of p s s ev]
  show "ok (\<lambda>s'. holds s' \<and> keeps p s s') (client_ssl_cb cb ev s)"
    by (cases "client_ssl_cb cb ev s") (auto simp: kept_refl kept_iff)
qed (auto simp: emit_def K_engine intro: ssl_reg.wf_modify)

section \<open>The operations\<close>

lemma do_error_holds:
  assumes "holds s"
  shows "ok holds (do_error cb e s)"
proof -
  have "holds (case c_pcb s of None \<Rightarrow> s
     | Some q \<Rightarrow> (if use_tls s then snd (tcp_ssl_free q s) else s)\<lparr>c_pcb := None\<rparr>)"
    using assms by (auto simp: tcp_ssl_free_def emit_def K_drop_idle split: option.split
        intro: K_drop ssl_reg.wf_remove)
  then show ?thesis
    unfolding do_error_def Let_def
    by (intro ok_rbind [OF invoke_if_holds] ok_touch invoke_if_holds)
qed

text \<open>
  \<open>abort\<close>, where the error callback of the pcb is no longer registered, as when \<open>_close\<close>
  calls it; and anywhere, if \<open>abort_ok\<close>.
\<close>

lemma silent_abort_holds:
  "holds s \<Longrightarrow> c_pcb s = Some p \<Longrightarrow> \<not> err_registered p (log s) \<Longrightarrow> ok holds (abort en cb s)"
  by (simp add: abort_def set_close_error_def emit_def K_aborted touch_def Let_def)

lemma abort_holds: "abort_ok \<Longrightarrow> holds s \<Longrightarrow> ok holds (abort en cb s)"
proof (cases "c_pcb s")
  case None
  then show "holds s \<Longrightarrow> ok holds (abort en cb s)" by (simp add: abort_def)
next
  case (Some p)
  assume abort_ok and h: "holds s"
  let ?s = "emit (A_tcp_abort p) s"
  let ?done = "\<lambda>s. touch s (Inr (set_close_error ERR_ABRT (s\<lparr>c_pcb := None\<rparr>)))"
  show "ok holds (abort en cb s)"
  proof (cases "if err_registered p (log ?s) then e_abort_err en (log ?s) else None")
    case None
    with h Some show ?thesis
      by (auto simp: abort_def Let_def set_close_error_def emit_def K_aborted touch_def)
  next
    case (Some e)
    then have abrt: "e_abort_err en (A_tcp_abort p # log s) = Some e"
      by (simp split: if_splits)
    let ?t = "set_errored EE_ERROR_CB (set_close_error e ?s)"
    from h \<open>c_pcb s = Some p\<close> abrt \<open>abort_ok\<close>
    have drop: "holds (?t\<lparr>c_pcb := None\<rparr>)"
      by (simp add: set_errored_def set_close_error_def emit_def K_abort_cb)
    then have "holds (case c_pcb ?t of None \<Rightarrow> ?t
       | Some q \<Rightarrow> (if use_tls ?t then snd (tcp_ssl_free q ?t) else ?t)\<lparr>c_pcb := None\<rparr>)"
      by (auto simp: tcp_ssl_free_def emit_def K_idle split: option.split
          intro: K_drop ssl_reg.wf_remove)
    then have "ok holds (s_error cb e ?s)"
      unfolding s_error_def do_error_def Let_def
      by (intro ok_touch ok_rbind [OF invoke_if_holds] ok_touch invoke_if_holds)
    then have "ok holds (rbind (s_error cb e ?s) ?done)"
      by (rule ok_rbind) (auto intro!: ok_touch simp: set_close_error_def K_abort_done [OF \<open>abort_ok\<close> abrt])
    with \<open>c_pcb s = Some p\<close> Some show ?thesis by (simp add: abort_def)
  qed
qed

lemma cleared_holds:
  assumes "holds s" "c_pcb s = Some p"
  shows "holds (clearTcpCallbacks p (drop_tls p s))" "c_pcb (clearTcpCallbacks p (drop_tls p s)) = Some p"
  using assms by (auto simp: drop_tls_def tcp_ssl_free_def clearTcpCallbacks_def emit_def emits_def
      K_idle K_own split: option.split intro: ssl_reg.wf_remove)

lemma do_close_holds:
  assumes "holds s"
  shows "ok holds (do_close en cb s)"
proof (cases "c_pcb s")
  case None
  with assms show ?thesis by (simp add: do_close_def)
next
  case (Some p)
  let ?s = "clearTcpCallbacks p (drop_tls p s)"
  let ?e = "e_close en (log ?s)"
  note h = cleared_holds [OF assms Some]
  have closed: "holds ((set_close_error ERR_OK (emit (A_tcp_close p ERR_OK) ?s))\<lparr>c_pcb := None\<rparr>)"
    using h by (simp add: set_close_error_def emit_def K_closed)
  have "ok holds (abort en cb (emit (A_tcp_close p ?e) ?s))" if "?e \<noteq> ERR_OK"
    by (rule silent_abort_holds [where p = p])
      (use h that in \<open>simp_all add: clearTcpCallbacks_def log_defs K_own\<close>)
  then have "ok holds (rbind (abort en cb (emit (A_tcp_close p ?e) ?s))
      (\<lambda>s. invoke_if (discard_cb s) cb CB_disconnect (s\<lparr>c_pcb := None\<rparr>)))" if "?e \<noteq> ERR_OK"
    by (rule ok_rbind [where Q = holds]) (use that in \<open>auto intro!: invoke_if_holds intro: K_drop\<close>)
  moreover have "ok holds (invoke_if b cb CB_disconnect
      ((set_close_error ERR_OK (emit (A_tcp_close p ERR_OK) ?s))\<lparr>c_pcb := None\<rparr>))" for b
    using closed by (rule invoke_if_holds)
  ultimately show ?thesis
    using Some by (auto simp: do_close_def Let_def)
qed

lemma close_holds: "holds s \<Longrightarrow> ok holds (close en cb now s)"
  by (auto simp: close_def Let_def emit_def K_own split: option.split intro!: do_close_holds)

lemma delete_holds: "holds s \<Longrightarrow> ok holds (delete_client en cb s)"
  by (auto simp: delete_client_def Let_def emit_def K_idle K_deleted
      intro!: ok_rbind [OF do_close_holds])

lemma add_holds:
  assumes h: "holds s"
  shows "ok (\<lambda>(n, s'). holds s') (add en cb d f s)"
proof -
  have tls: "ok (\<lambda>(n, s'). holds s') (rbind (tcp_ssl_write en (client_ssl_cb cb) q bs s)
      (\<lambda>(sent, s). touch s
         (if sent \<ge> 0
          then Inr (nat sent, s\<lparr>tx_unacked_len := tx_unacked_len s + of_int sent\<rparr>)
          else rbind (do_close en cb s) (\<lambda>s. Inr (0, s)))))" if "use_tls s" for q bs
  proof -
    from h that have "tls_ok" by (auto intro: K_tls)
    then have eu: "engine_user (client_ssl_cb cb) holds" by (rule engine_contract)
    show ?thesis
      by (rule ok_rbind [OF engine_user.tcp_ssl_write_keeps [OF eu h, of q]])
        (auto intro!: ok_touch ok_rbind [OF do_close_holds])
  qed
  show ?thesis
    using h tls by (auto simp: add_def Let_def emit_def K_own split: option.split)
qed

lemma send_holds: "holds s \<Longrightarrow> holds (snd (send en s))"
  by (cases "c_pcb s") (auto simp: send_def millis_def Let_def emit_def K_idle K_own)

lemma write_holds: "holds s \<Longrightarrow> ok (\<lambda>(n, s'). holds s') (client_write en cb d f s)"
  unfolding client_write_def
  by (rule ok_rbind [OF add_holds]) (auto intro!: ok_touch simp: split_beta Let_def send_holds)

lemma connect_ip_holds:
  assumes "holds s" "tls \<longrightarrow> tls_ok"
  shows "holds (snd (connect_ip en a n tls s))"
proof -
  let ?s = "s\<lparr>use_tls := tls\<rparr>"
  have h: "holds ?s" using assms K_mode by auto
  show ?thesis
  proof (cases "connected en ?s")
    case True
    with h show ?thesis by (simp add: connect_ip_def)
  next
    case False
    with h show ?thesis
      by (cases "e_new en (log s)") (simp_all add: connect_ip_def Let_def emit_def emits_def
          K_idle K_fresh)
  qed
qed

lemma connect_host_holds:
  assumes "holds s" "tls \<longrightarrow> tls_ok"
  shows "holds (snd (connect_host en name n tls s))"
proof -
  let ?s = "emit (A_gethostbyname name) (s\<lparr>handshake_done := False, c_host := name,
    connect_port := n, use_tls := tls\<rparr>)"
  have h: "holds ?s" using assms K_mode by (auto simp: emit_def K_idle)
  from connect_ip_holds [OF this assms(2)] h show ?thesis
    by (simp add: connect_host_def Let_def split_beta emit_def)
qed

lemma dns_found_holds:
  assumes "holds s"
  shows "ok holds (dns_found en cb addr s)"
proof (cases addr)
  case None
  with assms show ?thesis
    by (auto simp: dns_found_def intro!: ok_touch ok_rbind [OF invoke_if_holds] invoke_if_holds)
next
  case (Some a)
  have "use_tls s \<longrightarrow> tls_ok" using assms K_tls by auto
  with connect_ip_holds [OF assms this] Some show ?thesis by (auto simp: dns_found_def intro!: ok_touch)
qed

lemma ackPacket_holds: "holds s \<Longrightarrow> holds (ackPacket b s)"
  by (cases "c_pcb s") (auto simp: ackPacket_def emits_def K_idle K_own split: option.split)

lemma ack_holds: "holds s \<Longrightarrow> holds (snd (ack n s))"
  by (cases "c_pcb s") (auto simp: ack_def Let_def emit_def K_idle K_own)

lemma setNoDelay_holds: "holds s \<Longrightarrow> holds (setNoDelay b s)"
  by (cases "c_pcb s") (simp_all add: setNoDelay_def emit_def K_own)

lemma user_call_holds:
  assumes h: "holds s" and tls: "tls_op x \<longrightarrow> tls_ok" "x = Op_abort \<longrightarrow> abort_ok"
  shows "ok holds (user_call en cb x s)"
proof -
  have pair: "ok holds (rbind r (\<lambda>(_, s). Inr s))" if "ok (\<lambda>(n :: nat, s'). holds s') r" for r
    by (rule ok_rbind [OF that]) auto
  have "ok holds (api_call en cb x s)"
  proof (cases x)
    case (Op_on e b)
    with h show ?thesis by (cases e) auto
  qed (use h tls in \<open>simp_all add: pair add_holds write_holds send_holds ack_holds ackPacket_holds
        connect_ip_holds connect_host_holds close_holds abort_holds delete_holds
        setNoDelay_holds ackLater_def setInsecure_def setKnownKey_def
        allowSelfSignedCerts_def setFingerprint_def clearAuthenticationSettings_def Let_def
        write_cstr_def setRxTimeout_def setAckTimeout_def
      split: option.split\<close>)
  then show ?thesis by (simp add: user_call_def)
qed

lemma run_script_holds:
  "holds s \<Longrightarrow> \<forall>x\<in>set xs. (tls_op x \<longrightarrow> tls_ok) \<and> (x = Op_abort \<longrightarrow> abort_ok) \<Longrightarrow> ok holds (run_script en cb xs s)"
  by (induction xs arbitrary: s) (auto intro!: ok_rbind [OF user_call_holds])

section \<open>The lwIP callbacks\<close>

lemma client_poll_holds:
  assumes "holds (set_close_error ERR_OK s)"
  shows "ok holds (client_poll en cb s)"
proof -
  have t: "holds (snd (millis en (set_close_error ERR_OK s)))"
    using assms K_emit [of A_millis] by (simp add: millis_def)
  have 1: "ok holds (do_close en cb ((set_close_error ERR_OK s)\<lparr>close_pcb := False\<rparr>))"
    by (rule do_close_holds) (use assms in simp)
  have 2: "ok holds (invoke_if b cb ev (snd (millis en (set_close_error ERR_OK s))\<lparr>pcb_busy := False\<rparr>))"
    for b ev by (rule invoke_if_holds) (use t in simp)
  note t [THEN do_close_holds] t [THEN invoke_if_holds]
  with 1 2 show ?thesis by (auto simp: client_poll_def Let_def split_beta)
qed

lemma client_sent_holds:
  assumes "holds s" "holds (set_close_error ERR_OK s)"
  shows "ok holds (client_sent en cb len s)"
proof -
  let ?t = "emit A_millis (set_close_error ERR_OK (emit A_millis s))"
  have t: "holds ?t" "holds (emit A_millis s)" "holds (set_close_error ERR_OK (emit A_millis s))"
    using assms by (simp_all add: emit_def set_close_error_def K_idle)
  have inv: "ok holds (rbind (invoke cb ev u)
        (\<lambda>s. if \<not> hasClient (trk s) then Inr s else touch s (Inr (s\<lparr>tx_acked_len := 0\<rparr>))))"
    if "holds u" for ev u
    by (rule ok_rbind [OF invoke_holds [OF that]]) (auto intro!: ok_touch)
  show ?thesis
    unfolding client_sent_def Let_def millis_def split_beta
    using assms(1) t by (auto simp: set_close_error_def emit_def intro!: inv)
qed

text \<open>
  \<open>_recv\<close> acknowledges the window of the pcb it was called with, after the handler: \<open>Q\<close>
  says what the handlers for received data keep of the client's pcb.
\<close>

lemma recv_loop_holds:
  assumes data: "\<And>s (b :: pbuf). holds s \<Longrightarrow> Q (c_pcb s) \<Longrightarrow>
      ok (\<lambda>s. holds s \<and> Q (c_pcb s)) (invoke cb (CB_data (payload b)) s)"
    and packet: "\<And>s b. holds s \<Longrightarrow> Q (c_pcb s) \<Longrightarrow>
      ok (\<lambda>s. holds s \<and> Q (c_pcb s)) (invoke cb (CB_packet b) s)"
    and window: "\<And>c t h u n. Q c \<Longrightarrow> K c t h u \<Longrightarrow> K c t (A_tcp_recved (Some p) n # h) u"
  shows "holds s \<Longrightarrow> Q (c_pcb s) \<Longrightarrow>
    ok (\<lambda>s. holds s \<and> Q (c_pcb s)) (recv_loop en cb p pb s)"
proof (induction pb arbitrary: s)
  case (Cons b pb)
  have free: "holds (emits (map (\<lambda>b. A_pbuf_free [pb_id b]) bs) s)
      \<and> c_pcb (emits (map (\<lambda>b. A_pbuf_free [pb_id b]) bs) s) = c_pcb s"
    if "holds s" for bs and s :: conn
    using that by (induction bs arbitrary: s rule: rev_induct) (auto simp: emits_def K_idle)
  let ?s = "s\<lparr>ack_pcb := True\<rparr>"
  have d: "ok (\<lambda>s. holds s \<and> Q (c_pcb s)) (deliver en cb p b ?s)"
    unfolding deliver_def
    by (rule ok_rbind [where Q = "\<lambda>s. holds s \<and> Q (c_pcb s)"])
      (use Cons.prems data [of "?s\<lparr>recv_pbuf_flags := pb_flags b\<rparr>" b] window in
        \<open>auto simp: emit_def intro!: ok_touch\<close>)
  have "ok (\<lambda>s. holds s \<and> Q (c_pcb s)) (rbind (deliver en cb p b ?s)
      (\<lambda>s. recv_loop en cb p pb (emit (A_pbuf_free [pb_id b]) s)))"
    by (rule ok_rbind [OF d]) (rule Cons.IH; simp add: emit_def K_idle)
  moreover have "ok (\<lambda>s. holds s \<and> Q (c_pcb s)) (rbind (invoke cb (CB_packet b) ?s)
      (recv_loop en cb p pb))"
    by (rule ok_rbind [OF packet]) (use Cons.prems Cons.IH in simp_all)
  moreover note free [of s "b # pb"] Cons.prems
  ultimately show ?case by (auto intro!: ok_touch simp: Let_def simp del: list.map)
qed simp

text \<open>The TLS path of \<open>_recv\<close>.\<close>

lemma tcp_ssl_read_holds:
  assumes "holds s" "tls_ok"
  shows "ok (\<lambda>(r, s'). holds s') (tcp_ssl_read en (client_ssl_cb cb) p pb s)"
  using engine_user.tcp_ssl_read_Inv [OF engine_contract [OF assms(2)] assms(1)] .

lemma client_recv_holds:
  assumes "holds (set_close_error ERR_OK s)" "c_pcb s = Some p" "pb \<noteq> []"
    and data: "\<And>s (b :: pbuf). holds s \<Longrightarrow> Q (c_pcb s) \<Longrightarrow>
      ok (\<lambda>s. holds s \<and> Q (c_pcb s)) (invoke cb (CB_data (payload b)) s)"
    and packet: "\<And>s b. holds s \<Longrightarrow> Q (c_pcb s) \<Longrightarrow>
      ok (\<lambda>s. holds s \<and> Q (c_pcb s)) (invoke cb (CB_packet b) s)"
    and window: "\<And>c t h u n. Q c \<Longrightarrow> K c t h u \<Longrightarrow> K c t (A_tcp_recved (Some p) n # h) u"
    and "Q (Some p)"
  shows "ok holds (client_recv en cb (Some p) pb ERR_OK s)"
proof -
  let ?s = "set_close_error ERR_OK ((emit A_millis s)\<lparr>rx_last_packet := e_millis en (log s)\<rparr>)"
  have h: "holds ?s" using assms(1) by (simp add: set_close_error_def emit_def K_idle)
  have c: "c_pcb ?s = Some p" using assms(2) by (simp add: set_close_error_def emit_def)
  have plain: "ok holds (recv_loop en cb p pb ?s)"
    by (rule ok_mono [OF recv_loop_holds [OF data packet window h]]) (use assms(7) c in simp_all)
  have tls: "ok holds (rbind (tcp_ssl_read en (client_ssl_cb cb) p pb ?s) (\<lambda>(r, s).
      if r < 0 then touch s (do_close en cb s) else Inr s))" if "use_tls s"
  proof (rule ok_rbind [OF tcp_ssl_read_holds [OF h]])
    show "tls_ok" using h that by (auto simp: set_close_error_def emit_def intro: K_tls)
  qed (auto intro!: ok_touch do_close_holds)
  have "use_tls ?s = use_tls s" by (simp add: set_close_error_def emit_def)
  with plain tls assms(2,3) show ?thesis
    by (simp add: client_recv_def Let_def millis_def)
qed

end

text \<open>
  Every sketch satisfies the contract of a relation, if its handlers use TLS and call
  \<open>abort()\<close> only when allowed.
\<close>

context client_relation
begin

lemma run_cb_contract:
  assumes "\<And>ev h x. x \<in> set (usr ev h) \<Longrightarrow> tls_op x \<Longrightarrow> tls_ok"
    and "\<And>ev h. Op_abort \<in> set (usr ev h) \<Longrightarrow> abort_ok"
  shows "client_contract en tls_ok abort_ok K (run_cb d en usr)"
proof (induction d)
  case 0
  show ?case by unfold_locales simp_all
next
  case (Suc d)
  show ?case
  proof unfold_locales
    fix s :: conn and ev
    assume "registry_wf (ssl s)" "K (c_pcb s) (trk s) (log s) (use_tls s)"
    with client_contract.run_script_holds [OF Suc.IH, of s "usr ev (log s)"] assms
    show "ok (\<lambda>s. K (c_pcb s) (trk s) (log s) (use_tls s)) (run_cb (Suc d) en usr ev s)"
      by (fastforce elim: ok_mono)
  qed
qed

end

end
