(* ===== verification/ClientSafety.thy ===== *)
theory ClientSafety
  imports ClientContract
begin

text \<open>
  Two safety properties of the client, as instances of \<open>client_contract\<close>: if handlers do not
  abort, the callbacks return \<open>ERR_ABRT\<close> to lwIP exactly when the pcb was aborted; and a
  plain client whose data handlers do not close makes no lwIP call on a pcb it has released.
  Each is followed by the situations its hypotheses exclude.
\<close>

section \<open>What the callbacks return\<close>

primrec abort_count :: "hist \<Rightarrow> nat" where
  "abort_count [] = 0"
| "abort_count (a # h) = (case a of A_tcp_abort q \<Rightarrow> Suc (abort_count h) | _ \<Rightarrow> abort_count h)"

definition K_abrt :: "nat \<Rightarrow> pcb option \<Rightarrow> tracker \<Rightarrow> hist \<Rightarrow> bool \<Rightarrow> bool" where
  "K_abrt n c t h u \<longleftrightarrow> errored t = EE_OK
     \<and> (if abort_count h = n then close_error t \<noteq> ERR_ABRT
        else abort_count h = Suc n \<and> close_error t = ERR_ABRT \<and> c = None)"

lemma abort_count_acts:
  "idle_act a \<Longrightarrow> abort_count (a # h) = abort_count h"
  "own_act p a \<Longrightarrow> abort_count (a # h) = abort_count h"
  "engine_act a \<Longrightarrow> abort_count (a # h) = abort_count h"
  by (cases a; simp)+

text \<open>
  Handlers that do not call \<open>abort()\<close> themselves.  The library may still abort: \<open>_close\<close> calls
  \<open>tcp_abort\<close> when \<open>tcp_close\<close> fails, after it unregistered the error callback.
\<close>

definition abort_free :: "sketch \<Rightarrow> bool" where
  "abort_free usr \<longleftrightarrow> (\<forall>ev h. Op_abort \<notin> set (usr ev h))"

definition abort_free_part :: "sketch \<Rightarrow> sketch" where
  "abort_free_part usr = (\<lambda>ev h. filter (\<lambda>x. x \<noteq> Op_abort) (usr ev h))"

lemma abort_free_part_id: "abort_free usr \<Longrightarrow> abort_free_part usr = usr"
  by (auto simp: abort_free_def abort_free_part_def fun_eq_iff filter_id_conv)

interpretation abrt: client_relation en True False "K_abrt n" for en n
  by unfold_locales
    (auto simp: K_abrt_def abort_count_acts tracker_defs simp del: abort_count.simps(2),
     auto split: if_splits)

interpretation abrt: client_contract en True False "K_abrt n" "run_cb d en (abort_free_part usr)"
  for en n d usr
  by (rule abrt.run_cb_contract) (auto simp: abort_free_part_def)

text \<open>The callbacks lwIP makes for an established connection.\<close>

datatype lwip_call = L_poll | L_recv "pbuf list" | L_sent u16

fun lwip_callback :: "env \<Rightarrow> user \<Rightarrow> lwip_call \<Rightarrow> pcb \<Rightarrow> conn \<Rightarrow> (err_t \<times> conn) res" where
  "lwip_callback en cb L_poll p s = s_poll en cb s"
| "lwip_callback en cb (L_recv pb) p s = s_recv en cb (Some p) pb ERR_OK s"
| "lwip_callback en cb (L_sent n) p s = s_sent en cb n s"

lemma K_abrt_reset:
  "K_abrt n c t h u \<Longrightarrow> abort_count h = n \<Longrightarrow> K_abrt n c (setCloseError ERR_OK t) h u"
  by (simp add: K_abrt_def setCloseError_def)

lemma callback_result_abrt:
  assumes "K_abrt n c (trk s) (log s) u" "callback_result s = (e, s')"
  shows "(e = ERR_ABRT) = (abort_count (log s') > n) \<and> abort_count (log s') \<le> Suc n
     \<and> (e = ERR_ABRT \<longrightarrow> errored (trk s') = EE_ABORTED)
     \<and> c_pcb s' = c_pcb s \<and> abort_count (log s') = abort_count (log s)"
  using assms by (auto simp: K_abrt_def callback_result_def tracker_defs split: if_splits)

lemma lwip_callback_abrt:
  assumes "registry_wf (ssl s)" "c_pcb s = Some p" "K_abrt n (Some p) (trk s) (log s) (use_tls s)"
    and "abort_count (log s) = n"
    and "abort_free usr" "lwip_callback en (run_cb d en usr) ev p s = Inr (e, s')"
  shows "\<exists>t. K_abrt n (c_pcb t) (trk t) (log t) (use_tls t) \<and> callback_result t = (e, s')"
proof -
  let ?cb = "run_cb d en usr"
  note id = abort_free_part_id [OF assms(5)]
  let ?H = "\<lambda>s. registry_wf (ssl s) \<and> K_abrt n (c_pcb s) (trk s) (log s) (use_tls s)"
  have h: "?H s" "?H (set_close_error ERR_OK s)"
    using assms(1-4) by (simp_all add: set_close_error_def K_abrt_reset)
  have fin: "\<exists>t. K_abrt n (c_pcb t) (trk t) (log t) (use_tls t) \<and> callback_result t = (e, s')"
    if "ok ?H r" "rbind r (\<lambda>s. Inr (callback_result s)) = Inr (e, s')" for r
    using that by (auto simp: rbind_eq_Inr)
  show ?thesis
  proof (cases ev)
    case L_poll
    with assms(6) fin [OF abrt.client_poll_holds [OF h(2), where en = en and d = d and usr = usr]] show ?thesis by (auto simp: s_poll_def id)
  next
    case (L_recv pb)
    have data: "ok (\<lambda>s. ?H s \<and> True) (invoke ?cb cev s)" if "?H s" for cev and s
      using abrt.invoke_holds [OF that, where en = en and d = d and usr = usr] unfolding id by (rule ok_mono) simp
    have window: "K_abrt n c t (A_tcp_recved (Some p) k # h) u" if "K_abrt n c t h u" for c t h u k
      using that by (simp add: K_abrt_def)
    have "ok ?H (client_recv en ?cb (Some p) pb ERR_OK s)"
    proof (cases "pb = []")
      case True
      with abrt.do_close_holds [OF h(1), where en = en and d = d and usr = usr] show ?thesis by (simp add: client_recv_def id)
    next
      case False
      from abrt.client_recv_holds [OF h(2) _ False, where Q = "\<lambda>c. True" and usr = usr] assms(2) data window id
      show ?thesis by (simp add: set_close_error_def)
    qed
    with assms(6) L_recv fin show ?thesis by (auto simp: s_recv_def)
  next
    case (L_sent k)
    with assms(6) fin [OF abrt.client_sent_holds [OF h, where en = en and d = d and usr = usr]] show ?thesis by (auto simp: s_sent_def id)
  qed
qed

text \<open>
  C4: a poll, receive or sent callback of a connection returns \<open>ERR_ABRT\<close> to lwIP if and
  only if \<open>tcp_abort\<close> was called while it ran, and then it was called exactly once and the
  client has given up its pcb.  (lwIP requires exactly this: a callback that aborts its pcb
  must say so, one that does not must not.)  This holds for every platform, whether
  \<open>tcp_abort\<close> runs the error callback or not, and for all handlers that do not call
  \<open>abort()\<close> themselves; they may close, delete and reconnect the client.  Before the
  callback no error is recorded in the tracker.
\<close>

theorem abrt_returned_iff_aborted:
  assumes "registry_wf (ssl s)" and "c_pcb s = Some p"
    and "errored (trk s) = EE_OK" and "close_error (trk s) \<noteq> ERR_ABRT"
    and "abort_free usr"
    and "lwip_callback en (run_cb d en usr) ev p s = Inr (e, s')"
  shows "(e = ERR_ABRT) = (abort_count (log s') = Suc (abort_count (log s)))
     \<and> (e \<noteq> ERR_ABRT) = (abort_count (log s') = abort_count (log s))
     \<and> (e = ERR_ABRT \<longrightarrow> errored (trk s') = EE_ABORTED \<and> c_pcb s' = None)"
proof -
  have "K_abrt (abort_count (log s)) (Some p) (trk s) (log s) (use_tls s)"
    using assms(3,4) by (simp add: K_abrt_def)
  from lwip_callback_abrt [OF assms(1,2) this refl assms(5,6)]
  obtain t where t: "K_abrt (abort_count (log s)) (c_pcb t) (trk t) (log t) (use_tls t)"
    "callback_result t = (e, s')" by auto
  from callback_result_abrt [OF this] t(1) show ?thesis
    by (auto simp: K_abrt_def split: if_splits)
qed

definition failing_close_env :: env where
  "failing_close_env = quiet_env\<lparr>e_close := (\<lambda>h. ERR_MEM), e_abort_err := (\<lambda>h. Some ERR_ABRT)\<rparr>"

theorem abrt_returned_iff_aborted_witness:
  "\<exists>s'. s_poll failing_close_env (run_cb 1 failing_close_env (\<lambda>ev h. [])) (plain0\<lparr>close_pcb := True\<rparr>)
       = Inr (ERR_ABRT, s') \<and> abort_count (log s') = 1"
proof -
  let ?s = "plain0\<lparr>close_pcb := True\<rparr>" and ?cb = "run_cb 1 failing_close_env (\<lambda>ev h. [])"
  have "\<exists>s'. s_poll failing_close_env ?cb ?s = Inr (ERR_ABRT, s')"
    by (simp add: s_poll_def client_poll_def do_close_def abort_def drop_tls_def clearTcpCallbacks_def
        invoke_if_def touch_def callback_result_def set_close_error_def failing_close_env_def
        quiet_env_def plain0_def mem0_def new_tracker_def tracker_defs log_defs)
  then obtain s' where run: "s_poll failing_close_env ?cb ?s = Inr (ERR_ABRT, s')" ..
  have "registry_wf (ssl ?s)" "c_pcb ?s = Some 1" "errored (trk ?s) = EE_OK"
    "close_error (trk ?s) \<noteq> ERR_ABRT" "abort_free (\<lambda>ev h. [])"
    by (simp_all add: plain0_def mem0_def registry_wf_def new_tracker_def abort_free_def)
  from abrt_returned_iff_aborted [OF this, of failing_close_env 1 L_poll] run
  have "abort_count (log s') = Suc (abort_count (log ?s))" by simp
  with run show ?thesis by (simp add: plain0_def mem0_def)
qed

text \<open>
  Handlers that call \<open>abort()\<close> have to be left out.  As lwIP documents it, the error callback
  is called with \<open>ERR_ABRT\<close> for a pcb "aborted through tcp_abort"; the comment at the top of
  ESPAsyncTCPErrorTracker.cpp assumes otherwise.  A poll handler that calls \<open>abort()\<close> makes \<open>_s_poll\<close> return \<open>ERR_OK\<close> for a pcb that is gone, for every state in
  which the poll handler is reached.
\<close>

theorem abort_in_handler_unreported:
  assumes "c_pcb s = Some p" "life s = Alive" "poll_cb s" "\<not> error_cb s" "\<not> discard_cb s"
    and "\<not> close_pcb s" "\<not> pcb_busy s" "rx_since_timeout s = 0" "\<not> use_tls s"
    and "errored (trk s) = EE_OK" and "err_registered p (log s)"
    and "e_abort_err en = (\<lambda>h. Some ERR_ABRT)" and "\<And>h. usr CB_poll h = [Op_abort]"
  shows "\<exists>s'. s_poll en (run_cb (Suc d) en usr) s = Inr (ERR_OK, s')
     \<and> abort_count (log s') = Suc (abort_count (log s))"
  using assms
  by (simp add: s_poll_def client_poll_def invoke_if_def invoke_def user_call_def abort_def s_error_def
      do_error_def touch_def callback_result_def set_close_error_def set_errored_def tracker_defs
      log_defs)

definition lwip_abort_env :: env where
  "lwip_abort_env = quiet_env\<lparr>e_abort_err := (\<lambda>h. Some ERR_ABRT)\<rparr>"

theorem abort_in_handler_unreported_witness:
  "\<exists>s'. s_poll lwip_abort_env (run_cb 1 lwip_abort_env (\<lambda>ev h. [Op_abort]))
       (plain0\<lparr>log := [A_err_fn 1 True], poll_cb := True, rx_since_timeout := 0\<rparr>) = Inr (ERR_OK, s')
     \<and> abort_count (log s') = 1"
proof -
  let ?s = "plain0\<lparr>log := [A_err_fn 1 True], poll_cb := True, rx_since_timeout := 0\<rparr>"
  have "c_pcb ?s = Some 1" "life ?s = Alive" "poll_cb ?s" "\<not> error_cb ?s" "\<not> discard_cb ?s"
    "\<not> close_pcb ?s" "\<not> pcb_busy ?s" "rx_since_timeout ?s = 0" "\<not> use_tls ?s"
    "errored (trk ?s) = EE_OK" "err_registered 1 (log ?s)"
    "e_abort_err lwip_abort_env = (\<lambda>h. Some ERR_ABRT)"
    by (simp_all add: plain0_def mem0_def new_tracker_def lwip_abort_env_def)
  from abort_in_handler_unreported [OF this, of "\<lambda>ev h. [Op_abort]" 0] show ?thesis by simp
qed

text \<open>
  An \<open>abort()\<close> made outside a callback leaves \<open>ERR_ABRT\<close> in the tracker, and no
  callback runs to report it.  If the client connects again, the first callback of the
  new connection returns \<open>ERR_ABRT\<close> to lwIP although the new pcb is alive, is the
  client's pcb and was not aborted.
\<close>

theorem foreground_abort_poisons_reconnect:
  assumes "c_pcb s = Some p" "life s = Alive" "errored (trk s) = EE_OK" "\<not> use_tls s"
    and "\<not> connect_cb s" and "e_abort_err en = (\<lambda>h. None)"
    and "q \<noteq> p" and "A_tcp_abort q \<notin> set (log s)"
  shows "\<exists>s'. rbind (abort en cb s) (s_connected en cb (Some q) ERR_OK) = Inr (ERR_ABRT, s')
     \<and> c_pcb s' = Some q \<and> A_tcp_abort q \<notin> set (log s')"
  using assms
  by (simp add: abort_def s_connected_def client_connected_def invoke_if_def touch_def
      callback_result_def set_close_error_def tracker_defs log_defs)

theorem foreground_abort_poisons_reconnect_witness:
  "\<exists>s'. rbind (abort quiet_env (\<lambda>ev s. Inr s) plain0)
          (s_connected quiet_env (\<lambda>ev s. Inr s) (Some 2) ERR_OK) = Inr (ERR_ABRT, s')
     \<and> c_pcb s' = Some 2"
proof -
  have "c_pcb plain0 = Some 1" "life plain0 = Alive" "errored (trk plain0) = EE_OK"
    "\<not> use_tls plain0" "\<not> connect_cb plain0" "e_abort_err quiet_env = (\<lambda>h. None)" "(2 :: pcb) \<noteq> 1"
    "A_tcp_abort 2 \<notin> set (log plain0)"
    by (simp_all add: plain0_def mem0_def new_tracker_def quiet_env_def)
  from foreground_abort_poisons_reconnect [OF this, of "\<lambda>ev s. Inr s"] show ?thesis by blast
qed

section \<open>No call on a released pcb\<close>

text \<open>The pcb a call needs to be alive; \<open>tcp_setprio\<close> marks that the library has just got it.\<close>

fun used_pcb :: "act \<Rightarrow> pcb option" where
  "used_pcb (A_arg p _) = Some p"
| "used_pcb (A_recv_fn p _) = Some p"
| "used_pcb (A_sent_fn p _) = Some p"
| "used_pcb (A_err_fn p _) = Some p"
| "used_pcb (A_poll_fn p _) = Some p"
| "used_pcb (A_accept_fn p _) = Some p"
| "used_pcb (A_tcp_connect p _ _) = Some p"
| "used_pcb (A_tcp_write p _ _) = Some p"
| "used_pcb (A_tcp_output po) = po"
| "used_pcb (A_tcp_recved po _) = po"
| "used_pcb (A_tcp_close p _) = Some p"
| "used_pcb (A_tcp_abort p) = Some p"
| "used_pcb (A_nagle p _) = Some p"
| "used_pcb (A_tcp_bind p _ _) = Some p"
| "used_pcb (A_tcp_listen p) = Some p"
| "used_pcb _ = None"

primrec clean :: "hist \<Rightarrow> bool" where
  "clean [] = True"
| "clean (a # h) = (clean h \<and> (case used_pcb a of None \<Rightarrow> True | Some p \<Rightarrow> \<not> released p h))"

definition K_clean :: "pcb option \<Rightarrow> tracker \<Rightarrow> hist \<Rightarrow> bool \<Rightarrow> bool" where
  "K_clean c t h u \<longleftrightarrow> \<not> u \<and> clean h \<and> (\<forall>p. c = Some p \<longrightarrow> \<not> released p h)"

lemma idle_clean: "idle_act a \<Longrightarrow> used_pcb a = None \<and> released p (a # h) = released p h"
  by (cases a rule: idle_act.cases) auto

lemma own_clean: "own_act p a \<Longrightarrow> used_pcb a \<in> {None, Some p} \<and> (released q (a # h) \<longrightarrow> released q h)"
  by (cases a) auto

interpretation no_tls: client_relation en False True K_clean for en
proof unfold_locales
  fix a c t h u
  assume "idle_act a" "K_clean c t h u"
  then show "K_clean c t (a # h) u"
    using idle_clean [of a _ h] by (auto simp: K_clean_def simp del: released.simps(2))
next
  fix p a t h u
  assume "own_act p a" "K_clean (Some p) t h u"
  then show "K_clean (Some p) t (a # h) u"
    using own_clean [of p a p h] by (auto simp: K_clean_def simp del: released.simps(2))
qed (auto simp: K_clean_def)

text \<open>
  User code of a plain client: it never connects with TLS, and its handlers for received
  data do not close, abort, delete or reconnect the client they run for.
\<close>

fun calm_op :: "api_op \<Rightarrow> bool" where
  "calm_op (Op_add _ _) = True"
| "calm_op Op_send = True"
| "calm_op (Op_write _ _) = True"
| "calm_op (Op_write_cstr _) = True"
| "calm_op (Op_ack _) = True"
| "calm_op Op_ackLater = True"
| "calm_op (Op_setNoDelay _) = True"
| "calm_op (Op_setRxTimeout _) = True"
| "calm_op (Op_setAckTimeout _) = True"
| "calm_op _ = False"

fun packet_op :: "api_op \<Rightarrow> bool" where
  "packet_op (Op_ackPacket _) = True"
| "packet_op x = calm_op x"

fun allowed_op :: "cb_ev \<Rightarrow> api_op \<Rightarrow> bool" where
  "allowed_op (CB_data _) x = calm_op x"
| "allowed_op (CB_packet _) x = packet_op x"
| "allowed_op _ x = (\<not> tls_op x)"

definition plain_sketch :: "sketch \<Rightarrow> bool" where
  "plain_sketch usr \<longleftrightarrow> (\<forall>ev h. \<forall>x\<in>set (usr ev h). allowed_op ev x)"

definition plain_part :: "sketch \<Rightarrow> sketch" where
  "plain_part usr = (\<lambda>ev h. filter (allowed_op ev) (usr ev h))"

lemma plain_part_id: "plain_sketch usr \<Longrightarrow> plain_part usr = usr"
  by (auto simp: plain_part_def plain_sketch_def fun_eq_iff filter_id_conv)

lemma packet_op_plain: "packet_op x \<Longrightarrow> \<not> tls_op x"
  by (cases x) auto

lemma calm_op_packet: "calm_op x \<Longrightarrow> packet_op x"
  by (cases x) auto

lemma allowed_op_plain: "allowed_op ev x \<Longrightarrow> \<not> tls_op x"
  by (cases ev) (auto dest: packet_op_plain calm_op_packet)

interpretation no_tls: client_contract en False True K_clean "run_cb d en (plain_part usr)" for en d usr
  by (rule no_tls.run_cb_contract) (auto simp: plain_part_def dest: allowed_op_plain)

lemma packet_op_keeps:
  assumes "packet_op x" "\<not> use_tls s"
  shows "ok (\<lambda>s'. c_pcb s' = c_pcb s \<and> \<not> use_tls s') (user_call en cb x s)"
  using assms
  by (cases x) (auto simp: user_call_def add_def client_write_def write_cstr_def send_def ack_def
      ackLater_def ackPacket_def setNoDelay_def setRxTimeout_def setAckTimeout_def touch_def Let_def
      log_defs split: option.splits)

lemma packet_script_keeps:
  "\<forall>x\<in>set xs. packet_op x \<Longrightarrow> \<not> use_tls s \<Longrightarrow>
     ok (\<lambda>s'. c_pcb s' = c_pcb s \<and> \<not> use_tls s') (run_script en cb xs s)"
proof (induction xs arbitrary: s)
  case (Cons x xs)
  have "packet_op x" using Cons.prems(1) by simp
  have "ok (\<lambda>s'. c_pcb s' = c_pcb s \<and> \<not> use_tls s') (run_script en cb xs t)"
    if "c_pcb t = c_pcb s \<and> \<not> use_tls t" for t
    using Cons.IH [of t] Cons.prems that by simp
  from ok_rbind [OF packet_op_keeps [OF \<open>packet_op x\<close> Cons.prems(2)] this] show ?case by simp
qed simp

abbreviation clean_state :: "conn \<Rightarrow> bool" where
  "clean_state s \<equiv> registry_wf (ssl s) \<and> K_clean (c_pcb s) (trk s) (log s) (use_tls s)"

lemma data_handlers_keep:
  assumes "plain_sketch usr" and "(\<exists>d. ev = CB_data d) \<or> (\<exists>b. ev = CB_packet b)"
    and "clean_state s" and "c_pcb s = Some p"
  shows "ok (\<lambda>s. clean_state s \<and> c_pcb s = Some p) (invoke (run_cb d en usr) ev s)"
proof (cases d)
  case 0
  then show ?thesis by (simp add: invoke_def)
next
  case (Suc k)
  let ?s = "emit (A_cb ev) s"
  have tls: "\<not> use_tls ?s" and c: "c_pcb ?s = Some p"
    using assms(3,4) by (simp_all add: K_clean_def emit_def)
  have "\<forall>x\<in>set (usr ev (log ?s)). packet_op x"
    using assms(1,2) by (auto simp: plain_sketch_def intro: calm_op_packet dest!: spec [of _ ev])
  from ok_mono [OF packet_script_keeps [OF this tls], of "\<lambda>s. c_pcb s = Some p"] c Suc
  have "ok (\<lambda>s. c_pcb s = Some p) (invoke (run_cb d en usr) ev s)"
    by (simp add: invoke_def)
  with no_tls.invoke_holds [OF assms(3), of d en usr ev] plain_part_id [OF assms(1)]
  show ?thesis by (cases "invoke (run_cb d en usr) ev s") auto
qed

lemma K_clean_tracker: "K_clean c t h u = K_clean c t' h u"
  by (simp add: K_clean_def)

lemma clean_clear:
  assumes "clean_state s" "\<not> released p (log s)"
  shows "clean_state (clearTcpCallbacks p s)"
  using assms by (auto simp: clearTcpCallbacks_def emits_def K_clean_def)

lemma fail_pcb_clean:
  assumes "plain_sketch usr" "clean_state s" "\<forall>p. po = Some p \<longrightarrow> \<not> released p (log s)"
  shows "ok clean_state (fail_pcb (run_cb d en usr) ev po e s)"
proof -
  let ?t = "set_errored ev (set_close_error e s)"
  have t: "clean_state ?t" "log ?t = log s"
    using assms(2) by (simp_all add: set_errored_def set_close_error_def K_clean_def)
  have "clean_state ((case po of None \<Rightarrow> ?t | Some p \<Rightarrow> clearTcpCallbacks p ?t)\<lparr>c_pcb := None\<rparr>)"
    using t(1) clean_clear [OF t(1)] assms(3) t(2) by (auto simp: K_clean_def split: option.split)
  from no_tls.do_error_holds [OF this, of d en usr e] plain_part_id [OF assms(1)] show ?thesis
    by (simp add: fail_pcb_def Let_def)
qed

lemma client_recv_clean:
  assumes plain: "plain_sketch usr" and h: "clean_state s" and c: "c_pcb s = Some p"
  shows "ok clean_state (client_recv en (run_cb d en usr) (Some p) pb err s)"
proof -
  have live: "\<forall>q. Some p = Some q \<longrightarrow> \<not> released q (log s)"
    using h c by (simp add: K_clean_def)
  consider "err \<noteq> ERR_OK" | "err = ERR_OK" "pb = []" | "err = ERR_OK" "pb \<noteq> []" by blast
  then show ?thesis
  proof cases
    case 1
    with fail_pcb_clean [OF plain h live] show ?thesis by (simp add: client_recv_def)
  next
    case 2
    with no_tls.do_close_holds [OF h, of en d usr] plain_part_id [OF plain] show ?thesis
      by (simp add: client_recv_def)
  next
    case 3
    have s: "clean_state (set_close_error ERR_OK s)"
      using h by (simp add: set_close_error_def K_clean_def)
    have window: "K_clean c t (A_tcp_recved (Some p) n # h) u"
      if "c = Some p" "K_clean c t h u" for c t h u n
      using that by (simp add: K_clean_def)
    from no_tls.client_recv_holds [OF s c 3(2), where Q = "\<lambda>c. c = Some p" and en = en and d = d
        and usr = usr] data_handlers_keep [OF plain] window 3(1) plain_part_id [OF plain]
    show ?thesis by (simp)
  qed
qed

lemma client_connected_clean:
  assumes plain: "plain_sketch usr" and h: "clean_state s"
    and live: "\<forall>p. po = Some p \<longrightarrow> \<not> released p (log s)"
  shows "ok clean_state (client_connected en (run_cb d en usr) po err s)"
proof (cases "po = None \<or> err \<noteq> ERR_OK")
  case True
  with fail_pcb_clean [OF plain h live] show ?thesis
    by (auto simp: client_connected_def split: option.split)
next
  case False
  then obtain p where po: "po = Some p" "err = ERR_OK" by auto
  let ?s = "emits [A_setprio p, A_recv_fn p True, A_sent_fn p True, A_poll_fn p True]
      ((snd (millis en (s\<lparr>c_pcb := Some p, pcb_busy := False\<rparr>)))\<lparr>rx_last_packet := e_millis en (log s)\<rparr>)"
  have "clean_state ?s" "use_tls ?s = use_tls s"
    using h live po by (auto simp: log_defs K_clean_def)
  with no_tls.invoke_if_holds [OF this(1), where en = en and d = d and usr = usr] h po plain_part_id [OF plain] show ?thesis
    by (simp add: client_connected_def Let_def millis_def K_clean_def)
qed

lemma callback_result_clean:
  "ok clean_state r \<Longrightarrow> rbind r (\<lambda>s. Inr (callback_result s)) = Inr (e, t) \<Longrightarrow> clean_state t"
  by (cases r) (auto simp: callback_result_def K_clean_def split: prod.splits)

lemma tls_op_sets: "tls_op x \<Longrightarrow> user_call en cb x s = Inr t \<Longrightarrow> use_tls t"
  by (cases x) (auto simp: user_call_def connect_ip_def connect_host_def Let_def log_defs
      split: if_splits option.splits prod.splits)

lemma client_step_clean:
  assumes "client_step d en usr s t" "plain_sketch usr" "clean_state s" "\<not> use_tls t"
  shows "clean_state t"
  using assms(1,3,4)
proof (induction rule: client_step.induct)
  case (poll s p e t)
  have "clean_state (set_close_error ERR_OK s)"
    using poll.prems by (simp add: set_close_error_def K_clean_def)
  from callback_result_clean [OF no_tls.client_poll_holds [OF this, where usr = usr]] poll.hyps(3) show ?case
    by (auto simp: s_poll_def plain_part_id assms(2))
next
  case (recv s p pb err e t)
  from callback_result_clean [OF client_recv_clean [OF assms(2) recv.prems(1) recv.hyps(2)]] recv.hyps(3)
  show ?case by (auto simp: s_recv_def)
next
  case (sent s p len e t)
  have "clean_state (set_close_error ERR_OK s)"
    using sent.prems by (simp add: set_close_error_def K_clean_def)
  from callback_result_clean [OF no_tls.client_sent_holds [OF sent.prems(1) this, where usr = usr]] sent.hyps(3) show ?case
    by (auto simp: s_sent_def plain_part_id assms(2))
next
  case (error s p err t)
  let ?s = "set_errored EE_ERROR_CB (set_close_error err (emit (A_lwip_freed p) s))"
  have "clean_state (?s\<lparr>c_pcb := None\<rparr>)" "c_pcb ?s = Some p" "\<not> use_tls ?s"
    using error.hyps(2) error.prems(1)
    by (simp_all add: set_errored_def set_close_error_def log_defs K_clean_def)
  with no_tls.do_error_holds [OF this(1), where d = d and en = en and usr = usr and e = err] error.hyps(3) show ?case
    by (simp add: s_error_def do_error_def plain_part_id assms(2))
next
  case (connected s po err e t)
  from callback_result_clean [OF client_connected_clean [OF assms(2) connected.prems(1) connected.hyps(3)]]
    connected.hyps(4)
  show ?case by (auto simp: s_connected_def)
next
  case (failed s p err t)
  let ?s = "set_errored EE_ERROR_CB (set_close_error err (emit (A_lwip_freed p) s))"
  have "clean_state ?s" "c_pcb ?s = None"
    using failed.hyps(2) failed.prems(1)
    by (simp_all add: set_errored_def set_close_error_def log_defs K_clean_def)
  with no_tls.do_error_holds [OF this(1), where d = d and en = en and usr = usr and e = err] failed.hyps(4) show ?case
    by (simp add: s_error_def plain_part_id assms(2))
next
  case (dns s addr t)
  from no_tls.dns_found_holds [OF dns.prems(1), where d = d and en = en and usr = usr and addr = addr] dns.hyps(2) show ?case by (simp add: plain_part_id assms(2))
next
  case (user s x t)
  have "\<not> tls_op x" using tls_op_sets user by blast
  with no_tls.user_call_holds [OF user.prems(1), where x = x and d = d and en = en and usr = usr] user.hyps(2) show ?case by (simp add: plain_part_id assms(2))
qed

text \<open>Runs of a client that stays plain.\<close>

inductive plain_run :: "nat \<Rightarrow> env \<Rightarrow> sketch \<Rightarrow> conn \<Rightarrow> conn \<Rightarrow> bool" for d en usr where
  start: "plain_run d en usr s s"
| step: "plain_run d en usr s t \<Longrightarrow> client_step d en usr t u \<Longrightarrow> \<not> use_tls u \<Longrightarrow>
    plain_run d en usr s u"

lemma new_client_clean:
  assumes "new_client en cb mode po None mem = Inr s" "registry_wf (ssl mem)" "log mem = []"
  shows "clean_state s"
  using assms by (cases po) (auto simp: new_client_def client_init_def Let_def log_defs K_clean_def)

text \<open>
  C3: a plain client never makes a lwIP call on a pcb after it closed or aborted it, or
  after lwIP freed it: over any run of callbacks, API calls and handlers from its
  construction (accepted or fresh), for every platform and every user code whose data and
  packet handlers do not close, abort, delete or reconnect the client.
\<close>

theorem no_use_after_release:
  assumes "new_client en cb mode po None mem = Inr s" and "registry_wf (ssl mem)" and "log mem = []"
    and "plain_sketch usr" and "plain_run d en usr s t"
  shows "clean (log t)"
proof -
  from assms(5) have "clean_state s \<Longrightarrow> clean_state t"
    by (induction rule: plain_run.induct) (auto dest: client_step_clean [OF _ assms(4)])
  with new_client_clean [OF assms(1-3)] show ?thesis by (simp add: K_clean_def)
qed

lemma closing_run_example:
  "\<exists>s t. new_client quiet_env (\<lambda>ev s. Inr s) 0 (Some 1) None mem0 = Inr s
     \<and> plain_run 1 quiet_env (\<lambda>ev h. []) s t \<and> A_tcp_close 1 ERR_OK \<in> set (log t)"
proof -
  define s where "s = the (case new_client quiet_env (\<lambda>ev s. Inr s) 0 (Some 1) None mem0 of
     Inr s \<Rightarrow> Some s | Inl _ \<Rightarrow> None)"
  have s: "new_client quiet_env (\<lambda>ev s. Inr s) 0 (Some 1) None mem0 = Inr s"
    by (simp add: s_def new_client_def Let_def log_defs)
  have fields: "life s = Alive" "c_pcb s = Some 1" "\<not> use_tls s" "\<not> discard_cb s" "rx_ack_len s = 0"
    "life s \<noteq> Dead"
    by (simp_all add: s_def new_client_def client_init_def Let_def log_defs)
  let ?cb = "run_cb 1 quiet_env (\<lambda>ev h. [])"
  let ?u = "(emit (A_tcp_recved (Some 1) 0) s)\<lparr>close_pcb := True\<rparr>"
  have 1: "client_step 1 quiet_env (\<lambda>ev h. []) s ?u"
    by (rule client_step.user [where x = "Op_close False"])
      (simp_all add: fields user_call_def close_def log_defs)
  have "\<exists>e t. s_poll quiet_env ?cb ?u = Inr (e, t) \<and> A_tcp_close 1 ERR_OK \<in> set (log t) \<and> \<not> use_tls t"
    by (simp add: s_poll_def client_poll_def do_close_def drop_tls_def clearTcpCallbacks_def fields
        invoke_if_def callback_result_def set_close_error_def log_defs quiet_env_def
        split: prod.split)
  then obtain e t where 2: "s_poll quiet_env ?cb ?u = Inr (e, t)"
    "A_tcp_close 1 ERR_OK \<in> set (log t)" "\<not> use_tls t" by blast
  have 3: "client_step 1 quiet_env (\<lambda>ev h. []) ?u t"
    by (rule client_step.poll [OF _ _ 2(1), where p = 1]) (simp_all add: fields log_defs)
  have "plain_run 1 quiet_env (\<lambda>ev h. []) s ?u"
    by (rule plain_run.step [OF plain_run.start 1]) (simp add: fields log_defs)
  from s plain_run.step [OF this 3 2(3)] 2(2) show ?thesis by blast
qed

theorem no_use_after_release_witness:
  "\<exists>t. A_tcp_close 1 ERR_OK \<in> set (log (t :: conn)) \<and> clean (log t)"
proof -
  from closing_run_example obtain s t where r:
    "new_client quiet_env (\<lambda>ev s. Inr s) 0 (Some 1) None mem0 = Inr s"
    "plain_run 1 quiet_env (\<lambda>ev h. []) s t" "A_tcp_close 1 ERR_OK \<in> set (log t)" by blast
  have "registry_wf (ssl mem0)" "log mem0 = []" "plain_sketch (\<lambda>ev h. [])"
    by (simp_all add: mem0_def registry_wf_def plain_sketch_def)
  from no_use_after_release [OF r(1) this r(2)] r(3) show ?thesis by blast
qed

text \<open>
  The restriction on data handlers is needed.  A plain client whose \<open>onData\<close> handler
  calls \<open>close(true)\<close> calls \<open>tcp_recved\<close> on the pcb right after \<open>tcp_close\<close> gave it back.
\<close>

theorem close_in_data_handler_unclean:
  assumes "c_pcb s = Some p" "life s = Alive" "\<not> use_tls s" "hasClient (trk s)"
    and "recv_cb s" "\<not> pb_cb s" "\<not> discard_cb s"
    and "\<And>h. e_close en h = ERR_OK" and "\<And>d h. usr (CB_data d) h = [Op_close True]"
  shows "\<exists>s' h. client_recv en (run_cb (Suc k) en usr) (Some p) [b] ERR_OK s = Inr s'
     \<and> log s' = A_pbuf_free [pb_id b] # A_tcp_recved (Some p) (of_nat (length (payload b)))
          # A_tcp_close p ERR_OK # h
     \<and> \<not> clean (log s')"
  using assms
  by (simp add: client_recv_def deliver_def invoke_def user_call_def close_def do_close_def
      drop_tls_def clearTcpCallbacks_def invoke_if_def touch_def set_close_error_def tracker_defs
      log_defs)

theorem close_in_data_handler_unclean_witness:
  "\<exists>s'. client_recv quiet_env (run_cb 1 quiet_env (\<lambda>ev h. [Op_close True])) (Some 1) (packet [5])
         ERR_OK (plain0\<lparr>recv_cb := True\<rparr>) = Inr s' \<and> \<not> clean (log s')"
proof -
  let ?s = "plain0\<lparr>recv_cb := True\<rparr>"
  have "c_pcb ?s = Some 1" "life ?s = Alive" "\<not> use_tls ?s" "hasClient (trk ?s)" "recv_cb ?s"
    "\<not> pb_cb ?s" "\<not> discard_cb ?s" "\<And>h. e_close quiet_env h = ERR_OK"
    by (simp_all add: plain0_def mem0_def new_tracker_def hasClient_def quiet_env_def)
  from close_in_data_handler_unclean [OF this, of "\<lambda>ev h. [Op_close True]" 0] show ?thesis
    unfolding packet_def by fastforce
qed

end
