(* ===== verification/ClientEvents.thy ===== *)
theory ClientEvents
  imports ClientSafety
begin

text \<open>
  What the lwIP callbacks of an established client do: delivery of received data, the
  timeouts of \<open>_poll\<close>, the effect of a close, and what happens when a handler deletes its
  client.
\<close>

section \<open>Delivery of received data\<close>

text \<open>The pbufs freed, in order, and the bytes by which the window of \<open>p\<close> was reopened.\<close>

primrec freed :: "hist \<Rightarrow> nat list" where
  "freed [] = []"
| "freed (a # h) = (case a of A_pbuf_free ids \<Rightarrow> freed h @ ids | _ \<Rightarrow> freed h)"

primrec credited :: "pcb \<Rightarrow> hist \<Rightarrow> nat" where
  "credited p [] = 0"
| "credited p (a # h) = (case a of
     A_tcp_recved po n \<Rightarrow> if po = Some p then credited p h + unat n else credited p h
   | _ \<Rightarrow> credited p h)"

definition calm_rel :: "pcb \<Rightarrow> conn \<Rightarrow> conn \<Rightarrow> bool" where
  "calm_rel p s s' \<longleftrightarrow> life s' = life s \<and> hasClient (trk s') = hasClient (trk s)
     \<and> use_tls s' = use_tls s \<and> c_pcb s' = c_pcb s \<and> recv_cb s' = recv_cb s \<and> pb_cb s' = pb_cb s
     \<and> cbs (log s') = cbs (log s) \<and> freed (log s') = freed (log s)
     \<and> unat (rx_ack_len s') \<le> unat (rx_ack_len s)
     \<and> credited p (log s') + unat (rx_ack_len s') = credited p (log s) + unat (rx_ack_len s)"

lemma calm_refl: "calm_rel p s s"
  by (simp add: calm_rel_def)

lemma calm_trans: "calm_rel p s t \<Longrightarrow> calm_rel p t u \<Longrightarrow> calm_rel p s u"
  by (simp add: calm_rel_def)

text \<open>The contract of a data handler: it returns, and leaves the connection as it is.\<close>

locale calm_user =
  fixes cb :: user
    and p :: pcb
  assumes calm: "life s = Alive \<Longrightarrow> \<not> use_tls s \<Longrightarrow> c_pcb s = Some p \<Longrightarrow>
      \<exists>s'. cb (CB_data d) s = Inr s' \<and> calm_rel p s s'"
begin

lemma deliver_calm:
  assumes "life s = Alive" "\<not> use_tls s" "c_pcb s = Some p" "hasClient (trk s)" "recv_cb s"
    and bound: "unat (rx_ack_len s) + length (payload b) < 2 ^ 32"
  obtains s' where "deliver en cb p b s = Inr s'"
    and "life s' = Alive" "\<not> use_tls s'" "c_pcb s' = Some p" "hasClient (trk s')" "recv_cb s'"
    and "pb_cb s' = pb_cb s" "freed (log s') = freed (log s)"
    and "cbs (log s') = cbs (log s) @ [CB_data (payload b)]"
    and "credited p (log s') + unat (rx_ack_len s')
       = credited p (log s) + unat (rx_ack_len s) + length (payload b)"
    and "unat (rx_ack_len s') \<le> unat (rx_ack_len s) + length (payload b)"
proof -
  let ?n = "length (payload b)"
  let ?s = "emit (A_cb (CB_data (payload b))) (s\<lparr>recv_pbuf_flags := pb_flags b\<rparr>)"
  from assms calm [of ?s "payload b"] obtain t
    where cb: "cb (CB_data (payload b)) ?s = Inr t" and rel: "calm_rel p ?s t"
    by (auto simp: emit_def)
  from rel assms(1-5) have t: "life t = Alive" "\<not> use_tls t" "c_pcb t = Some p" "hasClient (trk t)"
    "recv_cb t" "pb_cb t = pb_cb s" "freed (log t) = freed (log s)"
    "cbs (log t) = cbs (log s) @ [CB_data (payload b)]"
    "unat (rx_ack_len t) \<le> unat (rx_ack_len s)"
    "credited p (log t) + unat (rx_ack_len t) = credited p (log s) + unat (rx_ack_len s)"
    by (simp_all add: calm_rel_def emit_def)
  have n: "unat (of_nat ?n :: u32) = ?n" and
    sum: "unat (rx_ack_len t + of_nat ?n) = unat (rx_ack_len t) + ?n"
    using bound t(9) by (simp_all add: unat_of_nat unat_word_ariths take_bit_nat_eq_self mod_less)
  let ?u = "if \<not> ack_pcb t then t\<lparr>rx_ack_len := rx_ack_len t + of_nat ?n\<rparr>
      else emit (A_tcp_recved (Some p) (of_nat ?n)) t"
  have "deliver en cb p b s = Inr ?u"
    using cb t(1,4) assms(5) by (simp add: deliver_def invoke_def touch_def)
  then show thesis
    by (rule that) (use t n sum in \<open>auto simp: emit_def\<close>)
qed

lemma recv_loop_delivers:
  assumes "life s = Alive" "\<not> use_tls s" "c_pcb s = Some p" "hasClient (trk s)" "recv_cb s"
    and "\<not> pb_cb s" and "unat (rx_ack_len s) + tot_len pb < 2 ^ 32"
  shows "\<exists>s'. recv_loop en cb p pb s = Inr s'
     \<and> cbs (log s') = cbs (log s) @ map (\<lambda>b. CB_data (payload b)) pb
     \<and> freed (log s') = freed (log s) @ map pb_id pb
     \<and> credited p (log s') + unat (rx_ack_len s')
         = credited p (log s) + unat (rx_ack_len s) + tot_len pb"
  using assms
proof (induction pb arbitrary: s)
  case Nil
  then show ?case by (simp add: tot_len_def)
next
  case (Cons b pb)
  let ?s = "s\<lparr>ack_pcb := True\<rparr>"
  have "unat (rx_ack_len ?s) + length (payload b) < 2 ^ 32"
    using Cons.prems(7) by (simp add: tot_len_def)
  from deliver_calm [OF _ _ _ _ _ this, of en] Cons.prems obtain t where
    d: "deliver en cb p b ?s = Inr t"
    and t: "life t = Alive" "\<not> use_tls t" "c_pcb t = Some p" "hasClient (trk t)" "recv_cb t"
    "\<not> pb_cb t" "freed (log t) = freed (log s)"
    "cbs (log t) = cbs (log s) @ [CB_data (payload b)]"
    "credited p (log t) + unat (rx_ack_len t)
       = credited p (log s) + unat (rx_ack_len s) + length (payload b)"
    "unat (rx_ack_len t) \<le> unat (rx_ack_len s) + length (payload b)"
    by (simp) metis
  let ?t = "emit (A_pbuf_free [pb_id b]) t"
  have "unat (rx_ack_len ?t) + tot_len pb < 2 ^ 32"
    using Cons.prems(7) t(10) by (simp add: tot_len_def emit_def)
  from Cons.IH [OF _ _ _ _ _ _ this] t obtain u where "recv_loop en cb p pb ?t = Inr u"
    "cbs (log u) = cbs (log s) @ CB_data (payload b) # map (\<lambda>b. CB_data (payload b)) pb"
    "freed (log u) = freed (log s) @ pb_id b # map pb_id pb"
    "credited p (log u) + unat (rx_ack_len u)
       = credited p (log s) + unat (rx_ack_len s) + length (payload b) + tot_len pb"
    by (auto simp: emit_def)
  with d Cons.prems show ?case by (simp add: touch_def Let_def tot_len_def)
qed

end

lemma calm_call:
  assumes "calm_op x" "life s = Alive" "\<not> use_tls s" "c_pcb s = Some p"
  shows "\<exists>s'. user_call en cb x s = Inr s' \<and> calm_rel p s s'"
proof (cases x)
  case (Op_ack n)
  obtain m t where a: "ack n s = (m, t)" by fastforce
  from ack_conserves [OF a] have "unat m + unat (rx_ack_len t) = unat (rx_ack_len s)" by simp
  moreover have "t = (if m \<noteq> 0 then emit (A_tcp_recved (Some p) m) s else s)
      \<lparr>rx_ack_len := rx_ack_len s - m\<rparr>"
    using a assms(4) by (auto simp: ack_def Let_def emit_def)
  ultimately have "calm_rel p s t" by (auto simp: calm_rel_def emit_def)
  with a Op_ack assms(2) show ?thesis by (simp add: user_call_def)
qed (use assms in \<open>auto simp: user_call_def calm_rel_def add_def client_write_def write_cstr_def
      send_def ackLater_def setNoDelay_def setRxTimeout_def setAckTimeout_def touch_def Let_def
      log_defs split: option.split\<close>)

lemma calm_script:
  "\<forall>x\<in>set xs. calm_op x \<Longrightarrow> life s = Alive \<Longrightarrow> \<not> use_tls s \<Longrightarrow> c_pcb s = Some p \<Longrightarrow>
     \<exists>s'. run_script en cb xs s = Inr s' \<and> calm_rel p s s'"
proof (induction xs arbitrary: s)
  case (Cons x xs)
  from Cons.prems calm_call [of x s p en cb] obtain t
    where t: "user_call en cb x s = Inr t" "calm_rel p s t" by auto
  with Cons.prems Cons.IH [of t] obtain u where "run_script en cb xs t = Inr u" "calm_rel p t u"
    by (auto simp: calm_rel_def)
  with t show ?case by (auto intro: calm_trans)
qed (simp add: calm_refl)

interpretation calm: calm_user "run_cb (Suc d) en (plain_part usr)" p for d en usr p
proof
  fix s :: conn and d' assume "life s = Alive" "\<not> use_tls s" "c_pcb s = Some p"
  then show "\<exists>s'. run_cb (Suc d) en (plain_part usr) (CB_data d') s = Inr s' \<and> calm_rel p s s'"
    using calm_script [of "plain_part usr (CB_data d') (log s)" s p en "run_cb d en (plain_part usr)"]
    by (simp add: plain_part_def)
qed

text \<open>
  C12: a received packet is delivered completely and in order: the call of \<open>_recv\<close> returns,
  \<open>onData\<close> is called once per buffer of the chain with exactly its bytes, in order, every
  buffer is freed exactly once, and every byte is credited to the receive window exactly
  once: what was not acknowledged by the handlers or at once is in \<open>_rx_ack_len\<close>.  For
  every plain client and every user code whose data handler writes, acknowledges or
  postpones acknowledgements (\<open>ackLater\<close>) but does not close or delete the client.
\<close>

theorem recv_delivers_in_order:
  assumes "life s = Alive" "\<not> use_tls s" "c_pcb s = Some p" "hasClient (trk s)"
    and "recv_cb s" "\<not> pb_cb s" and "pb \<noteq> []" and "unat (rx_ack_len s) + tot_len pb < 2 ^ 32"
    and "plain_sketch usr"
  shows "\<exists>s'. client_recv en (run_cb (Suc d) en usr) (Some p) pb ERR_OK s = Inr s'
     \<and> cbs (log s') = cbs (log s) @ map (\<lambda>b. CB_data (payload b)) pb
     \<and> freed (log s') = freed (log s) @ map pb_id pb
     \<and> credited p (log s') + unat (rx_ack_len s')
         = credited p (log s) + unat (rx_ack_len s) + tot_len pb"
proof -
  let ?s = "set_close_error ERR_OK ((emit A_millis s)\<lparr>rx_last_packet := e_millis en (log s)\<rparr>)"
  have "\<exists>s'. recv_loop en (run_cb (Suc d) en (plain_part usr)) p pb ?s = Inr s'
     \<and> cbs (log s') = cbs (log ?s) @ map (\<lambda>b. CB_data (payload b)) pb
     \<and> freed (log s') = freed (log ?s) @ map pb_id pb
     \<and> credited p (log s') + unat (rx_ack_len s')
         = credited p (log ?s) + unat (rx_ack_len ?s) + tot_len pb"
    by (rule calm.recv_loop_delivers)
      (use assms in \<open>simp_all add: set_close_error_def emit_def tracker_defs\<close>)
  with assms(2,7) plain_part_id [OF assms(9)] show ?thesis
    by (simp add: client_recv_def Let_def millis_def set_close_error_def emit_def)
qed

definition later_sketch :: sketch where
  "later_sketch = (\<lambda>ev h. case ev of CB_data d \<Rightarrow> [Op_ackLater, Op_ack 1] | _ \<Rightarrow> [])"

theorem recv_delivers_in_order_witness:
  "\<exists>s'. client_recv quiet_env (run_cb 1 quiet_env later_sketch) (Some 1)
         [\<lparr>pb_id = 3, payload = [1, 2], pb_flags = 0\<rparr>, \<lparr>pb_id = 4, payload = [5], pb_flags = 1\<rparr>]
         ERR_OK (plain0\<lparr>recv_cb := True\<rparr>) = Inr s'
     \<and> cbs (log s') = [CB_data [1, 2], CB_data [5]] \<and> freed (log s') = [3, 4]
     \<and> credited 1 (log s') + unat (rx_ack_len s') = 3"
proof -
  let ?s = "plain0\<lparr>recv_cb := True\<rparr>"
  let ?pb = "[\<lparr>pb_id = 3, payload = [1, 2], pb_flags = 0\<rparr>, \<lparr>pb_id = 4, payload = [5 :: byte], pb_flags = 1\<rparr>]"
  have "life ?s = Alive" "\<not> use_tls ?s" "c_pcb ?s = Some 1" "hasClient (trk ?s)" "recv_cb ?s"
    "\<not> pb_cb ?s" "?pb \<noteq> []" "unat (rx_ack_len ?s) + tot_len ?pb < 2 ^ 32" "plain_sketch later_sketch"
    by (simp_all add: plain0_def mem0_def new_tracker_def hasClient_def tot_len_def)
      (auto simp: plain_sketch_def later_sketch_def split: cb_ev.splits)
  from recv_delivers_in_order [OF this, of quiet_env 0] show ?thesis
    by (simp add: plain0_def mem0_def tot_len_def eval_nat_numeral)
qed

section \<open>Timeouts\<close>

text \<open>Handlers that make no call, so that the history shows exactly what \<open>_poll\<close> decided.\<close>

definition idle_user :: user where
  "idle_user ev s = Inr s"

lemma elapsed_since:
  fixes t0 :: u32
  assumes "t0 = of_nat T0" "t1 = of_nat T1" "T0 \<le> T1" "T1 < T0 + 2 ^ 32"
  shows "unat (t1 - t0) = T1 - T0" "t1 - t0 = of_nat (T1 - T0)"
proof -
  from assms(3) obtain d where d: "T1 = T0 + d" using le_Suc_ex by blast
  with assms elapsed_exact [of d "of_nat T0"] show "unat (t1 - t0) = T1 - T0" by simp
  from d assms(1,2) show "t1 - t0 = of_nat (T1 - T0)" by simp
qed

text \<open>The state in which a close calls \<open>onDisconnect\<close>.\<close>

definition closed_state :: "env \<Rightarrow> pcb \<Rightarrow> conn \<Rightarrow> conn" where
  "closed_state en p s =
     (let s = clearTcpCallbacks p (drop_tls p s);
          e = e_close en (log s);
          s = emit (A_tcp_close p e) s
      in (if e = ERR_OK then set_close_error ERR_OK s
          else set_close_error ERR_ABRT (emit (A_tcp_abort p) s))\<lparr>c_pcb := None\<rparr>)"

lemmas closing_defs = drop_tls_def tcp_ssl_free_def clearTcpCallbacks_def emit_def emits_def

lemma cleared:
  assumes "c_pcb s = Some p"
  shows "c_pcb (clearTcpCallbacks p (drop_tls p s)) = Some p"
    "life (clearTcpCallbacks p (drop_tls p s)) = life s"
    "discard_cb (clearTcpCallbacks p (drop_tls p s)) = discard_cb s"
    "trk (clearTcpCallbacks p (drop_tls p s)) = trk s"
    "use_tls (clearTcpCallbacks p (drop_tls p s)) = use_tls s"
    "cbs (log (clearTcpCallbacks p (drop_tls p s))) = cbs (log s)"
    "\<not> err_registered p (log (clearTcpCallbacks p (drop_tls p s)))"
  using assms by (auto simp: closing_defs split: option.split)

lemma closed_state:
  assumes "c_pcb s = Some p"
  shows "c_pcb (closed_state en p s) = None" "life (closed_state en p s) = life s"
    "discard_cb (closed_state en p s) = discard_cb s" "use_tls (closed_state en p s) = use_tls s"
    "hasClient (trk (closed_state en p s)) = hasClient (trk s)"
    "cbs (log (closed_state en p s)) = cbs (log s)"
  using cleared [OF assms]
  by (simp_all add: closed_state_def Let_def set_close_error_def emit_def tracker_defs)

lemma do_close_closed_state:
  assumes "c_pcb s = Some p" "life s \<noteq> Dead"
  shows "do_close en cb s = invoke_if (discard_cb s) cb CB_disconnect (closed_state en p s)"
  using assms cleared [OF assms(1)]
  by (auto simp: do_close_def closed_state_def Let_def abort_def touch_def emit_def
      set_close_error_def)

lemma idle_close:
  assumes "c_pcb s = Some p" "life s = Alive"
  obtains s' where "do_close en idle_user s = Inr s'" "c_pcb s' = None"
    "cbs (log s') = cbs (log s) @ (if discard_cb s then [CB_disconnect] else [])"
proof
  let ?t = "closed_state en p s"
  let ?u = "if discard_cb s then emit (A_cb CB_disconnect) ?t else ?t"
  show "do_close en idle_user s = Inr ?u"
    using assms by (simp add: do_close_closed_state invoke_if_def invoke_def idle_user_def)
  show "c_pcb ?u = None"
    "cbs (log ?u) = cbs (log s) @ (if discard_cb s then [CB_disconnect] else [])"
    using closed_state [OF assms(1), of en] by (simp_all add: emit_def)
qed

text \<open>
  C29: the acknowledgement timeout fires exactly: at a poll \<open>T1 - T0\<close> milliseconds after
  the data was sent, \<open>onTimeout\<close> is called if and only if a timeout is set and at least
  that long has passed, with the time that passed; the connection then counts as idle and
  is not closed.  The times are real ones: the 32-bit clock may wrap in between.
\<close>

theorem ack_timeout_exact:
  assumes "c_pcb s = Some p" "life s = Alive" "\<not> close_pcb s" "pcb_busy s" "timeout_cb s"
    and "pcb_sent_at s = of_nat T0" "e_millis en (log s) = of_nat T1" "T0 \<le> T1" "T1 < T0 + 2 ^ 32"
  shows "\<exists>s' evs. client_poll en idle_user s = Inr s' \<and> cbs (log s') = cbs (log s) @ evs
     \<and> (if ack_timeout s \<noteq> 0 \<and> unat (ack_timeout s) \<le> T1 - T0
        then evs = [CB_timeout (of_nat (T1 - T0))] \<and> \<not> pcb_busy s' \<and> c_pcb s' = Some p
        else (\<forall>t. CB_timeout t \<notin> set evs))"
proof -
  let ?now = "e_millis en (log s)"
  let ?s = "emit A_millis (set_close_error ERR_OK s)"
  note el = elapsed_since [OF assms(6-9)]
  have due: "(?now - pcb_sent_at s \<ge> ack_timeout s) = (unat (ack_timeout s) \<le> T1 - T0)"
    using el(1) by (simp add: word_le_nat_alt)
  have s: "c_pcb ?s = Some p" "life ?s = Alive" "cbs (log ?s) = cbs (log s)"
    using assms(1,2) by (simp_all add: set_close_error_def emit_def)
  from idle_close [OF s(1,2), of en] obtain t where
    t: "do_close en idle_user ?s = Inr t"
    "cbs (log t) = cbs (log s) @ (if discard_cb ?s then [CB_disconnect] else [])"
    unfolding s(3) by metis
  show ?thesis
  proof (cases "ack_timeout s \<noteq> 0 \<and> unat (ack_timeout s) \<le> T1 - T0")
    case True
    with assms due el(2) show ?thesis
      by (simp add: client_poll_def Let_def millis_def invoke_if_def invoke_def idle_user_def
          set_close_error_def emit_def)
  next
    case False
    with assms due t show ?thesis
      by (auto simp: client_poll_def Let_def millis_def invoke_if_def invoke_def idle_user_def
          set_close_error_def emit_def)
  qed
qed

definition waiting0 :: conn where
  "waiting0 = plain0\<lparr>pcb_busy := True, timeout_cb := True, pcb_sent_at := of_nat (2 ^ 32 - 2500)\<rparr>"

theorem ack_timeout_exact_witness:
  "\<exists>s' evs. client_poll quiet_env idle_user waiting0 = Inr s'
     \<and> cbs (log s') = evs \<and> evs = [CB_timeout 3500]"
proof -
  have "c_pcb waiting0 = Some 1" "life waiting0 = Alive" "\<not> close_pcb waiting0" "pcb_busy waiting0"
    "timeout_cb waiting0" "pcb_sent_at waiting0 = of_nat (2 ^ 32 - 2500)"
    "e_millis quiet_env (log waiting0) = of_nat (2 ^ 32 + 1000)"
    "(2 ^ 32 - 2500 :: nat) \<le> 2 ^ 32 + 1000" "(2 ^ 32 + 1000 :: nat) < (2 ^ 32 - 2500) + 2 ^ 32"
    "ack_timeout waiting0 = 3000" "log waiting0 = []"
    by (simp_all add: waiting0_def plain0_def mem0_def quiet_env_def)
  from ack_timeout_exact [OF this(1-9)] this(10,11) show ?thesis by auto
qed

lemma rx_timeout_poll:
  assumes "c_pcb s = Some p" "life s = Alive" "\<not> close_pcb s" "\<not> pcb_busy s"
    and "\<not> use_tls s \<or> handshake_done s"
    and "rx_last_packet s = of_nat T0" "e_millis en (log s) = of_nat T1" "T0 \<le> T1" "T1 < T0 + 2 ^ 32"
  shows "\<exists>s'. client_poll en idle_user s = Inr s'
     \<and> c_pcb s' = (if rx_since_timeout s \<noteq> 0 \<and> unat (rx_since_timeout s) * 1000 mod 2 ^ 32 \<le> T1 - T0
                   then None else Some p)"
proof -
  let ?now = "e_millis en (log s)"
  let ?s = "emit A_millis (set_close_error ERR_OK s)"
  note el = elapsed_since [OF assms(6-9)]
  have "unat (rx_since_timeout s * 1000) = unat (rx_since_timeout s) * 1000 mod 2 ^ 32"
    by (simp add: unat_word_ariths)
  then have due: "(?now - rx_last_packet s \<ge> rx_since_timeout s * 1000)
      = (unat (rx_since_timeout s) * 1000 mod 2 ^ 32 \<le> T1 - T0)"
    unfolding word_le_nat_alt el(1) by simp
  have s: "c_pcb ?s = Some p" "life ?s = Alive"
    using assms(1,2) by (simp_all add: set_close_error_def emit_def)
  from idle_close [OF s, of en] obtain t where
    "do_close en idle_user ?s = Inr t" "c_pcb t = None" by metis
  with assms(1-5) due show ?thesis
    by (auto simp: client_poll_def Let_def millis_def invoke_if_def invoke_def idle_user_def
        set_close_error_def emit_def)
qed

text \<open>
  The receive timeout is exact for timeouts below 4294968 seconds: with \<open>t\<close> seconds
  set, an idle poll \<open>T1 - T0\<close> milliseconds after the last packet closes the connection if
  and only if \<open>t\<close> is not 0 and at least \<open>1000 t\<close> milliseconds have passed.
\<close>

theorem rx_timeout_exact:
  assumes "c_pcb s = Some p" "life s = Alive" "\<not> close_pcb s" "\<not> pcb_busy s"
    and "\<not> use_tls s \<or> handshake_done s"
    and "rx_last_packet s = of_nat T0" "e_millis en (log s) = of_nat T1" "T0 \<le> T1" "T1 < T0 + 2 ^ 32"
    and "unat (rx_since_timeout s) * 1000 < 2 ^ 32"
  shows "\<exists>s'. client_poll en idle_user s = Inr s'
     \<and> c_pcb s' = (if rx_since_timeout s \<noteq> 0 \<and> unat (rx_since_timeout s) * 1000 \<le> T1 - T0
                   then None else Some p)"
  using rx_timeout_poll [OF assms(1-9)] mod_less [OF assms(10)] by simp

theorem rx_timeout_exact_witness:
  "\<exists>s'. client_poll quiet_env idle_user (plain0\<lparr>rx_last_packet := of_nat (2 ^ 32 - 4000)\<rparr>) = Inr s'
     \<and> c_pcb s' = None"
proof -
  let ?s = "plain0\<lparr>rx_last_packet := of_nat (2 ^ 32 - 4000)\<rparr>"
  have "c_pcb ?s = Some 1" "life ?s = Alive" "\<not> close_pcb ?s" "\<not> pcb_busy ?s"
    "\<not> use_tls ?s \<or> handshake_done ?s" "rx_last_packet ?s = of_nat (2 ^ 32 - 4000)"
    "e_millis quiet_env (log ?s) = of_nat (2 ^ 32 + 1000)" "(2 ^ 32 - 4000 :: nat) \<le> 2 ^ 32 + 1000"
    "(2 ^ 32 + 1000 :: nat) < (2 ^ 32 - 4000) + 2 ^ 32" "unat (rx_since_timeout ?s) * 1000 < 2 ^ 32"
    "rx_since_timeout ?s = 5"
    by (simp_all add: plain0_def mem0_def quiet_env_def)
  from rx_timeout_exact [OF this(1-10)] this(11) show ?thesis by simp
qed

text \<open>
  Above that bound the product wraps: a receive timeout of 4294968 seconds (49.7 days)
  closes the connection after 704 milliseconds without a packet.
\<close>

theorem rx_timeout_overflow:
  assumes "c_pcb s = Some p" "life s = Alive" "\<not> close_pcb s" "\<not> pcb_busy s"
    and "\<not> use_tls s \<or> handshake_done s"
    and "rx_last_packet s = of_nat T0" "e_millis en (log s) = of_nat (T0 + 704)"
  shows "\<exists>s'. client_poll en idle_user (setRxTimeout 4294968 s) = Inr s' \<and> c_pcb s' = None"
proof -
  have "\<exists>s'. client_poll en idle_user (setRxTimeout 4294968 s) = Inr s'
     \<and> c_pcb s' = (if rx_since_timeout (setRxTimeout 4294968 s) \<noteq> 0
          \<and> unat (rx_since_timeout (setRxTimeout 4294968 s)) * 1000 mod 2 ^ 32 \<le> (T0 + 704) - T0
        then None else Some p)"
    by (rule rx_timeout_poll) (use assms in \<open>simp_all add: setRxTimeout_def\<close>)
  then show ?thesis by (simp add: setRxTimeout_def)
qed

theorem rx_timeout_overflow_witness:
  "\<exists>s'. client_poll quiet_env idle_user (setRxTimeout 4294968 (plain0\<lparr>rx_last_packet := 296\<rparr>)) = Inr s'
     \<and> c_pcb s' = None"
proof -
  let ?s = "plain0\<lparr>rx_last_packet := 296\<rparr>"
  have "c_pcb ?s = Some 1" "life ?s = Alive" "\<not> close_pcb ?s" "\<not> pcb_busy ?s"
    "\<not> use_tls ?s \<or> handshake_done ?s" "rx_last_packet ?s = of_nat 296"
    "e_millis quiet_env (log ?s) = of_nat (296 + 704)"
    by (simp_all add: plain0_def mem0_def quiet_env_def)
  from rx_timeout_overflow [OF this] show ?thesis .
qed

section \<open>Closing\<close>

text \<open>The last value a callback slot of \<open>p\<close> was set to; the slots of lwIP's \<open>tcp_pcb\<close>.\<close>

datatype slot = Slot_arg | Slot_recv | Slot_sent | Slot_err | Slot_poll

definition slot_set :: "slot \<Rightarrow> act \<Rightarrow> (pcb \<times> bool) option" where
  "slot_set k a = (case a of
     A_arg p b \<Rightarrow> if k = Slot_arg then Some (p, b) else None
   | A_recv_fn p b \<Rightarrow> if k = Slot_recv then Some (p, b) else None
   | A_sent_fn p b \<Rightarrow> if k = Slot_sent then Some (p, b) else None
   | A_err_fn p b \<Rightarrow> if k = Slot_err then Some (p, b) else None
   | A_poll_fn p b \<Rightarrow> if k = Slot_poll then Some (p, b) else None
   | _ \<Rightarrow> None)"

primrec slot_on :: "slot \<Rightarrow> pcb \<Rightarrow> hist \<Rightarrow> bool" where
  "slot_on k p [] = False"
| "slot_on k p (a # h) = (case slot_set k a of Some (q, b) \<Rightarrow> if q = p then b else slot_on k p h
                          | None \<Rightarrow> slot_on k p h)"

primrec release_count :: "pcb \<Rightarrow> hist \<Rightarrow> nat" where
  "release_count p [] = 0"
| "release_count p (a # h) = (case a of
     A_tcp_close q e \<Rightarrow> if q = p \<and> e = ERR_OK then Suc (release_count p h) else release_count p h
   | A_tcp_abort q \<Rightarrow> if q = p then Suc (release_count p h) else release_count p h
   | _ \<Rightarrow> release_count p h)"

text \<open>
  C27: \<open>_close\<close> on a connection: lwIP gets the pcb back exactly once (by \<open>tcp_close\<close>, or by
  \<open>tcp_abort\<close> when \<open>tcp_close\<close> fails), with all five callback slots cleared, the TLS
  context is deleted, the recorded error says which it was, and only then, as the last
  action, \<open>onDisconnect\<close> is called; in the state in which it is called the client has no
  pcb, so closing again does nothing.
\<close>

theorem close_contract:
  assumes "c_pcb s = Some p" "life s \<noteq> Dead" "registry_wf (ssl s)" "errored (trk s) = EE_OK"
  shows "\<exists>t. do_close en cb s = invoke_if (discard_cb s) cb CB_disconnect t
     \<and> c_pcb t = None \<and> do_close en cb t = Inr t
     \<and> release_count p (log t) = Suc (release_count p (log s))
     \<and> (\<forall>k. \<not> slot_on k p (log t))
     \<and> (use_tls s \<longrightarrow> \<not> tcp_ssl_has p t)
     \<and> getCloseError (trk t) \<in> {ERR_OK, ERR_ABRT}
     \<and> (getCloseError (trk t) = ERR_ABRT) = (A_tcp_abort p = hd (log t))"
proof -
  let ?s = "clearTcpCallbacks p (drop_tls p s)"
  let ?t = "closed_state en p s"
  let ?e = "e_close en (log ?s)"
  note t = closed_state [OF assms(1), of en]
  have log: "release_count p (log ?s) = release_count p (log s)" "\<not> slot_on k p (log ?s)" for k
    by (cases k; auto simp: closing_defs slot_set_def split: option.split)+
  have "use_tls s \<longrightarrow> find_ssl_pcb p (ssl ?s) = None"
    using assms(3) by (auto simp: closing_defs registry_wf_def find_unlink unlink_None
        split: option.split)
  then have tls: "use_tls s \<longrightarrow> \<not> tcp_ssl_has p ?t"
    by (simp add: closed_state_def Let_def set_close_error_def emit_def tcp_ssl_has_def)
  have slots: "\<not> slot_on k p (log ?t)" for k
    using log(2) [of k] by (cases k; simp add: closed_state_def Let_def set_close_error_def emit_def
        slot_set_def)
  have "release_count p (log ?t) = Suc (release_count p (log s))"
    "getCloseError (trk ?t) = (if ?e = ERR_OK then ERR_OK else ERR_ABRT)"
    "(A_tcp_abort p = hd (log ?t)) = (?e \<noteq> ERR_OK)"
    using assms(4) log(1) cleared(4) [OF assms(1)]
    by (simp_all add: closed_state_def Let_def set_close_error_def emit_def tracker_defs)
  with t(1) tls slots do_close_closed_state [OF assms(1,2), of en cb] show ?thesis
    by (intro exI [of _ ?t]) (simp add: do_close_def)
qed

theorem close_contract_witness:
  "\<exists>t. do_close failing_close_env idle_user tls0
       = invoke_if (discard_cb tls0) idle_user CB_disconnect t
     \<and> release_count 1 (log t) = 1 \<and> \<not> tcp_ssl_has 1 t"
proof -
  have "c_pcb tls0 = Some 1" "life tls0 \<noteq> Dead" "errored (trk tls0) = EE_OK" "use_tls tls0"
    "release_count 1 (log tls0) = 0"
    by (simp_all add: tls0_def mem0_def new_tracker_def)
  from close_contract [OF this(1,2) tls0_facts(1) this(3), of failing_close_env idle_user] this(4,5)
  show ?thesis by auto
qed

section \<open>Deleting the client in a handler\<close>

lemma hasClient_setCloseError [simp]: "hasClient (setCloseError e t) = hasClient t"
  by (simp add: tracker_defs)

lemma delete_alive:
  assumes "c_pcb s = Some p" "life s = Alive" "\<not> discard_cb s"
  shows "\<exists>t. delete_client en cb s = Inr t \<and> life t = Dead \<and> use_tls t = use_tls s
     \<and> hasClient (trk t) = (hasClient (trk s) \<and> \<not> use_tls s)"
proof -
  let ?s = "s\<lparr>life := Dying\<rparr>"
  have s: "c_pcb ?s = Some p" "life ?s \<noteq> Dead" "discard_cb ?s = discard_cb s" using assms by simp_all
  with assms closed_state [OF s(1), of en] show ?thesis
    by (simp add: delete_client_def do_close_closed_state [OF s(1,2)] invoke_if_def emit_def Let_def)
      (simp add: tracker_defs)
qed

text \<open>
  A plain client that is deleted in its own \<open>onData\<close> handler is used after it was freed:
  the destructor marks the client as gone in the tracker only when \<open>_use_tls\<close> is set, so
  \<open>_recv\<close> goes on with the deleted object.
\<close>

theorem delete_in_data_handler_faults:
  assumes "c_pcb s = Some p" "life s = Alive" "\<not> use_tls s" "hasClient (trk s)"
    and "recv_cb s" "\<not> pb_cb s" "\<not> discard_cb s" and "pb \<noteq> []"
    and "\<And>d h. usr (CB_data d) h = [Op_delete]"
  shows "client_recv en (run_cb (Suc k) en usr) (Some p) pb ERR_OK s = Inl Use_after_free"
proof -
  obtain b bs where pb: "pb = b # bs" using assms(8) by (cases pb) auto
  have "\<exists>t. delete_client en cb u = Inr t \<and> life t = Dead \<and> hasClient (trk t)"
    if "c_pcb u = Some p" "life u = Alive" "\<not> discard_cb u" "\<not> use_tls u" "hasClient (trk u)"
    for cb u
    using delete_alive [OF that(1-3), of en cb] that(4,5) by auto
  note del = this
  let ?u = "emit (A_cb (CB_data (payload b))) ((set_close_error ERR_OK ((emit A_millis s)
      \<lparr>rx_last_packet := e_millis en (log s)\<rparr>))\<lparr>ack_pcb := True, recv_pbuf_flags := pb_flags b\<rparr>)"
  from del [of ?u "run_cb k en usr"] assms obtain t where
    "delete_client en (run_cb k en usr) ?u = Inr t" "life t = Dead" "hasClient (trk t)"
    by (auto simp: set_close_error_def emit_def)
  with assms pb show ?thesis
    by (simp add: client_recv_def Let_def millis_def deliver_def invoke_def user_call_def touch_def
        set_close_error_def emit_def)
qed

theorem delete_in_data_handler_faults_witness:
  "client_recv quiet_env (run_cb 1 quiet_env (\<lambda>ev h. [Op_delete])) (Some 1) (packet [5]) ERR_OK
     (plain0\<lparr>recv_cb := True\<rparr>) = Inl Use_after_free"
proof -
  let ?s = "plain0\<lparr>recv_cb := True\<rparr>"
  have "c_pcb ?s = Some 1" "life ?s = Alive" "\<not> use_tls ?s" "hasClient (trk ?s)" "recv_cb ?s"
    "\<not> pb_cb ?s" "\<not> discard_cb ?s" "packet [5] \<noteq> []"
    by (simp_all add: plain0_def mem0_def new_tracker_def hasClient_def packet_def)
  from delete_in_data_handler_faults [OF this, of "\<lambda>ev h. [Op_delete]" quiet_env 0] show ?thesis
    by simp
qed

text \<open>
  In an \<open>onAck\<close> handler the tracker does its job, but only for TLS: deleting the client
  there makes \<open>_sent\<close> use the deleted object if and only if the client is plain.
\<close>

lemma delete_in_ack_handler:
  assumes "c_pcb s = Some p" "life s = Alive" "hasClient (trk s)" "\<not> (use_tls s \<and> \<not> handshake_done s)"
    and "sent_cb s" "\<not> discard_cb s" and "unat (tx_unacked_len s) \<le> unat len"
    and "\<And>n t h. usr (CB_ack n t) h = [Op_delete]"
  shows "(client_sent en (run_cb (Suc k) en usr) len s = Inl Use_after_free) = (\<not> use_tls s)
     \<and> no_fault (client_sent en (run_cb (Suc k) en usr) len s) = use_tls s"
proof -
  have le: "\<not> ucast len < tx_unacked_len s \<or> ucast len = tx_unacked_len s"
    using assms(7) by (auto simp: word_less_nat_alt unat_ucast16)
  then have all: "(if ucast len < tx_unacked_len s then ucast len else tx_unacked_len s)
      = tx_unacked_len s" by auto
  let ?acked = "tx_acked_len s + ucast len"
  let ?v = "emit A_millis (set_close_error ERR_OK ((emit A_millis s)\<lparr>rx_last_packet := e_millis en (log s),
      tx_unacked_len := 0, tx_acked_len := ?acked, pcb_busy := False\<rparr>))"
  let ?u = "emit (A_cb (CB_ack ?acked (e_millis en (A_millis # log s) - pcb_sent_at s))) ?v"
  from delete_alive [of ?u p en "run_cb k en usr"] assms(1-3,6) obtain t where
    "delete_client en (run_cb k en usr) ?u = Inr t" "life t = Dead" "hasClient (trk t) = (\<not> use_tls s)"
    by (auto simp: set_close_error_def emit_def)
  with assms(2,4,5,8) show ?thesis
    by (simp add: client_sent_def Let_def millis_def invoke_def user_call_def touch_def
        set_close_error_def emit_def all) (use le in auto)
qed

lemma delete_in_ack_handler_witness:
  "client_sent quiet_env (run_cb 1 quiet_env (\<lambda>ev h. [Op_delete])) 5
     (plain0\<lparr>sent_cb := True, tx_unacked_len := 5\<rparr>) = Inl Use_after_free"
proof -
  let ?s = "plain0\<lparr>sent_cb := True, tx_unacked_len := 5\<rparr>"
  have "c_pcb ?s = Some 1" "life ?s = Alive" "hasClient (trk ?s)"
    "\<not> (use_tls ?s \<and> \<not> handshake_done ?s)" "sent_cb ?s" "\<not> discard_cb ?s"
    "unat (tx_unacked_len ?s) \<le> unat (5 :: u16)" "\<not> use_tls ?s"
    by (simp_all add: plain0_def mem0_def new_tracker_def hasClient_def)
  from delete_in_ack_handler [OF this(1-7), of "\<lambda>ev h. [Op_delete]" quiet_env 0] this(8)
  show ?thesis by simp
qed

end
