(* ===== verification/ClientSecure.thy ===== *)
theory ClientSecure
  imports ClientEvents
begin

text \<open>
  The TLS side of the client: when a connection is reported, which validator a mode
  selects, and what the code does with the TLS context when it accepts, closes, aborts or
  reconnects.
\<close>

section \<open>Termination of the engine loop\<close>

text \<open>
  The endless loop of \<open>process_ssl_engine\<close> ends: if the BearSSL engine makes progress,
  in the sense that a measure of its history drops with every record taken from it or
  piece of data acknowledged, and the callbacks do not push it back, then the loop runs
  at most as often as the measure says.  With that much fuel the result is never
  \<open>No_return\<close>.
\<close>

theorem engine_loop_terminates:
  assumes data: "\<And>h. b_recvapp_buf en h p \<noteq> [] \<Longrightarrow>
      m (A_br_recvapp_ack p (length (b_recvapp_buf en h p)) # h) < m h"
    and record_sent: "\<And>h. b_sendrec_buf en h p \<noteq> [] \<Longrightarrow>
      m (A_tcp_output (Some p) # A_br_sendrec_ack p (length (b_sendrec_buf en h p))
         # A_tcp_write p (b_sendrec_buf en h p) 1 # h) < m h"
    and callback: "\<And>ev s s'. cb ev s = Inr s' \<Longrightarrow> m (log s') \<le> m (log s)"
    and returns: "\<And>ev s. cb ev s \<noteq> Inl No_return"
    and fuel: "m (log s) < loop_fuel en"
  shows "process_ssl_engine en cb p (s :: 'a ssl_world_scheme) \<noteq> Inl No_return"
proof -
  define good where "good s r \<longleftrightarrow> r \<noteq> Inl No_return
      \<and> (\<forall>s'. r = Inr (None, s') \<longrightarrow> m (log s') < m (log s))"
    for s :: "'a ssl_world_scheme" and r :: "(engine_exit option \<times> 'a ssl_world_scheme) res"
  have step: "good s (engine_step en cb p s)" for s
  proof -
    have send: "good s (Inr (engine_send en p t))" if "log t = log s" for t
      using record_sent that by (auto simp: good_def engine_send_def Let_def set_out_len_def split: if_splits)
    have err: "good s (rbind (cb ev t) (\<lambda>s. Inr (Some Closed, s)))" for ev t
      using returns by (cases "cb ev t") (auto simp: good_def)
    let ?n = "length (b_recvapp_buf en (log s) p)"
    have app: "good s (rbind (cb ev (emit (A_br_recvapp_ack p ?n) t)) (\<lambda>s. Inr (None, s)))"
      if "log t = log s" "b_recvapp_buf en (log s) p \<noteq> []" for ev t
    proof (cases "cb ev (emit (A_br_recvapp_ack p ?n) t)")
      case (Inr u)
      from callback [OF this] data [OF that(2)] Inr that show ?thesis by (simp add: good_def)
    next
      case (Inl e)
      with returns [of ev "emit (A_br_recvapp_ack p ?n) t"] show ?thesis by (auto simp: good_def)
    qed
    have ack: "good s (Inr (None, emit (A_br_recvapp_ack p ?n) t))"
      if "log t = log s" "b_recvapp_buf en (log s) p \<noteq> []" for t
      using data that by (simp add: good_def)
    have closed: "good s (Inr (Some Closed, s))" by (simp add: good_def)
    have log: "log (set_in_len p n s) = log s" for n by (simp add: set_in_len_def)
    show ?thesis
      unfolding engine_step_def Let_def
      using closed send err app [OF log] ack [OF log] send [OF log]
      by (auto simp: good_def [of s "Inl Ssl_use_after_free"] split: option.split)
  qed
  have "m (log s) < n \<Longrightarrow> engine_loop n en cb p s \<noteq> Inl No_return" for n s
  proof (induction n arbitrary: s)
    case (Suc n)
    with step [of s, unfolded good_def] show ?case
      by (cases "engine_step en cb p s") (auto split: option.splits)
  qed simp
  then have "engine_loop (loop_fuel en) en cb p s \<noteq> Inl No_return" using fuel by blast
  moreover have "finish_handshake en cb p t \<noteq> Inl No_return" for t
    using returns by (simp add: finish_handshake_def Let_def split: option.split)
  ultimately show ?thesis
    by (cases "engine_loop (loop_fuel en) en cb p s")
      (auto simp: process_ssl_engine_def split: engine_exit.splits)
qed

definition one_record_env :: env where
  "one_record_env = quiet_env\<lparr>b_sendrec_buf :=
     (\<lambda>h p. if A_br_sendrec_ack p 3 \<in> set h then [] else [1, 2, 3])\<rparr>"

theorem engine_loop_terminates_witness:
  "process_ssl_engine one_record_env (\<lambda>ev s. Inr s) 1 tls0 \<noteq> Inl No_return"
proof -
  let ?m = "\<lambda>h. if A_br_sendrec_ack 1 3 \<in> set h then 0 else 1 :: nat"
  show ?thesis
    by (rule engine_loop_terminates [where m = ?m])
      (auto simp: one_record_env_def quiet_env_def split: if_splits)
qed

section \<open>When a TLS connection is reported\<close>

text \<open>
  A context without callbacks: whatever the engine does with it, the client is not told
  and does not change.
\<close>

definition mute :: "pcb \<Rightarrow> conn \<Rightarrow> conn \<Rightarrow> bool" where
  "mute p s0 s \<longleftrightarrow> (\<forall>sp. find_ssl_pcb p (ssl s) = Some sp \<longrightarrow>
        \<not> sp_on_data sp \<and> \<not> sp_on_handshake sp \<and> \<not> sp_on_error sp)
     \<and> handshake_done s = handshake_done s0 \<and> use_tls s = use_tls s0
     \<and> connect_cb s = connect_cb s0 \<and> c_pcb s = c_pcb s0 \<and> life s = life s0
     \<and> cbs (log s) = cbs (log s0)"

lemma mute_send: "mute p s0 s \<Longrightarrow> mute p s0 (snd (engine_send en p s))"
  by (auto simp: mute_def engine_send_def Let_def set_out_len_def emits_def find_update)

lemma mute_step: "mute p s0 s \<Longrightarrow> ok (\<lambda>(x, s'). mute p s0 s') (engine_step en cb p s)"
  using mute_send [of p s0 s en] mute_send [of p s0 "set_in_len p n s" en for n]
  by (auto simp: engine_step_def Let_def split_beta split: option.split)
    (auto simp: mute_def set_in_len_def emit_def find_update)

lemma mute_loop: "mute p s0 s \<Longrightarrow> ok (\<lambda>(x, s'). mute p s0 s') (engine_loop n en cb p s)"
proof (induction n arbitrary: s)
  case (Suc n)
  show ?case
    unfolding engine_loop.simps
    by (rule ok_rbind [OF mute_step [OF Suc.prems]]) (auto intro: Suc.IH split: option.split)
qed simp

lemma mute_process: "mute p s0 s \<Longrightarrow> ok (mute p s0) (process_ssl_engine en cb p s)"
proof -
  assume m: "mute p s0 s"
  have fin: "ok (mute p s0) (finish_handshake en cb p t)" if "mute p s0 t" for t
    using that by (auto simp: finish_handshake_def Let_def mute_def find_update split: option.split)
  show ?thesis
    unfolding process_ssl_engine_def
    by (rule ok_rbind [OF mute_loop [OF m]]) (auto intro: fin split: engine_exit.split)
qed

text \<open>The state of a client in \<open>_connected\<close> before the handshake: nothing was reported.\<close>

definition unreported :: "conn \<Rightarrow> conn \<Rightarrow> bool" where
  "unreported s0 s \<longleftrightarrow> \<not> handshake_done s \<and> use_tls s \<and> life s = life s0
     \<and> (\<exists>evs. cbs (log s) = cbs (log s0) @ evs \<and> set evs \<subseteq> {CB_disconnect})"

lemma unreported_close:
  assumes "unreported s0 s" "life s0 = Alive"
  shows "ok (\<lambda>t. unreported s0 t \<and> c_pcb t = None) (do_close en idle_user s)"
proof (cases "c_pcb s")
  case None
  with assms show ?thesis by (simp add: do_close_def)
next
  case (Some p)
  have "life s \<noteq> Dead" "\<not> handshake_done (closed_state en p s)" "use_tls (closed_state en p s)"
    using assms by (auto simp: unreported_def closed_state_def closing_defs Let_def
        set_close_error_def split: option.split)
  with do_close_closed_state [OF Some this(1), of en idle_user] closed_state [OF Some, of en] assms
  show ?thesis
    by (auto simp: invoke_if_def invoke_def idle_user_def emit_def unreported_def)
qed

lemma mute_unreported: "mute p s0 s \<Longrightarrow> unreported r s0 \<Longrightarrow> unreported r s"
  by (simp add: mute_def unreported_def)

lemma unreported_new_ssl:
  assumes "unreported s0 s"
  shows "ok (\<lambda>(r, t). unreported s0 t) (tcp_ssl_new_client en cb po k s)"
proof (cases po)
  case (Some p)
  let ?s = "(emit (A_br_client_init p k) (emit (A_new_ssl p) s))\<lparr>ssl := new_ssl_pcb en p False # ssl s\<rparr>"
  have s: "unreported s0 ?s" using assms by (simp add: unreported_def emit_def)
  have "mute p ?s ?s" by (simp add: mute_def new_ssl_pcb_def)
  from mute_process [OF this, of en cb] s have "ok (unreported s0) (process_ssl_engine en cb p ?s)"
    by (auto elim: ok_mono intro: mute_unreported)
  from ok_rbind [OF this, of "\<lambda>(r, t). unreported s0 t" "\<lambda>s. Inr (0, s)"] assms Some show ?thesis
    by (auto simp: tcp_ssl_new_client_def Let_def emit_def unreported_def)
qed (use assms in \<open>simp add: tcp_ssl_new_client_def\<close>)

lemma unreported_start_tls:
  assumes "unreported s0 s" "life s0 = Alive"
  shows "ok (\<lambda>(b, t). unreported s0 t) (start_tls en idle_user s)"
proof -
  let ?v = "snd (initClientX509Validator en s)"
  have v: "unreported s0 ?v"
    using assms(1) by (simp add: initClientX509Validator_def unreported_def)
  have c: "ok (unreported s0) (if b then do_close en idle_user ?v else Inr ?v)" for b
    using unreported_close [OF v assms(2), of en] v by (auto elim: ok_mono)
  have inst: "unreported s0 (install_ssl_callbacks q t)" if "unreported s0 t" for q t
    using that by (simp add: unreported_def install_ssl_callbacks_def setter_defs)
  have cl: "ok (\<lambda>(b, t). unreported s0 t) (rbind (do_close en idle_user t) (\<lambda>s. Inr (False, s)))"
    if "unreported s0 t" for t
    by (rule ok_rbind [OF unreported_close [OF that assms(2)]]) simp
  have fin: "ok (\<lambda>(b, t). unreported s0 t) (rbind (tcp_ssl_new_client en cb po k t) (\<lambda>(err, s).
       if err \<noteq> 0 then rbind (do_close en idle_user s) (\<lambda>s. Inr (False, s))
       else Inr (True, case c_pcb s of None \<Rightarrow> s | Some p \<Rightarrow> install_ssl_callbacks p s)))"
    if "unreported s0 t" for t cb po k
    by (rule ok_rbind [OF unreported_new_ssl [OF that]])
      (auto intro!: inst cl split: option.split)
  show ?thesis
    unfolding start_tls_def split_beta [of _ "initClientX509Validator en s"] Let_def
    by (rule ok_rbind [OF c]) (simp add: touch_def fin)
qed

text \<open>
  C11: a TLS client never reports a connection before the handshake: lwIP's connected
  callback, whatever the validator, the TLS context and the engine do in it, calls no
  handler except \<open>onDisconnect\<close> (when the setup fails), and the client does not count as
  connected afterwards.
\<close>

theorem tls_not_reported_before_handshake:
  assumes "use_tls s" "\<not> handshake_done s" "life s = Alive"
    and "client_connected en idle_user (Some p) ERR_OK s = Inr s'"
  shows "\<exists>evs. cbs (log s') = cbs (log s) @ evs \<and> set evs \<subseteq> {CB_disconnect}
     \<and> \<not> connected en' s'"
proof -
  let ?s = "emits [A_setprio p, A_recv_fn p True, A_sent_fn p True, A_poll_fn p True]
     ((snd (millis en (s\<lparr>c_pcb := Some p, pcb_busy := False\<rparr>)))\<lparr>rx_last_packet := e_millis en (log s)\<rparr>)"
  have "unreported s ?s" "use_tls ?s" using assms(1-3) by (simp_all add: unreported_def log_defs)
  have "ok (unreported s) (client_connected en idle_user (Some p) ERR_OK s)"
  proof -
    have "ok (unreported s) (rbind (start_tls en idle_user ?s) (\<lambda>(go, s).
        if go then invoke_if (connect_cb s \<and> connected en s) idle_user CB_connect s else Inr s))"
      by (rule ok_rbind [OF unreported_start_tls [OF \<open>unreported s ?s\<close> assms(3)]])
        (auto simp: invoke_if_def unreported_def connected_def split: option.split)
    with \<open>use_tls ?s\<close> show ?thesis
      by (simp add: client_connected_def Let_def millis_def)
  qed
  with assms(4) show ?thesis
    by (auto simp: unreported_def connected_def split: option.split)
qed

definition tls_start0 :: conn where
  "tls_start0 = mem0\<lparr>use_tls := True, connect_cb := True, ssl_auth_mode := SSL_AUTH_INSECURE\<rparr>"

lemma tls_start_example:
  "\<exists>s'. client_connected quiet_env idle_user (Some 1) ERR_OK tls_start0 = Inr s'
     \<and> c_pcb s' = Some 1 \<and> tcp_ssl_has 1 s'"
  by (simp add: client_connected_def start_tls_def initClientX509Validator_def insecure_modes_def
      tls_start0_def tcp_ssl_new_client_def process_ssl_engine_def engine_step_def engine_send_def
      finish_handshake_def set_out_len_def new_ssl_pcb_def install_ssl_callbacks_def setter_defs
      invoke_if_def connected_def touch_def SSL_AUTH_INSECURE_def SSL_AUTH_FINGERPRINT_def
      SSL_AUTH_SELF_SIGNED_def quiet_env_def mem0_def Let_def log_defs tcp_ssl_has_def
      eval_nat_numeral)

theorem tls_not_reported_before_handshake_witness:
  "\<exists>s'. client_connected quiet_env idle_user (Some 1) ERR_OK tls_start0 = Inr s'
     \<and> CB_connect \<notin> set (cbs (log s')) \<and> \<not> connected quiet_env s'"
proof -
  from tls_start_example obtain s' where
    run: "client_connected quiet_env idle_user (Some 1) ERR_OK tls_start0 = Inr s'" by blast
  have "use_tls tls_start0" "\<not> handshake_done tls_start0" "life tls_start0 = Alive"
    "log tls_start0 = []"
    by (simp_all add: tls_start0_def mem0_def)
  from tls_not_reported_before_handshake [OF this(1-3) run, of quiet_env] this(4) run
  show ?thesis by auto
qed

lemma validator_keeps [simp]:
  "log (snd (initClientX509Validator en s)) = log s" "c_pcb (snd (initClientX509Validator en s)) = c_pcb s"
  "life (snd (initClientX509Validator en s)) = life s" "use_tls (snd (initClientX509Validator en s)) = use_tls s"
  "discard_cb (snd (initClientX509Validator en s)) = discard_cb s"
  by (simp_all add: initClientX509Validator_def)

text \<open>
  Secure mode fails closed: without trust anchors the connected callback closes the
  connection, no TLS context is created and nothing but \<open>onDisconnect\<close> is called.
\<close>

lemma secure_without_anchors_closes:
  assumes "use_tls s" "ssl_auth_mode s = SSL_AUTH_SECURE" "life s = Alive"
    and "ca_certs s = None \<or> ca_certs s = Some 0"
  shows "\<exists>s'. client_connected en idle_user (Some p) ERR_OK s = Inr s' \<and> c_pcb s' = None
     \<and> (\<forall>q k. A_br_client_init q k \<in> set (log s') \<longrightarrow> A_br_client_init q k \<in> set (log s))
     \<and> cbs (log s') = cbs (log s) @ (if discard_cb s then [CB_disconnect] else [])"
proof -
  let ?s = "emits [A_setprio p, A_recv_fn p True, A_sent_fn p True, A_poll_fn p True]
     ((snd (millis en (s\<lparr>c_pcb := Some p, pcb_busy := False\<rparr>)))\<lparr>rx_last_packet := e_millis en (log s)\<rparr>)"
  let ?v = "snd (initClientX509Validator en ?s)"
  have valid: "\<not> fst (initClientX509Validator en ?s)"
    using assms(2,4) by (auto simp: initClientX509Validator_def insecure_modes_def log_defs
        SSL_AUTH_SECURE_def)
  have v: "c_pcb ?v = Some p" "life ?v = Alive" "discard_cb ?v = discard_cb s"
    "cbs (log ?v) = cbs (log s)" "use_tls ?v" and
    vlog: "A_br_client_init q k \<in> set (log ?v) \<Longrightarrow> A_br_client_init q k \<in> set (log s)" for q k
    using assms(1,3) by (auto simp: log_defs)
  let ?t = "closed_state en p ?v"
  let ?u = "if discard_cb s then emit (A_cb CB_disconnect) ?t else ?t"
  note t = closed_state [OF v(1), of en]
  have close: "do_close en idle_user ?v = Inr ?u"
    using v t by (simp add: do_close_closed_state invoke_if_def invoke_def idle_user_def)
  have u: "c_pcb ?u = None" "life ?u = Alive"
    "cbs (log ?u) = cbs (log s) @ (if discard_cb s then [CB_disconnect] else [])"
    using t v by (simp_all add: emit_def)
  have ulog: "A_br_client_init q k \<in> set (log ?u) \<Longrightarrow> A_br_client_init q k \<in> set (log s)" for q k
    using vlog [of q k] by (auto simp: closed_state_def Let_def set_close_error_def closing_defs
        split: if_splits option.splits)
  have "start_tls en idle_user ?s = Inr (False, ?u)"
    using valid close u(1,2)
    by (simp add: start_tls_def split_beta Let_def touch_def tcp_ssl_new_client_def do_close_def
        del: if_split)
  then have "client_connected en idle_user (Some p) ERR_OK s = Inr ?u"
    using assms(1) by (simp add: client_connected_def Let_def log_defs)
  with u ulog show ?thesis by blast
qed

lemma secure_without_anchors_closes_witness:
  "\<exists>s'. client_connected quiet_env idle_user (Some 1) ERR_OK
         (tls_start0\<lparr>ssl_auth_mode := SSL_AUTH_SECURE\<rparr>) = Inr s' \<and> c_pcb s' = None"
proof -
  let ?s = "tls_start0\<lparr>ssl_auth_mode := SSL_AUTH_SECURE\<rparr>"
  have "use_tls ?s" "ssl_auth_mode ?s = SSL_AUTH_SECURE" "life ?s = Alive"
    "ca_certs ?s = None \<or> ca_certs ?s = Some 0"
    by (simp_all add: tls_start0_def mem0_def)
  from secure_without_anchors_closes [OF this] show ?thesis by blast
qed

text \<open>
  The documented values of \<open>ASYNC_TCP_SSL_X509_MODE\<close> do not select the documented
  validators.  A client built with mode 4, "known key mode", uses the insecure validator
  set to accept every self-signed certificate and never looks at the known key; mode 3,
  "self-signed mode", checks the fingerprint and does not require a self-signed
  certificate.  (The members of \<open>AcSSLAuthMode\<close> are 4 and 8.)
\<close>

lemma documented_x509_modes:
  assumes "e_alloc en (log mem)"
  shows "x509_choice (client_init en mem 4 po) = X509_insecure
     \<and> (\<exists>ctx. x509_insecure (snd (initClientX509Validator en (client_init en mem 4 po))) = Some ctx
          \<and> allow_self_signed ctx \<and> match_fingerprint ctx = None)
     \<and> (\<exists>ctx. x509_insecure (snd (initClientX509Validator en (client_init en mem 3 po))) = Some ctx
          \<and> \<not> allow_self_signed ctx \<and> match_fingerprint ctx = fingerprint mem)"
  using assms
  by (simp add: x509_choice_def initClientX509Validator_def insecure_modes_def client_init_def
      br_x509_insecure_init_def SSL_AUTH_INSECURE_def SSL_AUTH_FINGERPRINT_def
      SSL_AUTH_SELF_SIGNED_def)

lemma documented_x509_modes_witness:
  "x509_choice (client_init quiet_env (mem0\<lparr>knownkey := Some Key_RSA\<rparr>) 4 None) = X509_insecure"
  using documented_x509_modes [of quiet_env "mem0\<lparr>knownkey := Some Key_RSA\<rparr>" None]
  by (simp add: quiet_env_def)

section \<open>TLS contexts that are bypassed or lost\<close>

lemma new_server_keeps:
  assumes "tcp_ssl_new_server en po co s = (r, t)"
  shows "c_pcb t = c_pcb s" "use_tls t = use_tls s" "life t = life s" "trk t = trk s"
    "pb_cb t = pb_cb s" "discard_cb t = discard_cb s"
  using assms by (auto simp: tcp_ssl_new_server_def Let_def emit_def
      split: option.splits if_splits key_kind.splits)

lemma accepted_fields:
  assumes "new_client en cb mode (Some p) (Some ctx) mem = Inr s" "c_pcb s = Some p"
  shows "\<not> use_tls s" "life s = Alive" "trk s = new_tracker" "\<not> pb_cb s" "\<not> discard_cb s"
proof -
  let ?s = "emits [A_setprio p, A_arg p True, A_recv_fn p True, A_sent_fn p True, A_err_fn p True,
      A_poll_fn p True] ((snd (millis en (client_init en mem mode (Some p))))
        \<lparr>rx_last_packet := fst (millis en (client_init en mem mode (Some p)))\<rparr>)"
  obtain r t where new: "tcp_ssl_new_server en (Some p) (Some ctx) ?s = (r, t)" by fastforce
  from new_server_keeps [OF new]
  have t: "c_pcb t = Some p" "\<not> use_tls t" "life t = Alive" "trk t = new_tracker" "\<not> pb_cb t"
    "\<not> discard_cb t"
    by (simp_all add: client_init_def log_defs)
  have "new_client en cb mode (Some p) (Some ctx) mem =
      (if r < 0 then do_close en cb t else Inr (install_ssl_callbacks p t))"
    using new by (simp add: new_client_def Let_def split_beta)
  moreover have "do_close en cb t = Inr (closed_state en p t)"
    using t by (simp add: do_close_closed_state invoke_if_def)
  ultimately have "s = install_ssl_callbacks p t"
    using assms closed_state(1) [OF t(1), of en] by (auto split: if_splits)
  with t show "\<not> use_tls s" "life s = Alive" "trk s = new_tracker" "\<not> pb_cb s" "\<not> discard_cb s"
    by (simp_all add: install_ssl_callbacks_def setter_defs)
qed

text \<open>
  C40: TLS is never used on the server side: a client accepted with a TLS context has
  \<open>_use_tls\<close> unset, so what the peer sends is handed to \<open>onData\<close> as it came from the
  wire, before anything is fed to the TLS engine that was set up for it, and what the
  application writes goes to \<open>tcp_write\<close> in clear.
\<close>

theorem server_tls_bypassed:
  assumes "new_client en cb mode (Some p) (Some ctx) mem = Inr s" and "c_pcb s = Some p"
    and "tcp_ssl_has p s"
  shows "(\<exists>t f. client_recv en cb (Some p) [b] ERR_OK (set_handler H_data True s)
        = rbind (invoke cb (CB_data (payload b)) t) f
          \<and> fed p (log t) = fed p (log s) \<and> tcp_ssl_has p t)
     \<and> (\<forall>bs n s'. client_write en cb (Some bs) flags s = Inr (n, s') \<and> n > 0
          \<longrightarrow> A_tcp_write p (take n bs) flags \<in> set (log s'))"
proof
  note f = accepted_fields [OF assms(1,2)]
  let ?s = "set_close_error ERR_OK ((emit A_millis (set_handler H_data True s))
      \<lparr>rx_last_packet := e_millis en (log s)\<rparr>)"
  let ?t = "?s\<lparr>ack_pcb := True, recv_pbuf_flags := pb_flags b\<rparr>"
  have "\<exists>f. client_recv en cb (Some p) [b] ERR_OK (set_handler H_data True s)
      = rbind (invoke cb (CB_data (payload b)) ?t) f"
    using f by (simp add: client_recv_def Let_def millis_def deliver_def touch_def rbind_assoc
        set_close_error_def emit_def hasClient_def new_tracker_def setCloseError_def) blast
  moreover have "fed p (log ?t) = fed p (log s)" "tcp_ssl_has p ?t"
    using assms(3) by (simp_all add: set_close_error_def emit_def tcp_ssl_has_def)
  ultimately show "\<exists>t f. client_recv en cb (Some p) [b] ERR_OK (set_handler H_data True s)
      = rbind (invoke cb (CB_data (payload b)) t) f
        \<and> fed p (log t) = fed p (log s) \<and> tcp_ssl_has p t" by blast
  show "\<forall>bs n s'. client_write en cb (Some bs) flags s = Inr (n, s') \<and> n > 0
      \<longrightarrow> A_tcp_write p (take n bs) flags \<in> set (log s')"
    using f(1) assms(2) by (auto simp: client_write_def add_def send_def touch_def Let_def log_defs
        rbind_eq_Inr split: option.splits if_splits)
qed

definition rsa_ctx :: ssl_ctx where
  "rsa_ctx = \<lparr>chain_length = 1, pk = Some Key_RSA\<rparr>"

lemma accept_example:
  "\<exists>s. new_client quiet_env idle_user 0 (Some 1) (Some rsa_ctx) mem0 = Inr s \<and> c_pcb s = Some 1
     \<and> tcp_ssl_has 1 s \<and> fed 1 (log s) = []"
  by (simp add: new_client_def client_init_def tcp_ssl_new_server_def rsa_ctx_def quiet_env_def
      mem0_def Let_def log_defs new_ssl_pcb_def install_ssl_callbacks_def setter_defs tcp_ssl_has_def)

theorem server_tls_bypassed_witness:
  "\<exists>s t f. new_client quiet_env idle_user 0 (Some 1) (Some rsa_ctx) mem0 = Inr s
     \<and> client_recv quiet_env idle_user (Some 1) [\<lparr>pb_id = 0, payload = [22, 3, 1], pb_flags = 0\<rparr>]
          ERR_OK (set_handler H_data True s) = rbind (invoke idle_user (CB_data [22, 3, 1]) t) f
     \<and> fed 1 (log t) = []"
proof -
  from accept_example obtain s where s: "new_client quiet_env idle_user 0 (Some 1) (Some rsa_ctx) mem0 = Inr s"
    "c_pcb s = Some 1" "tcp_ssl_has 1 s" "fed 1 (log s) = []" by blast
  from server_tls_bypassed [OF s(1-3), of "\<lparr>pb_id = 0, payload = [22, 3, 1], pb_flags = 0\<rparr>" 0] s
  show ?thesis by auto
qed

text \<open>
  \<open>abort()\<close> does not free the TLS context: after aborting and deleting a TLS client its
  context is still in the registry, and nothing in the client refers to it any more.
\<close>

theorem abort_leaks_tls_context:
  assumes "c_pcb s = Some p" "life s = Alive" "tcp_ssl_has p s" "e_abort_err en = (\<lambda>h. None)"
  shows "\<exists>s'. rbind (abort en cb s) (delete_client en cb) = Inr s'
     \<and> life s' = Dead \<and> c_pcb s' = None \<and> tcp_ssl_has p s'"
  using assms by (simp add: abort_def delete_client_def do_close_def touch_def Let_def
      set_close_error_def tcp_ssl_has_def log_defs)

theorem abort_leaks_tls_context_witness:
  "\<exists>s'. rbind (abort quiet_env idle_user tls0) (delete_client quiet_env idle_user) = Inr s'
     \<and> life s' = Dead \<and> tcp_ssl_has 1 s'"
proof -
  have "c_pcb tls0 = Some 1" "life tls0 = Alive" "tcp_ssl_has 1 tls0"
    "e_abort_err quiet_env = (\<lambda>h. None)"
    by (simp_all add: tls0_def mem0_def tcp_ssl_has_def sample_ssl_pcb_def quiet_env_def)
  from abort_leaks_tls_context [OF this] show ?thesis by blast
qed

text \<open>
  Nor does the error branch of \<open>_recv\<close>: it sets \<open>_pcb\<close> to NULL before it calls \<open>_error\<close>, which
  then frees no context.  The pcb is not given back either, nor are the buffers freed.
\<close>

lemma recv_error_leaks:
  assumes "c_pcb s = Some p" "tcp_ssl_has p s" "e \<noteq> ERR_OK" "\<not> error_cb s" "\<not> discard_cb s" "life s = Alive"
  shows "\<exists>s'. client_recv en cb (Some p) pb e s = Inr s' \<and> c_pcb s' = None \<and> tcp_ssl_has p s'
     \<and> log s' = [A_poll_fn p False, A_err_fn p False, A_recv_fn p False, A_sent_fn p False, A_arg p False] @ log s"
  using assms
  by (simp add: client_recv_def fail_pcb_def do_error_def invoke_if_def touch_def clearTcpCallbacks_def
      set_errored_def set_close_error_def tcp_ssl_has_def log_defs)

text \<open>
  Closing a TLS connection in its own \<open>onData\<close> handler frees the context the engine
  loop is working on: \<open>_s_data\<close> runs inside \<open>process_ssl_engine\<close>, \<open>_close\<close> deletes the
  \<open>tcp_ssl_pcb\<close>, and the next round of the loop reads it.
\<close>

theorem close_in_tls_data_handler_faults:
  assumes "c_pcb s = Some p" "life s = Alive" "use_tls s" "recv_cb s" "\<not> discard_cb s"
    and "registry_wf (ssl s)" "find_ssl_pcb p (ssl s) = Some sp" "sp_on_data sp"
    and "\<not> br_closed (b_state en (log s) p)" "br_recvapp (b_state en (log s) p)"
    and "b_recvapp_buf en (log s) p \<noteq> []" "length (b_recvapp_buf en (log s) p) < in_size en"
    and "2 \<le> loop_fuel en" and "\<And>d h. usr (CB_data d) h = [Op_close True]"
  shows "process_ssl_engine en (tls_cb (Suc k) en usr) p s = Inl Ssl_use_after_free"
proof -
  let ?buf = "b_recvapp_buf en (log s) p"
  let ?s = "emit (A_br_recvapp_ack p (length ?buf)) (set_in_len p (length ?buf) s)"
  let ?u = "emit (A_tcp_recved (Some p) (rx_ack_len s)) (emit (A_cb (CB_data ?buf)) ?s)"
  have u: "c_pcb ?u = Some p" "life ?u \<noteq> Dead" "discard_cb ?u = discard_cb s" "use_tls ?u"
    "ssl ?u = update_ssl_pcb p (\<lambda>sp. sp\<lparr>sp_in_len := length ?buf\<rparr>) (ssl s)"
    using assms(1-3) by (simp_all add: set_in_len_def emit_def)
  let ?t = "closed_state en p ?u"
  have wf: "registry_wf (ssl ?u)" unfolding u(5) using assms(6) by (rule ssl_reg.wf_modify) simp
  have "find_ssl_pcb p (ssl ?t) = None"
    using u(4) wf ssl_reg.lookup_remove [OF wf] ssl_reg.remove_None [of p "ssl ?u"]
    by (auto simp: closed_state_def Let_def set_close_error_def closing_defs split: option.split)
  then have next_round: "engine_step en (tls_cb (Suc k) en usr) p ?t = Inl Ssl_use_after_free"
    by (simp add: engine_step_def)
  have "do_close en (run_cb k en usr) ?u = Inr ?t"
    using do_close_closed_state [OF u(1,2), of en "run_cb k en usr"] u(3) assms(5)
    by (simp add: invoke_if_def)
  then have "tls_cb (Suc k) en usr (S_data p ?buf) ?s = Inr ?t"
    using assms(1,2,4,14) by (simp add: client_ssl_cb_def touch_def invoke_if_def invoke_def
        user_call_def close_def Let_def set_in_len_def emit_def)
  then have "engine_step en (tls_cb (Suc k) en usr) p s = Inr (None, ?t)"
    using assms(7-12) by (simp add: engine_step_def Let_def)
  moreover obtain n where "loop_fuel en = Suc (Suc n)"
    using assms(13) by (metis add_2_eq_Suc le_Suc_ex)
  ultimately show ?thesis
    using next_round by (simp add: process_ssl_engine_def)
qed

definition app_data_env :: env where
  "app_data_env = quiet_env\<lparr>
     b_state := (\<lambda>h p. \<lparr>br_closed = False, br_sendapp = True, br_recvapp = True\<rparr>),
     b_recvapp_buf := (\<lambda>h p. [1])\<rparr>"

theorem close_in_tls_data_handler_faults_witness:
  "process_ssl_engine app_data_env (tls_cb 1 app_data_env (\<lambda>ev h. [Op_close True])) 1
     (tls0\<lparr>discard_cb := False\<rparr>) = Inl Ssl_use_after_free"
proof -
  let ?s = "tls0\<lparr>discard_cb := False\<rparr>"
  have "c_pcb ?s = Some 1" "life ?s = Alive" "use_tls ?s" "recv_cb ?s" "\<not> discard_cb ?s"
    "registry_wf (ssl ?s)" "find_ssl_pcb 1 (ssl ?s) = Some (sample_ssl_pcb 1 8)"
    "sp_on_data (sample_ssl_pcb 1 8)" "\<not> br_closed (b_state app_data_env (log ?s) 1)"
    "br_recvapp (b_state app_data_env (log ?s) 1)" "b_recvapp_buf app_data_env (log ?s) 1 \<noteq> []"
    "length (b_recvapp_buf app_data_env (log ?s) 1) < in_size app_data_env"
    "2 \<le> loop_fuel app_data_env"
    using tls0_facts(1,2)
    by (simp_all add: tls0_def mem0_def sample_ssl_pcb_def app_data_env_def quiet_env_def)
  from close_in_tls_data_handler_faults [OF this, of "\<lambda>ev h. [Op_close True]" 0] show ?thesis by simp
qed

text \<open>
  \<open>connect\<close> switches \<open>_use_tls\<close> before it checks whether the client is connected.  On an
  open plain connection a plain \<open>connect\<close> is refused and changes nothing, but a TLS
  \<open>connect\<close> is not: it starts a second connection, and the open one, still the client's
  pcb, no longer counts as connected, so nothing can be sent on it.
\<close>

lemma tls_connect_breaks_plain_connection:
  assumes "c_pcb s = Some p" "connected en s" "\<not> use_tls s" "\<not> handshake_done s"
    and "e_new en (log s) = Some q"
  shows "connect_ip en a n False s = (False, s)
     \<and> (\<exists>r s'. connect_ip en a n True s = (r, s') \<and> c_pcb s' = Some p
          \<and> A_tcp_connect q a n \<in> set (log s') \<and> \<not> connected en' s' \<and> space en' s' = 0)"
  using assms by (simp add: connect_ip_def Let_def log_defs connected_def space_def)

lemma tls_connect_breaks_plain_connection_witness:
  "fst (connect_ip quiet_env 1 443 False plain0) = False
     \<and> A_tcp_connect 7 1 443 \<in> set (log (snd (connect_ip quiet_env 1 443 True plain0)))"
proof -
  have "c_pcb plain0 = Some 1" "connected quiet_env plain0" "\<not> use_tls plain0"
    "\<not> handshake_done plain0" "e_new quiet_env (log plain0) = Some 7"
    by (simp_all add: plain0_def mem0_def quiet_env_def connected_def)
  from tls_connect_breaks_plain_connection [OF this, of 1 443 quiet_env] show ?thesis by auto
qed

end
