(* ===== verification/Buffer.thy ===== *)
theory Buffer
  imports ClientSecure
begin

text \<open>
  \<open>AsyncTCPBuffer\<close> (ESPAsyncTCPBuffer.h/.cpp): a send queue and a receive buffer on top of
  an \<open>AsyncClient\<close>.  Its byte buffers are \<open>cbuf\<close>s of the Arduino core, which is not under
  src/: their operations are the parameter \<open>ops\<close>, and the laws the code relies on are the
  locale \<open>cbuf_fifo\<close>.  The client is the model of theory Client; the buffer is modelled on
  a plain client, whose \<open>write\<close> runs no handler.
\<close>

section \<open>The byte buffers of the Arduino core\<close>

record 'b cbuf_ops =
  cb_new :: "nat \<Rightarrow> 'b"
  cb_available :: "'b \<Rightarrow> nat"
  cb_empty :: "'b \<Rightarrow> bool"
  cb_full :: "'b \<Rightarrow> bool"
  cb_room :: "'b \<Rightarrow> nat"
  cb_write :: "byte list \<Rightarrow> 'b \<Rightarrow> nat \<times> 'b"
  cb_peek :: "nat \<Rightarrow> 'b \<Rightarrow> byte list"
  cb_remove :: "nat \<Rightarrow> 'b \<Rightarrow> 'b"
  cb_read :: "nat \<Rightarrow> 'b \<Rightarrow> byte list \<times> 'b"
  cb_get :: "'b \<Rightarrow> byte \<times> 'b"
  cb_resize :: "nat \<Rightarrow> 'b \<Rightarrow> 'b"
  cb_resizeAdd :: "nat \<Rightarrow> 'b \<Rightarrow> 'b"
  free_heap :: "hist \<Rightarrow> nat"     \<comment> \<open>\<open>ESP.getFreeHeap()\<close>\<close>

text \<open>
  What \<open>cbuf\<close> promises: a bounded first-in first-out queue of bytes \<open>\<alpha> b\<close>.  A resize keeps
  the contents.  Whether \<open>resizeAdd\<close> makes room is left open: it allocates memory and changes
  nothing when that fails; a \<open>cbuf\<close> that always gets the memory is \<open>cbuf_growing\<close>.
\<close>

locale cbuf_fifo =
  fixes ops :: "'b cbuf_ops"
    and \<alpha> :: "'b \<Rightarrow> byte list"
  assumes new: "\<alpha> (cb_new ops n) = []" "1 < n \<Longrightarrow> 0 < cb_room ops (cb_new ops n)"
    and available: "cb_available ops b = length (\<alpha> b)"
    and empty: "cb_empty ops b = (\<alpha> b = [])"
    and full: "cb_full ops b = (cb_room ops b = 0)"
    and put: "cb_write ops bs b = (k, b') \<Longrightarrow>
        k = min (length bs) (cb_room ops b) \<and> \<alpha> b' = \<alpha> b @ take k bs"
    and peek: "cb_peek ops n b = take n (\<alpha> b)"
    and remove: "\<alpha> (cb_remove ops n b) = drop n (\<alpha> b)"
    and read: "cb_read ops n b = (bs, b') \<Longrightarrow> bs = take n (\<alpha> b) \<and> \<alpha> b' = drop n (\<alpha> b)"
    and get: "\<alpha> b = x # xs \<Longrightarrow> cb_get ops b = (y, b') \<Longrightarrow> y = x \<and> \<alpha> b' = xs"
    and resize: "\<alpha> b = [] \<Longrightarrow> \<alpha> (cb_resize ops n b) = []"
    and resizeAdd: "\<alpha> (cb_resizeAdd ops n b) = \<alpha> b"
begin

lemma put_all: "length bs \<le> cb_room ops b \<Longrightarrow> \<alpha> (snd (cb_write ops bs b)) = \<alpha> b @ bs"
  using put [of bs b "fst (cb_write ops bs b)" "snd (cb_write ops bs b)"] by simp

lemma get_all: "\<alpha> b = x # xs \<Longrightarrow> fst (cb_get ops b) = x \<and> \<alpha> (snd (cb_get ops b)) = xs"
  using get [of b x xs "fst (cb_get ops b)" "snd (cb_get ops b)"] by simp

lemma read_all: "fst (cb_read ops n b) = take n (\<alpha> b)" "\<alpha> (snd (cb_read ops n b)) = drop n (\<alpha> b)"
  using read [of n b "fst (cb_read ops n b)" "snd (cb_read ops n b)"] by simp_all

end

definition grows :: "'b cbuf_ops \<Rightarrow> bool" where
  "grows ops \<longleftrightarrow> (\<forall>b n. cb_room ops b + n \<le> cb_room ops (cb_resizeAdd ops n b))"

locale cbuf_growing = cbuf_fifo ops \<alpha> for ops :: "'b cbuf_ops" and \<alpha> :: "'b \<Rightarrow> byte list" +
  assumes resize_grows: "grows ops"

text \<open>
  An instance to evaluate on: a list with its size; like \<open>cbuf\<close>, it holds one byte less
  than its size.
\<close>

definition list_cbuf :: "(nat \<times> byte list) cbuf_ops" where
  "list_cbuf = \<lparr>
     cb_new = (\<lambda>n. (n - 1, [])), cb_available = (\<lambda>(n, xs). length xs),
     cb_empty = (\<lambda>(n, xs). xs = []), cb_full = (\<lambda>(n, xs). n \<le> length xs),
     cb_room = (\<lambda>(n, xs). n - length xs),
     cb_write = (\<lambda>bs (n, xs). let k = min (length bs) (n - length xs) in (k, (n, xs @ take k bs))),
     cb_peek = (\<lambda>k (n, xs). take k xs), cb_remove = (\<lambda>k (n, xs). (n, drop k xs)),
     cb_read = (\<lambda>k (n, xs). (take k xs, (n, drop k xs))),
     cb_get = (\<lambda>(n, xs). (hd xs, (n, tl xs))),
     cb_resize = (\<lambda>m (n, xs). if m \<le> length xs then (n, xs) else (m - 1, xs)),
     cb_resizeAdd = (\<lambda>m (n, xs). (max n (length xs) + m, xs)), free_heap = (\<lambda>h. 20000)\<rparr>"

interpretation list_cbuf: cbuf_growing list_cbuf snd
  by unfold_locales (auto simp: list_cbuf_def grows_def Let_def split: prod.splits if_splits)

text \<open>The same without memory for a larger one.\<close>

definition fixed_cbuf :: "(nat \<times> byte list) cbuf_ops" where
  "fixed_cbuf = list_cbuf\<lparr>cb_resizeAdd := (\<lambda>m c. c)\<rparr>"

interpretation fixed_cbuf: cbuf_fifo fixed_cbuf snd
  by unfold_locales (auto simp: fixed_cbuf_def list_cbuf_def Let_def split: prod.splits if_splits)

section \<open>State\<close>

datatype rx_mode = RX_NONE | RX_FREE | RX_READ_BYTES | RX_TERMINATOR | RX_TERMINATOR_STRING

text \<open>
  What the buffer does to the outside on the receiving side, newest first: calls of the
  user's callbacks (\<open>BE_rx bs n\<close>: \<open>_cbRX\<close> was given \<open>bs\<close> and returned \<open>n\<close>), bytes stored
  through \<open>_rxReadBytesPtr\<close>, characters appended to \<open>*_rxReadStringPtr\<close>, and terminators,
  which are dropped.
\<close>

datatype buf_ev =
    BE_rx "byte list" nat
  | BE_store "byte list"
  | BE_char byte
  | BE_term byte
  | BE_done bool
  | BE_disconnect

text \<open>
  \<open>b_tx\<close> is the chain from \<open>_TXbufferRead\<close> to \<open>_TXbufferWrite\<close>; \<open>b_client\<close>: \<open>_client\<close> is not
  NULL; \<open>b_conn\<close> is the client object; \<open>b_dest\<close>, \<open>b_str\<close>: the two result pointers are not
  NULL; \<open>b_alive\<close>: the buffer was not deleted.
\<close>

record 'b abuf =
  b_conn :: conn
  b_client :: bool
  b_tx :: "'b list"
  b_rx :: "'b option"
  b_mode :: rx_mode
  b_size :: nat
  b_term :: byte
  b_dest :: bool
  b_str :: bool
  b_cb_rx :: bool
  b_cb_done :: bool
  b_cb_disc :: bool
  b_alive :: bool
  b_out :: "buf_ev list"

text \<open>The user's callbacks; they may call the buffer again.\<close>

record 'b buf_user =
  u_rx :: "byte list \<Rightarrow> 'b abuf \<Rightarrow> (nat \<times> 'b abuf) res"
  u_done :: "bool \<Rightarrow> 'b abuf \<Rightarrow> 'b abuf res"
  u_disc :: "'b abuf \<Rightarrow> (bool \<times> 'b abuf) res"

definition b_touch :: "'b abuf \<Rightarrow> 'c res \<Rightarrow> 'c res" where
  "b_touch b r = (if b_alive b then r else Inl Use_after_free)"

definition b_emit :: "buf_ev \<Rightarrow> 'b abuf \<Rightarrow> 'b abuf" where
  "b_emit e b = b\<lparr>b_out := e # b_out b\<rparr>"

section \<open>Construction\<close>

text \<open>
  The constructor panics on a NULL client; each \<open>cbuf\<close> may fail to be allocated, which
  leaves a NULL pointer.  \<open>_attachCallbacks\<close> installs five handlers in the client.
\<close>

definition attachCallbacks :: "conn \<Rightarrow> conn" where
  "attachCallbacks s = set_handler H_timeout True (set_handler H_data True
     (set_handler H_disconnect True (set_handler H_ack True (set_handler H_poll True s))))"

definition new_buffer :: "env \<Rightarrow> 'b cbuf_ops \<Rightarrow> conn option \<Rightarrow> 'b abuf res" where
  "new_buffer en ops client = (case client of None \<Rightarrow> Inl Panic
   | Some s \<Rightarrow> Inr \<lparr>b_conn = attachCallbacks (emits [A_alloc TCP_MSS, A_alloc 100] s), b_client = True,
       b_tx = (if e_alloc en (log s) then [cb_new ops TCP_MSS] else []),
       b_rx = (if e_alloc en (A_alloc TCP_MSS # log s) then Some (cb_new ops 100) else None),
       b_mode = RX_FREE, b_size = 0, b_term = 0, b_dest = False, b_str = False,
       b_cb_rx = False, b_cb_done = False, b_cb_disc = False, b_alive = True, b_out = []\<rparr>)"

section \<open>Sending\<close>

definition buf_connected :: "env \<Rightarrow> 'b abuf \<Rightarrow> bool" where
  "buf_connected en b = (b_client b \<and> connected en (b_conn b))"

text \<open>
  The loop of \<open>_sendBuffer\<close>, with fuel.  \<open>sent\<close> bytes are removed, however many were asked
  for; an emptied buffer is deleted when it is not the last one.
\<close>

fun send_loop :: "nat \<Rightarrow> env \<Rightarrow> user \<Rightarrow> 'b cbuf_ops \<Rightarrow> 'b abuf \<Rightarrow> 'b abuf res" where
  "send_loop 0 en cb ops b = Inl No_return"
| "send_loop (Suc n) en cb ops b = (case b_tx b of [] \<Rightarrow> Inl Null_pointer
   | c # cs \<Rightarrow>
      if \<not> (buf_connected en b \<and> space en (b_conn b) > 0 \<and> cb_available ops c > 0
            \<and> canSend en (b_conn b)) then Inr b
      else let available = cb_available ops c;
               available = (if available > space en (b_conn b) then space en (b_conn b)
                            else available);
               s = emit (A_alloc available) (b_conn b)
           in if \<not> e_alloc en (log (b_conn b)) then Inr (b\<lparr>b_conn := s\<rparr>)
              else rbind (client_write en cb (Some (cb_peek ops available c)) 0 s)
                (\<lambda>(sent, s).
                   let c = cb_remove ops sent c;
                       tx = (if cb_available ops c = 0 \<and> cs \<noteq> [] then cs else c # cs)
                   in send_loop n en cb ops (b\<lparr>b_conn := s, b_tx := tx\<rparr>)))"

definition send_buffer :: "nat \<Rightarrow> env \<Rightarrow> user \<Rightarrow> 'b cbuf_ops \<Rightarrow> 'b abuf \<Rightarrow> 'b abuf res" where
  "send_buffer n en cb ops b = (case b_tx b of [] \<Rightarrow> Inl Null_pointer
   | c # cs \<Rightarrow>
      if cb_available ops c = 0 \<or> \<not> b_client b \<or> \<not> connected en (b_conn b)
         \<or> \<not> canSend en (b_conn b) then Inr b
      else send_loop n en cb ops b)"

text \<open>
  The loop of \<open>write\<close>: fill the last buffer, try to send, and append a new buffer when the
  last one is full and data is left.  It returns the number of bytes taken.
\<close>

fun tx_loop :: "nat \<Rightarrow> env \<Rightarrow> user \<Rightarrow> 'b cbuf_ops \<Rightarrow> nat \<Rightarrow> byte list \<Rightarrow> 'b abuf \<Rightarrow>
    (nat \<times> 'b abuf) res" where
  "tx_loop 0 en cb ops len rest b = Inl No_return"
| "tx_loop (Suc n) en cb ops len rest b =
     (if rest = [] then Inr (len, b)
      else let (w, c) = cb_write ops rest (last (b_tx b));
               rest = drop w rest
           in rbind (send_buffer (Suc n) en cb ops (b\<lparr>b_tx := butlast (b_tx b) @ [c]\<rparr>)) (\<lambda>b.
                if cb_full ops (last (b_tx b)) \<and> rest \<noteq> [] then
                  if free_heap ops (log (b_conn b)) < 4096 then Inr (len - length rest, b)
                  else if \<not> e_alloc en (log (b_conn b)) then Inl Panic
                  else tx_loop n en cb ops len rest
                    (b\<lparr>b_tx := b_tx b @ [cb_new ops TCP_MSS],
                        b_conn := emit (A_alloc TCP_MSS) (b_conn b)\<rparr>)
                else tx_loop n en cb ops len rest b))"

definition buf_write ::
  "nat \<Rightarrow> env \<Rightarrow> user \<Rightarrow> 'b cbuf_ops \<Rightarrow> byte list option \<Rightarrow> 'b abuf \<Rightarrow> (nat \<times> 'b abuf) res" where
  "buf_write n en cb ops data b = (case data of None \<Rightarrow> Inr (0, b)
   | Some bs \<Rightarrow>
      if b_tx b = [] \<or> \<not> b_client b \<or> \<not> connected en (b_conn b) \<or> bs = [] then Inr (0, b)
      else tx_loop n en cb ops (length bs) bs b)"

text \<open>
  \<open>flush\<close>: \<open>yield\<close> stands for \<open>delay(0)\<close>, in which lwIP runs and may call the handlers of
  the client and of the buffer.
\<close>

fun flush_wait :: "nat \<Rightarrow> env \<Rightarrow> ('b abuf \<Rightarrow> 'b abuf res) \<Rightarrow> 'b abuf \<Rightarrow> 'b abuf res" where
  "flush_wait 0 en yield b = Inl No_return"
| "flush_wait (Suc n) en yield b =
     (if buf_connected en b \<and> \<not> canSend en (b_conn b) then rbind (yield b) (flush_wait n en yield)
      else Inr b)"

fun buf_flush ::
  "nat \<Rightarrow> env \<Rightarrow> user \<Rightarrow> 'b cbuf_ops \<Rightarrow> ('b abuf \<Rightarrow> 'b abuf res) \<Rightarrow> 'b abuf \<Rightarrow> 'b abuf res" where
  "buf_flush 0 en cb ops yield b = Inl No_return"
| "buf_flush (Suc n) en cb ops yield b =
     (if b_tx b = [] then Inl Null_pointer
      else if cb_empty ops (last (b_tx b)) then Inr b
      else rbind (flush_wait (Suc n) en yield b) (\<lambda>b.
             if \<not> buf_connected en b then Inr b
             else rbind (send_buffer (Suc n) en cb ops b) (buf_flush n en cb ops yield)))"

section \<open>Receiving\<close>

text \<open>
  \<open>_handleRxBuffer\<close>, one definition per mode; the argument is \<open>(buf, len)\<close>, \<open>None\<close> for
  \<open>(NULL, 0)\<close>, and the result is the number of bytes of it that were handled.
\<close>

definition rx_free ::
  "env \<Rightarrow> 'b cbuf_ops \<Rightarrow> 'b buf_user \<Rightarrow> 'b \<Rightarrow> byte list option \<Rightarrow> 'b abuf \<Rightarrow> (nat \<times> 'b abuf) res" where
  "rx_free en ops u c buf b =
     (if \<not> b_cb_rx b then Inr (0, b)
      else let n = cb_available ops c in
        rbind (if n > 0 then
                 let s = emit (A_alloc n) (b_conn b) in
                 if \<not> e_alloc en (log (b_conn b)) then Inl Panic
                 else rbind (u_rx u (cb_peek ops n c) (b\<lparr>b_conn := s\<rparr>)) (\<lambda>(r, b). b_touch b
                   (case b_rx b of None \<Rightarrow> Inl Null_pointer
                    | Some c' \<Rightarrow> Inr (r, b_emit (BE_rx (cb_peek ops n c) r)
                                      (b\<lparr>b_rx := Some (cb_remove ops r c')\<rparr>))))
               else Inr (0, b))
          (\<lambda>(r, b). case buf of
             Some d \<Rightarrow>
               if r = n \<and> d \<noteq> []
               then rbind (u_rx u d b) (\<lambda>(k, b). Inr (k, b_emit (BE_rx d k) b))
               else Inr (0, b)
           | None \<Rightarrow> Inr (0, b)))"

definition rx_read ::
  "'b cbuf_ops \<Rightarrow> 'b buf_user \<Rightarrow> 'b \<Rightarrow> byte list option \<Rightarrow> 'b abuf \<Rightarrow> (nat \<times> 'b abuf) res" where
  "rx_read ops u c buf b =
     (if \<not> b_dest b \<or> \<not> b_cb_done b then Inr (0, b)
      else let (c, b) = (if cb_available ops c > 0
                         then let (bs, c) = cb_read ops (b_size b) c
                              in (c, b_emit (BE_store bs)
                                     (b\<lparr>b_size := b_size b - length bs, b_rx := Some c\<rparr>))
                         else (c, b));
               (r, b) = (case buf of
                           Some d \<Rightarrow>
                             if cb_empty ops c \<and> d \<noteq> []
                             then let r = (if length d > b_size b then b_size b else length d)
                                  in (r, b_emit (BE_store (take r d)) (b\<lparr>b_size := b_size b - r\<rparr>))
                             else (0, b)
                         | None \<Rightarrow> (0, b))
           in if b_size b = 0
              then rbind (u_done u True (b_emit (BE_done True) (b\<lparr>b_mode := RX_NONE\<rparr>)))
                     (\<lambda>b. Inr (r, b))
              else Inr (r, b))"

text \<open>The loop over the buffered characters; \<open>True\<close>: the terminator (or a NUL) was found.\<close>

fun str_drain :: "nat \<Rightarrow> 'b cbuf_ops \<Rightarrow> byte \<Rightarrow> 'b \<Rightarrow> buf_ev list \<Rightarrow> (bool \<times> 'b \<times> buf_ev list) res" where
  "str_drain 0 ops t c out = Inl No_return"
| "str_drain (Suc n) ops t c out =
     (if cb_empty ops c then Inr (False, c, out)
      else let (x, c) = cb_get ops c in
        if x = t \<or> x = 0 then Inr (True, c, BE_term x # out)
        else str_drain n ops t c (BE_char x # out))"

text \<open>The loop over the characters just received, with \<open>newReadCount\<close>.\<close>

fun str_scan :: "byte \<Rightarrow> byte list \<Rightarrow> nat \<Rightarrow> buf_ev list \<Rightarrow> bool \<times> nat \<times> buf_ev list" where
  "str_scan t [] k out = (False, k, out)"
| "str_scan t (x # xs) k out =
     (if x = t \<or> x = 0 then (True, k + 1, BE_term x # out)
      else str_scan t xs (k + 1) (BE_char x # out))"

definition rx_string ::
  "'b cbuf_ops \<Rightarrow> 'b buf_user \<Rightarrow> 'b \<Rightarrow> byte list option \<Rightarrow> 'b abuf \<Rightarrow> (nat \<times> 'b abuf) res" where
  "rx_string ops u c buf b =
     (if \<not> b_str b \<or> \<not> b_cb_done b then Inr (0, b)
      else rbind (str_drain (Suc (cb_available ops c)) ops (b_term b) c (b_out b))
        (\<lambda>(found, c, out).
           let b = b\<lparr>b_rx := Some c, b_out := out\<rparr> in
           if found
           then rbind (u_done u True (b_emit (BE_done True) (b\<lparr>b_mode := RX_NONE\<rparr>)))
                  (\<lambda>b. Inr (0, b))
           else (case buf of
             Some d \<Rightarrow>
               if cb_empty ops c \<and> d \<noteq> []
               then let (found, k, out) = str_scan (b_term b) d 0 (b_out b);
                        b = b\<lparr>b_out := out\<rparr>
                    in if found
                       then rbind (u_done u True (b_emit (BE_done True) (b\<lparr>b_mode := RX_NONE\<rparr>)))
                              (\<lambda>b. Inr (k, b))
                       else Inr (k, b)
               else Inr (0, b)
           | None \<Rightarrow> Inr (0, b))))"

definition handle_rx ::
  "env \<Rightarrow> 'b cbuf_ops \<Rightarrow> 'b buf_user \<Rightarrow> byte list option \<Rightarrow> 'b abuf \<Rightarrow> (nat \<times> 'b abuf) res" where
  "handle_rx en ops u buf b = (case b_rx b of None \<Rightarrow> Inr (0, b)
   | Some c \<Rightarrow>
      if \<not> b_client b \<or> \<not> connected en (b_conn b) then Inr (0, b)
      else (case b_mode b of
          RX_NONE \<Rightarrow> Inr (0, b)
        | RX_FREE \<Rightarrow> rx_free en ops u c buf b
        | RX_READ_BYTES \<Rightarrow> rx_read ops u c buf b
        | RX_TERMINATOR \<Rightarrow> Inr (0, b)
        | RX_TERMINATOR_STRING \<Rightarrow> rx_string ops u c buf b))"

text \<open>
  \<open>_rxData\<close>: hand over what the mode asks for (\<open>rx_handle\<close>), store the rest (\<open>rx_keep\<close>),
  hand over from the receive buffer (\<open>rx_drain\<close>), and shrink it (\<open>rx_clean\<close>).  \<open>rx_more\<close> is
  the first loop, before the receive buffer is used, \<open>rx_again\<close> the second one (with
  \<open>(NULL, 0)\<close>), with fuel.
\<close>

definition advance :: "nat \<Rightarrow> byte list \<Rightarrow> (byte list \<Rightarrow> 'c res) \<Rightarrow> 'c res" where
  "advance h d f = (if h > length d then Inl Out_of_bounds else f (drop h d))"

function rx_more ::
  "env \<Rightarrow> 'b cbuf_ops \<Rightarrow> 'b buf_user \<Rightarrow> nat \<Rightarrow> byte list \<Rightarrow> 'b abuf \<Rightarrow> (byte list \<times> 'b abuf) res" where
  "rx_more en ops u handled d b =
     (if b_mode b \<noteq> RX_NONE \<and> handled \<noteq> 0 \<and> d \<noteq> [] then
        rbind (handle_rx en ops u (Some d) b) (\<lambda>(h, b). b_touch b
          (if h > length d then Inl Out_of_bounds
           else if h = 0 then Inr (d, b)
           else rx_more en ops u h (drop h d) b))
      else Inr (d, b))"
  by pat_completeness auto
termination
  by (relation "measure (\<lambda>(en, ops, u, h, d, b). length d)") auto

declare rx_more.simps [simp del]

fun rx_again :: "nat \<Rightarrow> env \<Rightarrow> 'b cbuf_ops \<Rightarrow> 'b buf_user \<Rightarrow> nat \<Rightarrow> 'b abuf \<Rightarrow> 'b abuf res" where
  "rx_again 0 en ops u handled b = Inl No_return"
| "rx_again (Suc n) en ops u handled b =
     (if b_mode b \<noteq> RX_NONE \<and> handled \<noteq> 0
      then rbind (handle_rx en ops u None b) (\<lambda>(h, b). b_touch b (rx_again n en ops u h b))
      else Inr b)"

text \<open>Access to \<open>_RXbuffer\<close>.\<close>

definition with_rx :: "'b abuf \<Rightarrow> ('b \<Rightarrow> 'c res) \<Rightarrow> 'c res" where
  "with_rx b f = (case b_rx b of None \<Rightarrow> Inl Null_pointer | Some c \<Rightarrow> f c)"

definition rx_store :: "'b cbuf_ops \<Rightarrow> byte list \<Rightarrow> 'b \<Rightarrow> 'b" where
  "rx_store ops d c =
     (let c = (if cb_room ops c < length d then cb_resizeAdd ops (length d + cb_room ops c) c else c)
      in snd (cb_write ops d c))"

definition rx_handle ::
  "env \<Rightarrow> 'b cbuf_ops \<Rightarrow> 'b buf_user \<Rightarrow> byte list \<Rightarrow> 'b abuf \<Rightarrow> (byte list \<times> 'b abuf) res" where
  "rx_handle en ops u d b =
     (if b_mode b \<noteq> RX_NONE
      then rbind (handle_rx en ops u (Some d) b) (\<lambda>(h, b). b_touch b
             (advance h d (\<lambda>d. with_rx b (\<lambda>c.
                if cb_empty ops c then rx_more en ops u h d b else Inr (d, b)))))
      else Inr (d, b))"

definition rx_keep :: "'b cbuf_ops \<Rightarrow> byte list \<Rightarrow> 'b abuf \<Rightarrow> 'b abuf res" where
  "rx_keep ops d b =
     (if d \<noteq> [] then with_rx b (\<lambda>c. Inr (b\<lparr>b_rx := Some (rx_store ops d c)\<rparr>)) else Inr b)"

definition rx_drain :: "env \<Rightarrow> 'b cbuf_ops \<Rightarrow> 'b buf_user \<Rightarrow> 'b abuf \<Rightarrow> 'b abuf res" where
  "rx_drain en ops u b = with_rx b (\<lambda>c.
     if \<not> cb_empty ops c \<and> b_mode b \<noteq> RX_NONE
     then rbind (handle_rx en ops u None b) (\<lambda>(h, b). b_touch b
            (rx_again (loop_fuel en) en ops u h b))
     else Inr b)"

definition rx_clean :: "'b cbuf_ops \<Rightarrow> 'b abuf \<Rightarrow> 'b abuf res" where
  "rx_clean ops b = with_rx b (\<lambda>c.
     Inr (if cb_empty ops c \<and> cb_room ops c \<noteq> 100 then b\<lparr>b_rx := Some (cb_resize ops 100 c)\<rparr>
          else b))"

definition rx_data ::
  "env \<Rightarrow> 'b cbuf_ops \<Rightarrow> 'b buf_user \<Rightarrow> byte list \<Rightarrow> 'b abuf \<Rightarrow> 'b abuf res" where
  "rx_data en ops u d b =
     (if \<not> b_client b \<or> \<not> connected en (b_conn b) \<or> b_rx b = None then Inr b
      else rbind (rx_handle en ops u d b) (\<lambda>(d, b).
           rbind (rx_keep ops d b) (\<lambda>b.
           rbind (rx_drain en ops u b) (rx_clean ops))))"

section \<open>The rest of the API\<close>

definition noCallback :: "'b abuf \<Rightarrow> 'b abuf" where
  "noCallback b = b\<lparr>b_mode := RX_NONE\<rparr>"

text \<open>\<open>str\<close>, \<open>dest\<close>, \<open>done\<close>: whether the pointer (the function) passed is not NULL.\<close>

definition readStringUntil :: "byte \<Rightarrow> bool \<Rightarrow> bool \<Rightarrow> 'b abuf \<Rightarrow> 'b abuf" where
  "readStringUntil terminator str don b =
     (if \<not> b_client b then b
      else b\<lparr>b_cb_done := don, b_str := str, b_term := terminator, b_size := 0,
             b_mode := RX_TERMINATOR_STRING\<rparr>)"

definition readBytes :: "bool \<Rightarrow> nat \<Rightarrow> bool \<Rightarrow> 'b abuf \<Rightarrow> 'b abuf" where
  "readBytes dest len don b =
     (if \<not> b_client b then b
      else b\<lparr>b_cb_done := don, b_dest := dest, b_size := len, b_mode := RX_READ_BYTES\<rparr>)"

definition buf_onData :: "bool \<Rightarrow> 'b abuf \<Rightarrow> 'b abuf" where
  "buf_onData f b =
     (if \<not> b_client b then b else b\<lparr>b_cb_done := False, b_cb_rx := f, b_mode := RX_FREE\<rparr>)"

definition buf_onDisconnect :: "bool \<Rightarrow> 'b abuf \<Rightarrow> 'b abuf" where
  "buf_onDisconnect f b = b\<lparr>b_cb_disc := f\<rparr>"

definition buf_stop :: "env \<Rightarrow> user \<Rightarrow> 'b buf_user \<Rightarrow> 'b abuf \<Rightarrow> 'b abuf res" where
  "buf_stop en cb u b =
     (if \<not> b_client b then Inr b
      else rbind (close en cb False (b_conn b)) (\<lambda>s.
        let b = b\<lparr>b_conn := s, b_client := False\<rparr> in
        rbind (if b_cb_done b \<and> b_mode b \<in> {RX_READ_BYTES, RX_TERMINATOR, RX_TERMINATOR_STRING}
               then u_done u False (b_emit (BE_done False) (b\<lparr>b_mode := RX_NONE\<rparr>))
               else Inr b) (\<lambda>b. b_touch b (Inr (b\<lparr>b_mode := RX_NONE\<rparr>)))))"

definition delete_buffer :: "env \<Rightarrow> user \<Rightarrow> 'b abuf \<Rightarrow> 'b abuf res" where
  "delete_buffer en cb b = b_touch b
     (rbind (if b_client b then close en cb False (b_conn b) else Inr (b_conn b)) (\<lambda>s.
        Inr (b\<lparr>b_conn := s, b_rx := None, b_tx := [], b_alive := False\<rparr>)))"

section \<open>The handlers installed in the client\<close>

definition on_poll :: "nat \<Rightarrow> env \<Rightarrow> user \<Rightarrow> 'b cbuf_ops \<Rightarrow> 'b abuf \<Rightarrow> 'b abuf res" where
  "on_poll n en cb ops b = b_touch b (case b_tx b of [] \<Rightarrow> Inr b
     | c # cs \<Rightarrow> if \<not> cb_empty ops c then send_buffer n en cb ops b else Inr b)"

definition on_ack :: "nat \<Rightarrow> env \<Rightarrow> user \<Rightarrow> 'b cbuf_ops \<Rightarrow> 'b abuf \<Rightarrow> 'b abuf res" where
  "on_ack n en cb ops b = b_touch b (send_buffer n en cb ops b)"

definition on_data :: "env \<Rightarrow> 'b cbuf_ops \<Rightarrow> 'b buf_user \<Rightarrow> byte list \<Rightarrow> 'b abuf \<Rightarrow> 'b abuf res" where
  "on_data en ops u d b = b_touch b (rx_data en ops u d b)"

definition on_timeout :: "env \<Rightarrow> user \<Rightarrow> 'b abuf \<Rightarrow> 'b abuf res" where
  "on_timeout en cb b = rbind (close en cb False (b_conn b)) (\<lambda>s. Inr (b\<lparr>b_conn := s\<rparr>))"

definition on_disconnect :: "env \<Rightarrow> user \<Rightarrow> 'b buf_user \<Rightarrow> 'b abuf \<Rightarrow> 'b abuf res" where
  "on_disconnect en cb u b = b_touch b
     (let b = b\<lparr>b_client := False\<rparr> in
      rbind (if b_cb_disc b then u_disc u (b_emit BE_disconnect b) else Inr (True, b)) (\<lambda>(del, b).
        rbind (delete_client en cb (b_conn b)) (\<lambda>s.
          let b = b\<lparr>b_conn := s\<rparr> in if del then delete_buffer en cb b else Inr b)))"

end
