(* ===== verification/BufferTx.thy ===== *)
theory BufferTx
  imports Buffer
begin

text \<open>
  The sending side of \<open>AsyncTCPBuffer\<close>: it refines an unbounded queue.  The abstraction of
  a state is the stream of bytes handed to lwIP followed by the bytes still queued; every
  operation appends exactly the bytes it reports as taken.
\<close>

section \<open>The stream\<close>

primrec written :: "pcb \<Rightarrow> hist \<Rightarrow> byte list" where
  "written p [] = []"
| "written p (a # h) = (case a of A_tcp_write q bs f \<Rightarrow> if q = p then written p h @ bs else written p h
                        | _ \<Rightarrow> written p h)"

text \<open>
  A platform on which queueing and flushing succeed, memory does not run out, and
  allocating memory does not change the state of a connection.
\<close>

definition sends_succeed :: "env \<Rightarrow> bool" where
  "sends_succeed en \<longleftrightarrow> (\<forall>h. e_write en h = ERR_OK \<and> e_output en h = ERR_OK \<and> e_alloc en h
     \<and> (\<forall>n p. e_sndbuf en (A_alloc n # h) p = e_sndbuf en h p
           \<and> e_state en (A_alloc n # h) p = e_state en h p))"

lemma sends_succeed_space:
  "sends_succeed en \<Longrightarrow> space en (emit (A_alloc n) s) = space en s"
  by (cases "c_pcb s") (auto simp: sends_succeed_def space_def connected_def emit_def Let_def)

definition tx_ready :: "pcb \<Rightarrow> 'b abuf \<Rightarrow> bool" where
  "tx_ready p b \<longleftrightarrow> b_client b \<and> b_alive b \<and> b_tx b \<noteq> [] \<and> c_pcb (b_conn b) = Some p
     \<and> \<not> use_tls (b_conn b) \<and> life (b_conn b) = Alive"

lemma client_write_sends:
  assumes "sends_succeed en" "\<not> use_tls s" "c_pcb s = Some p" "life s = Alive"
    and "out \<noteq> []" "length out \<le> space en s"
  obtains s' where "client_write en cb (Some out) 0 s = Inr (length out, s')"
    and "written p (log s') = written p (log s) @ out"
    and "c_pcb s' = Some p" "\<not> use_tls s'" "life s' = Alive" "pcb_busy s'"
    and "tx_unacked_len s' = tx_unacked_len s + of_nat (length out)"
proof -
  let ?s' = "s\<lparr>log := A_millis # A_tcp_output (Some p) # A_tcp_write p out 0 # log s,
     tx_unacked_len := tx_unacked_len s + of_nat (length out), pcb_busy := True,
     pcb_sent_at := e_millis en (A_tcp_output (Some p) # A_tcp_write p out 0 # log s)\<rparr>"
  have "0 < space en s" using assms(5,6) by (cases out) auto
  with assms have "client_write en cb (Some out) 0 s = Inr (length out, ?s')"
    by (simp add: client_write_def add_def send_def touch_def Let_def log_defs sends_succeed_def)
  then show thesis by (rule that) (use assms in simp_all)
qed

lemma unat_add_le: "unat (x + of_nat k :: u32) \<le> unat x + k"
  by (simp add: unat_word_ariths unat_of_nat)

section \<open>The send loop\<close>

text \<open>The bytes handed to lwIP, then the bytes queued.\<close>

definition tx_stream :: "('b \<Rightarrow> byte list) \<Rightarrow> pcb \<Rightarrow> 'b abuf \<Rightarrow> byte list" where
  "tx_stream \<alpha> p b = written p (log (b_conn b)) @ concat (map \<alpha> (b_tx b))"

text \<open>The bytes queued here and in lwIP.\<close>

definition tx_pending :: "('b \<Rightarrow> byte list) \<Rightarrow> 'b abuf \<Rightarrow> nat" where
  "tx_pending \<alpha> b = unat (tx_unacked_len (b_conn b)) + length (concat (map \<alpha> (b_tx b)))"

definition tx_measure :: "'b cbuf_ops \<Rightarrow> byte list \<Rightarrow> 'b abuf \<Rightarrow> nat" where
  "tx_measure ops rest b = 2 * length rest + (if cb_full ops (last (b_tx b)) then 1 else 0)"

context cbuf_fifo
begin

abbreviation stream :: "pcb \<Rightarrow> 'b abuf \<Rightarrow> byte list" where
  "stream \<equiv> tx_stream \<alpha>"

text \<open>One round sends what fits of the first \<open>cbuf\<close>; then the client is busy.\<close>

lemma send_loop_sends:
  assumes "sends_succeed en" "tx_ready p b"
  shows "\<exists>b'. send_loop (Suc (Suc n)) en cb ops b = Inr b' \<and> tx_ready p b' \<and> stream p b' = stream p b
    \<and> tx_pending \<alpha> b' \<le> tx_pending \<alpha> b
    \<and> (buf_connected en b \<and> canSend en (b_conn b) \<and> \<alpha> (hd (b_tx b)) \<noteq> [] \<longrightarrow>
        written p (log (b_conn b')) =
        written p (log (b_conn b)) @ take (space en (b_conn b)) (\<alpha> (hd (b_tx b))))"
proof -
  from assms(2) obtain c cs where tx: "b_tx b = c # cs" by (auto simp: tx_ready_def neq_Nil_conv)
  let ?s = "b_conn b"
  show ?thesis
  proof (cases "buf_connected en b \<and> space en ?s > 0 \<and> cb_available ops c > 0 \<and> canSend en ?s")
    case False
    with tx assms(2) show ?thesis by (auto simp: canSend_def available)
  next
    case True
    let ?n = "if cb_available ops c > space en ?s then space en ?s else cb_available ops c"
    let ?out = "cb_peek ops ?n c"
    have n: "length ?out = ?n" "?n \<le> space en ?s" "0 < ?n" "?out = take ?n (\<alpha> c)"
      "?out = take (space en ?s) (\<alpha> c)"
      using True by (auto simp: peek available)
    then have "?out \<noteq> []" by auto
    let ?u = "emit (A_alloc ?n) ?s"
    have u: "\<not> use_tls ?u" "c_pcb ?u = Some p" "life ?u = Alive" "length ?out \<le> space en ?u"
      using assms n sends_succeed_space [OF assms(1)] by (simp_all add: tx_ready_def emit_def)
    from client_write_sends [OF assms(1) u(1-3) \<open>?out \<noteq> []\<close> u(4), of cb] obtain t where
      w: "client_write en cb (Some ?out) 0 ?u = Inr (length ?out, t)"
      "written p (log t) = written p (log ?u) @ ?out" "c_pcb t = Some p" "\<not> use_tls t"
      "life t = Alive" "pcb_busy t" "tx_unacked_len t = tx_unacked_len ?u + of_nat (length ?out)"
      by blast
    let ?c = "cb_remove ops ?n c"
    let ?b = "b\<lparr>b_conn := t, b_tx := (if cb_available ops ?c = 0 \<and> cs \<noteq> [] then cs else ?c # cs)\<rparr>"
    have "e_alloc en (log ?s)" using assms(1) by (simp add: sends_succeed_def)
    with True tx w(1) n(1) have step: "send_loop (Suc (Suc n)) en cb ops b = send_loop (Suc n) en cb ops ?b"
      by (simp add: Let_def)
    have "send_loop (Suc n) en cb ops ?b = Inr ?b"
      using w(6) by (auto simp: canSend_def split: list.split)
    moreover have "tx_ready p ?b" using assms(2) w by (auto simp: tx_ready_def)
    moreover have "stream p ?b = stream p b"
      using w(2) n(4) tx by (auto simp: tx_stream_def remove available emit_def)
    moreover have "tx_pending \<alpha> ?b \<le> tx_pending \<alpha> b"
      using w(7) n(1) tx True unat_add_le [of "tx_unacked_len ?s" ?n]
      by (auto simp: tx_pending_def remove available emit_def simp del: of_nat_diff split: if_splits)
    moreover have "written p (log t) = written p (log ?s) @ take (space en ?s) (\<alpha> (hd (b_tx b)))"
      using w(2) n(5) tx by (simp add: emit_def)
    ultimately show ?thesis using step by simp
  qed
qed

lemma send_loop_fifo:
  assumes "sends_succeed en" "tx_ready p b"
  shows "\<exists>b'. send_loop (Suc (Suc n)) en cb ops b = Inr b' \<and> tx_ready p b' \<and> stream p b' = stream p b"
  using send_loop_sends [OF assms, of n cb] by blast

lemma send_buffer_fifo:
  assumes "sends_succeed en" "tx_ready p b"
  shows "\<exists>b'. send_buffer (Suc (Suc n)) en cb ops b = Inr b' \<and> tx_ready p b' \<and> stream p b' = stream p b"
proof -
  from assms(2) obtain c cs where "b_tx b = c # cs" by (auto simp: tx_ready_def neq_Nil_conv)
  with send_loop_fifo [OF assms, of n cb] assms(2) show ?thesis
    by (auto simp: send_buffer_def simp del: send_loop.simps)
qed

section \<open>The write loop\<close>

lemma tx_loop_fifo:
  assumes en: "sends_succeed en"
  shows "tx_ready p b \<Longrightarrow> length rest \<le> len \<Longrightarrow> tx_measure ops rest b < n \<Longrightarrow>
    \<exists>k b'. tx_loop n en cb ops len rest b = Inr (k, b') \<and> tx_ready p b'
      \<and> len - length rest \<le> k \<and> k \<le> len
      \<and> stream p b' = stream p b @ take (length rest - (len - k)) rest
      \<and> ((\<forall>h. 4096 \<le> free_heap ops h) \<longrightarrow> k = len)"
proof (induction n arbitrary: rest b)
  case (Suc n)
  show ?case
  proof (cases "rest = []")
    case True
    with Suc.prems show ?thesis by simp
  next
    case False
    obtain w c where wr: "cb_write ops rest (last (b_tx b)) = (w, c)" by fastforce
    let ?rest = "drop w rest"
    let ?b = "b\<lparr>b_tx := butlast (b_tx b) @ [c]\<rparr>"
    from put [OF wr] have w: "w = min (length rest) (cb_room ops (last (b_tx b)))"
      "\<alpha> c = \<alpha> (last (b_tx b)) @ take w rest" by auto
    have tx: "b_tx b \<noteq> []" using Suc.prems(1) by (simp add: tx_ready_def)
    obtain bs where bs: "b_tx b = bs @ [last (b_tx b)]"
      by (rule that [of "butlast (b_tx b)"]) (simp add: tx)
    then have "concat (map \<alpha> (b_tx b)) = concat (map \<alpha> (butlast (b_tx b))) @ \<alpha> (last (b_tx b))"
      by (metis append_Nil2 butlast_snoc concat.simps concat_append list.simps(8,9) map_append)
    then have str: "stream p ?b = stream p b @ take w rest"
      using w(2) by (simp add: tx_stream_def)
    have ready: "tx_ready p ?b" using Suc.prems(1) by (simp add: tx_ready_def)
    obtain m where m: "n = Suc m" using Suc.prems(3) False by (cases n) (auto simp: tx_measure_def)
    from send_buffer_fifo [OF en ready, of m cb] obtain t where
      t: "send_buffer (Suc n) en cb ops ?b = Inr t" "tx_ready p t"
      "stream p t = stream p b @ take w rest" unfolding m str by blast
    have len: "length ?rest \<le> len" "w \<le> length rest"
      using Suc.prems(2) w(1) by auto
    have pos: "0 < length rest" using False by simp
    have dec: "w = 0 \<Longrightarrow> cb_full ops (last (b_tx b))"
      using False w(1) by (simp add: full min_def split: if_splits)
    have ih: "\<exists>k b'. tx_loop n en cb ops len ?rest u = Inr (k, b') \<and> tx_ready p b'
        \<and> len - length rest \<le> k \<and> k \<le> len
        \<and> stream p b' = stream p b @ take (length rest - (len - k)) rest
        \<and> ((\<forall>h. 4096 \<le> free_heap ops h) \<longrightarrow> k = len)"
      if u: "tx_ready p u" "stream p u = stream p b @ take w rest" "tx_measure ops ?rest u < n" for u
    proof -
      from Suc.IH [OF u(1) len(1) u(3)] obtain k b' where
        r: "tx_loop n en cb ops len ?rest u = Inr (k, b')" "tx_ready p b'" "len - length ?rest \<le> k"
          "k \<le> len" "(\<forall>h. 4096 \<le> free_heap ops h) \<longrightarrow> k = len"
        and s: "stream p b' = stream p u @ take (length ?rest - (len - k)) ?rest" by blast
      have "length rest - (len - k) = w + (length ?rest - (len - k))" using r(3,4) len Suc.prems(2) by simp
      then have "take (length rest - (len - k)) rest = take w rest @ take (length ?rest - (len - k)) ?rest"
        by (simp add: take_add)
      with s u(2) have "stream p b' = stream p b @ take (length rest - (len - k)) rest" by simp
      moreover have "len - length rest \<le> k" using r(3) len(2) by simp
      ultimately show ?thesis using r by blast
    qed
    have step: "tx_loop (Suc n) en cb ops len rest b =
        (if cb_full ops (last (b_tx t)) \<and> ?rest \<noteq> [] then
           if free_heap ops (log (b_conn t)) < 4096 then Inr (len - length ?rest, t)
           else tx_loop n en cb ops len ?rest
             (t\<lparr>b_tx := b_tx t @ [cb_new ops TCP_MSS], b_conn := emit (A_alloc TCP_MSS) (b_conn t)\<rparr>)
         else tx_loop n en cb ops len ?rest t)"
      using False wr t(1) en by (auto simp: sends_succeed_def)
    show ?thesis
    proof (cases "cb_full ops (last (b_tx t)) \<and> ?rest \<noteq> []")
      case False
      then have "tx_measure ops ?rest t < n"
        using Suc.prems(3) len(2) dec pos
        by (cases "w = 0") (use m in \<open>auto simp: tx_measure_def split: if_splits\<close>)
      from ih [OF t(2,3) this] show ?thesis using False by (simp only: step if_False)
    next
      case True
      show ?thesis
      proof (cases "free_heap ops (log (b_conn t)) < 4096")
        case low: True
        with step True have "tx_loop (Suc n) en cb ops len rest b = Inr (len - length ?rest, t)" by simp
        moreover have "length rest - (len - (len - length ?rest)) = w" using len Suc.prems(2) by simp
        moreover have "\<not> (\<forall>h. 4096 \<le> free_heap ops h)" using low by (meson not_le)
        ultimately show ?thesis using t(2,3) len by auto
      next
        case heap: False
        let ?u = "t\<lparr>b_tx := b_tx t @ [cb_new ops TCP_MSS], b_conn := emit (A_alloc TCP_MSS) (b_conn t)\<rparr>"
        have "tx_ready p ?u" using t(2) by (simp add: tx_ready_def emit_def)
        moreover have "stream p ?u = stream p b @ take w rest"
          using t(3) by (simp add: tx_stream_def emit_def new(1))
        moreover have "tx_measure ops ?rest ?u < n"
          using Suc.prems(3) len(2) dec pos new(2) [of TCP_MSS]
          by (cases "w = 0") (auto simp: tx_measure_def full TCP_MSS_def split: if_splits)
        ultimately show ?thesis using ih [of ?u] step True heap by simp
      qed
    qed
  qed
qed simp

lemma buf_write_fifo:
  assumes "sends_succeed en" "tx_ready p b" "2 * length bs + 2 \<le> n"
  shows "\<exists>k b'. buf_write n en cb ops (Some bs) b = Inr (k, b') \<and> tx_ready p b' \<and> k \<le> length bs
    \<and> stream p b' = stream p b @ take k bs
    \<and> (connected en (b_conn b) \<and> (\<forall>h. 4096 \<le> free_heap ops h) \<longrightarrow> k = length bs)"
proof (cases "connected en (b_conn b) \<and> bs \<noteq> []")
  case True
  then have eq: "buf_write n en cb ops (Some bs) b = tx_loop n en cb ops (length bs) bs b"
    using assms(2) by (simp add: buf_write_def tx_ready_def)
  have "tx_measure ops bs b < n" using assms(3) by (simp add: tx_measure_def)
  from tx_loop_fifo [OF assms(1,2) order_refl this, of cb] show ?thesis
    unfolding eq by (metis diff_diff_cancel)
next
  case False
  then have "buf_write n en cb ops (Some bs) b = Inr (0, b)"
    by (auto simp: buf_write_def)
  with assms(2) False show ?thesis by auto
qed

end

section \<open>Runs of the sending side\<close>

text \<open>
  The sketch writes; lwIP reports an acknowledgement of \<open>len\<close> bytes (the client's
  \<open>_sent\<close> runs, and its ack handler is the buffer's) or polls.  A run collects the bytes
  \<open>write\<close> reported as taken.
\<close>

datatype tx_ev = Tx_write "byte list" | Tx_sent u16 | Tx_poll

definition tx_step ::
  "nat \<Rightarrow> env \<Rightarrow> 'b cbuf_ops \<Rightarrow> tx_ev \<Rightarrow> 'b abuf \<Rightarrow> (byte list \<times> 'b abuf) res" where
  "tx_step n en ops e b = (let idle = (\<lambda>ev s. Inr s) in case e of
     Tx_write bs \<Rightarrow> rbind (buf_write n en idle ops (Some bs) b) (\<lambda>(k, b). Inr (take k bs, b))
   | Tx_sent len \<Rightarrow> rbind (client_sent en idle len (b_conn b)) (\<lambda>s.
       let b = b\<lparr>b_conn := s\<rparr>
       in rbind (if tx_unacked_len s = 0 \<and> sent_cb s then on_ack n en idle ops b else Inr b)
            (\<lambda>b. Inr ([], b)))
   | Tx_poll \<Rightarrow> rbind (on_poll n en idle ops b) (\<lambda>b. Inr ([], b)))"

fun tx_run ::
  "nat \<Rightarrow> env \<Rightarrow> 'b cbuf_ops \<Rightarrow> tx_ev list \<Rightarrow> 'b abuf \<Rightarrow> (byte list \<times> 'b abuf) res" where
  "tx_run n en ops [] b = Inr ([], b)"
| "tx_run n en ops (e # es) b = rbind (tx_step n en ops e b) (\<lambda>(xs, b).
     rbind (tx_run n en ops es b) (\<lambda>(ys, b). Inr (xs @ ys, b)))"

fun tx_fuel :: "tx_ev \<Rightarrow> nat" where
  "tx_fuel (Tx_write bs) = 2 * length bs + 2"
| "tx_fuel _ = 2"

lemma client_sent_idle:
  assumes "c_pcb s = Some p" "\<not> use_tls s" "life s = Alive"
  shows "\<exists>s'. client_sent en (\<lambda>ev s. Inr s) len s = Inr s' \<and> c_pcb s' = Some p \<and> \<not> use_tls s'
    \<and> life s' = Alive \<and> written p (log s') = written p (log s)"
  using assms by (auto simp: client_sent_def millis_def Let_def invoke_def touch_def
      set_close_error_def emit_def split: if_splits)

context cbuf_fifo
begin

lemma tx_step_fifo:
  assumes "sends_succeed en" "tx_ready p b" "tx_fuel e \<le> n"
  shows "\<exists>xs b'. tx_step n en ops e b = Inr (xs, b') \<and> tx_ready p b' \<and> stream p b' = stream p b @ xs"
proof -
  let ?idle = "\<lambda>ev s. Inr s :: conn res"
  obtain m where n: "n = Suc (Suc m)"
    using assms(3) by (metis (full_types) add_2_eq_Suc le_Suc_ex tx_fuel.elims add.assoc add.commute)
  have send: "\<exists>b'. send_buffer n en ?idle ops u = Inr b' \<and> tx_ready p b' \<and> stream p b' = stream p u"
    if "tx_ready p u" for u
    using send_buffer_fifo [OF assms(1) that] n by blast
  show ?thesis
  proof (cases e)
    case (Tx_write bs)
    with buf_write_fifo [OF assms(1,2), of bs n ?idle] assms(3) show ?thesis
      by (auto simp: tx_step_def)
  next
    case (Tx_sent len)
    from client_sent_idle [of "b_conn b" p en len] assms(2) obtain t where
      t: "client_sent en ?idle len (b_conn b) = Inr t" "c_pcb t = Some p" "\<not> use_tls t" "life t = Alive"
      "written p (log t) = written p (log (b_conn b))"
      by (auto simp: tx_ready_def)
    let ?b = "b\<lparr>b_conn := t\<rparr>"
    have u: "tx_ready p ?b" "stream p ?b = stream p b"
      using t assms(2) by (auto simp: tx_ready_def tx_stream_def)
    from send [OF u(1)] obtain b' where
      "send_buffer n en ?idle ops ?b = Inr b'" "tx_ready p b'" "stream p b' = stream p ?b" by blast
    with Tx_sent t(1) u show ?thesis
      by (auto simp: tx_step_def on_ack_def b_touch_def tx_ready_def Let_def)
  next
    case Tx_poll
    with send [OF assms(2)] assms(2) show ?thesis
      by (auto simp: tx_step_def on_poll_def b_touch_def tx_ready_def split: list.split)
  qed
qed

lemma tx_run_fifo:
  assumes "sends_succeed en"
  shows "tx_ready p b \<Longrightarrow> \<forall>e\<in>set es. tx_fuel e \<le> n \<Longrightarrow>
    \<exists>xs b'. tx_run n en ops es b = Inr (xs, b') \<and> tx_ready p b' \<and> stream p b' = stream p b @ xs"
proof (induction es arbitrary: b)
  case (Cons e es)
  from tx_step_fifo [OF assms Cons.prems(1), of e n] Cons.prems(2) obtain xs u where
    u: "tx_step n en ops e b = Inr (xs, u)" "tx_ready p u" "stream p u = stream p b @ xs" by auto
  from Cons.IH [OF u(2)] Cons.prems(2) obtain ys v where
    "tx_run n en ops es u = Inr (ys, v)" "tx_ready p v" "stream p v = stream p u @ ys" by auto
  with u show ?case by simp
qed simp

end

end
