(* ===== verification/BufferRx.thy ===== *)
theory BufferRx
  imports BufferTx
begin

text \<open>
  The receiving side of \<open>AsyncTCPBuffer\<close>.  The abstraction of a state is the stream of
  bytes handed to the user followed by the bytes still buffered; whatever the mode, and
  whatever modes the user's callbacks switch to, a received packet is appended to it, as far
  as the receive buffer can be enlarged to hold it.
\<close>

section \<open>The stream\<close>

primrec consumed :: "buf_ev list \<Rightarrow> byte list" where
  "consumed [] = []"
| "consumed (e # h) = consumed h @ (case e of BE_rx bs n \<Rightarrow> take n bs | BE_store bs \<Rightarrow> bs
     | BE_char x \<Rightarrow> [x] | BE_term x \<Rightarrow> [x] | _ \<Rightarrow> [])"

definition rx_stream :: "('b \<Rightarrow> byte list) \<Rightarrow> 'b abuf \<Rightarrow> byte list" where
  "rx_stream \<alpha> b = consumed (b_out b) @ (case b_rx b of None \<Rightarrow> [] | Some c \<Rightarrow> \<alpha> c)"

section \<open>The contract of the user's callbacks\<close>

text \<open>
  A callback does not delete the buffer, does not touch the receive buffer (the API cannot),
  and \<open>onData\<close> handlers claim no more bytes than they were given.
\<close>

definition rx_kept :: "'b abuf \<Rightarrow> 'b abuf \<Rightarrow> bool" where
  "rx_kept b b' \<longleftrightarrow> b_rx b' = b_rx b \<and> consumed (b_out b') = consumed (b_out b) \<and> b_alive b' = b_alive b"

lemma rx_kept_refl [simp]: "rx_kept b b"
  by (simp add: rx_kept_def)

lemma rx_kept_trans: "rx_kept a b \<Longrightarrow> rx_kept b c \<Longrightarrow> rx_kept a c"
  by (simp add: rx_kept_def)

lemma rx_kept_send [simp]: "rx_kept (b\<lparr>b_conn := s, b_tx := tx\<rparr>) = rx_kept b"
    "rx_kept (b\<lparr>b_tx := tx\<rparr>) = rx_kept b" "rx_kept (b\<lparr>b_conn := s\<rparr>) = rx_kept b"
    "rx_kept b (c\<lparr>b_conn := s, b_tx := tx\<rparr>) = rx_kept b c"
    "rx_kept b (c\<lparr>b_tx := tx\<rparr>) = rx_kept b c" "rx_kept b (c\<lparr>b_conn := s\<rparr>) = rx_kept b c"
    "rx_kept b (c\<lparr>b_tx := tx, b_conn := s\<rparr>) = rx_kept b c"
  by (simp_all add: rx_kept_def fun_eq_iff)

locale buffer_user =
  fixes u :: "'b buf_user"
  assumes rx: "ok (\<lambda>(k, b'). k \<le> length d \<and> rx_kept b b') (u_rx u d b)"
    and don: "ok (rx_kept b) (u_done u r b)"

text \<open>
  An invariant of the callbacks: what they leave of a buffer for which \<open>I\<close> holds.  It may speak
  of the client and of the sending side, which the receiving side does not change except for
  the memory it allocates.
\<close>

locale invariant_buffer_user =
  fixes u :: "'b buf_user"
    and I :: "'b abuf \<Rightarrow> bool"
  assumes I_alloc: "I b \<Longrightarrow> I (b\<lparr>b_conn := emit (A_alloc n) (b_conn b)\<rparr>)"
    and I_upd: "I (b\<lparr>b_rx := r\<rparr>) = I b" "I (b\<lparr>b_mode := m\<rparr>) = I b" "I (b\<lparr>b_out := es\<rparr>) = I b"
      "I (b\<lparr>b_size := k\<rparr>) = I b"
    and rx_I: "I b \<Longrightarrow> ok (\<lambda>(k, b'). I b') (u_rx u d b)"
    and done_I: "I b \<Longrightarrow> ok I (u_done u t b)"

text \<open>Callbacks that also return, on buffers for which \<open>I\<close> holds.\<close>

locale total_buffer_user = buffer_user u + invariant_buffer_user u I
  for u :: "'b buf_user" and I :: "'b abuf \<Rightarrow> bool" +
  assumes rx_total: "I b \<Longrightarrow> no_fault (u_rx u d b)"
    and done_total: "I b \<Longrightarrow> no_fault (u_done u t b)"

text \<open>Callbacks that call the API: a list of operations, then the number of bytes claimed.\<close>

datatype buf_op =
    O_noCallback
  | O_readStringUntil byte bool bool
  | O_readBytes bool nat bool
  | O_onData bool
  | O_onDisconnect bool
  | O_write "byte list"

fun buf_do :: "nat \<Rightarrow> env \<Rightarrow> user \<Rightarrow> 'b cbuf_ops \<Rightarrow> buf_op \<Rightarrow> 'b abuf \<Rightarrow> 'b abuf res" where
  "buf_do n en cb ops O_noCallback b = Inr (noCallback b)"
| "buf_do n en cb ops (O_readStringUntil t str don) b = Inr (readStringUntil t str don b)"
| "buf_do n en cb ops (O_readBytes dest len don) b = Inr (readBytes dest len don b)"
| "buf_do n en cb ops (O_onData f) b = Inr (buf_onData f b)"
| "buf_do n en cb ops (O_onDisconnect f) b = Inr (buf_onDisconnect f b)"
| "buf_do n en cb ops (O_write bs) b = rbind (buf_write n en cb ops (Some bs) b) (\<lambda>(k, b). Inr b)"

fun buf_script :: "nat \<Rightarrow> env \<Rightarrow> user \<Rightarrow> 'b cbuf_ops \<Rightarrow> buf_op list \<Rightarrow> 'b abuf \<Rightarrow> 'b abuf res" where
  "buf_script n en cb ops [] b = Inr b"
| "buf_script n en cb ops (o1 # os) b = rbind (buf_do n en cb ops o1 b) (buf_script n en cb ops os)"

text \<open>\<open>f d\<close>: how many bytes are claimed and what is called; \<open>g\<close>: what the done callback calls.\<close>

definition script_user ::
  "nat \<Rightarrow> env \<Rightarrow> user \<Rightarrow> 'b cbuf_ops \<Rightarrow> (byte list \<Rightarrow> nat \<times> buf_op list) \<Rightarrow> buf_op list \<Rightarrow> 'b buf_user" where
  "script_user n en cb ops f g = \<lparr>
     u_rx = (\<lambda>d b. rbind (buf_script n en cb ops (snd (f d)) b) (\<lambda>b. Inr (min (fst (f d)) (length d), b))),
     u_done = (\<lambda>r b. buf_script n en cb ops g b), u_disc = (\<lambda>b. Inr (True, b))\<rparr>"

lemma ok_any: "ok (\<lambda>x. True) r"
  by (cases r) simp_all

lemma send_loop_keeps: "ok (rx_kept b) (send_loop n en cb ops b)"
proof (induction n arbitrary: b)
  case (Suc n)
  have IH: "ok (rx_kept b) (send_loop n en cb ops (b\<lparr>b_conn := s, b_tx := tx\<rparr>))" for s tx
    using Suc [of "b\<lparr>b_conn := s, b_tx := tx\<rparr>"] by simp
  show ?case
    by (auto simp: Let_def split: list.split intro!: ok_rbind [OF ok_any] IH)
qed simp

lemma send_buffer_keeps: "ok (rx_kept b) (send_buffer n en cb ops b)"
  using send_loop_keeps [of b n en cb ops] by (auto simp: send_buffer_def split: list.split)

lemma tx_loop_keeps: "ok (\<lambda>(k, b'). rx_kept b b') (tx_loop n en cb ops len rest b)"
proof (induction n arbitrary: rest b)
  case (Suc n)
  obtain w c where wr: "cb_write ops rest (last (b_tx b)) = (w, c)" by fastforce
  let ?b = "b\<lparr>b_tx := butlast (b_tx b) @ [c]\<rparr>"
  have IH: "ok (\<lambda>(k, b'). rx_kept b b') (tx_loop n en cb ops len r t)" if "rx_kept b t" for r t
    using Suc [where rest = r and b = t] that
    by (auto elim!: ok_mono intro: rx_kept_trans)
  have sent: "ok (rx_kept b) (send_buffer (Suc n) en cb ops ?b)"
    using send_buffer_keeps [of ?b n en cb ops] send_buffer_keeps [of ?b "Suc n"] by simp
  show ?case
  proof (cases "rest = []")
    case False
    show ?thesis
      unfolding tx_loop.simps wr Let_def using False
      by (auto intro!: ok_rbind [OF sent] IH)
  qed simp
qed simp

lemma buf_write_keeps: "ok (\<lambda>(k, b'). rx_kept b b') (buf_write n en cb ops data b)"
  by (auto simp: buf_write_def tx_loop_keeps split: option.split)

lemma buf_do_keeps: "ok (rx_kept b) (buf_do n en cb ops o1 b)"
  using buf_write_keeps [of b n en cb ops]
  by (cases o1) (auto simp: noCallback_def readStringUntil_def readBytes_def buf_onData_def
      buf_onDisconnect_def rx_kept_def intro!: ok_rbind)

lemma buf_script_keeps: "ok (rx_kept b) (buf_script n en cb ops os b)"
proof (induction os arbitrary: b)
  case (Cons o1 os)
  show ?case
    by (auto intro!: ok_rbind [OF buf_do_keeps] intro: ok_mono [OF Cons] rx_kept_trans)
qed simp

interpretation script: buffer_user "script_user n en cb ops f g"
  by unfold_locales (auto simp: script_user_def buf_script_keeps intro!: ok_rbind [OF buf_script_keeps])

text \<open>
  Scripts that may be run in the callbacks: a \<open>write\<close> needs a platform on which sending
  succeeds, a client with a connection, and fuel; without it the loop that sends may not end
  (theorem \<open>send_buffer_spins\<close> of BufferProps).
\<close>

definition write_ok :: "env \<Rightarrow> pcb \<Rightarrow> nat \<Rightarrow> 'b abuf \<Rightarrow> buf_op \<Rightarrow> bool" where
  "write_ok en p n b o1 = (case o1 of
     O_write bs \<Rightarrow> sends_succeed en \<and> tx_ready p b \<and> 2 * length bs + 2 \<le> n | _ \<Rightarrow> True)"

definition script_ok ::
  "env \<Rightarrow> pcb \<Rightarrow> nat \<Rightarrow> (byte list \<Rightarrow> nat \<times> buf_op list) \<Rightarrow> buf_op list \<Rightarrow> 'b abuf \<Rightarrow> bool" where
  "script_ok en p n f g b \<longleftrightarrow>
     (\<forall>d. \<forall>o1\<in>set (snd (f d)). write_ok en p n b o1) \<and> (\<forall>o1\<in>set g. write_ok en p n b o1)"

text \<open>What the scripts leave of the client: the connection, and all that \<open>_recv\<close> keeps track of.\<close>

definition conn_kept :: "conn \<Rightarrow> conn \<Rightarrow> bool" where
  "conn_kept s t \<longleftrightarrow> life t = life s \<and> c_pcb t = c_pcb s \<and> use_tls t = use_tls s \<and> trk t = trk s
     \<and> ack_pcb t = ack_pcb s \<and> cbs (log t) = cbs (log s) \<and> freed (log t) = freed (log s)
     \<and> (\<forall>p. credited p (log t) = credited p (log s))"

lemma conn_kept_refl [simp]: "conn_kept s s"
  by (simp add: conn_kept_def)

lemma conn_kept_trans: "conn_kept s t \<Longrightarrow> conn_kept t u \<Longrightarrow> conn_kept s u"
  by (simp add: conn_kept_def)

lemma conn_kept_alloc [simp]: "conn_kept s (emit (A_alloc n) t) = conn_kept s t"
  by (simp add: conn_kept_def emit_def)

definition same_client :: "'b abuf \<Rightarrow> 'b abuf \<Rightarrow> bool" where
  "same_client b b' \<longleftrightarrow> b_client b' = b_client b \<and> conn_kept (b_conn b) (b_conn b')"

lemma same_client_refl [simp]: "same_client b b"
  by (simp add: same_client_def)

lemma same_client_trans: "same_client a b \<Longrightarrow> same_client b c \<Longrightarrow> same_client a c"
  by (auto simp: same_client_def intro: conn_kept_trans)

lemma same_client_upd [simp]:
  "same_client b (c\<lparr>b_tx := tx\<rparr>) = same_client b c"
  "same_client b (c\<lparr>b_tx := tx, b_conn := emit (A_alloc n) (b_conn c)\<rparr>) = same_client b c"
  "same_client (b\<lparr>b_tx := tx\<rparr>) = same_client b"
  by (simp_all add: same_client_def fun_eq_iff)

definition script_inv :: "pcb \<Rightarrow> 'b abuf \<Rightarrow> 'b abuf \<Rightarrow> bool" where
  "script_inv p b0 b \<longleftrightarrow> same_client b0 b \<and> (tx_ready p b0 \<longrightarrow> tx_ready p b)"

lemma script_inv_refl [simp]: "script_inv p b b"
  by (simp add: script_inv_def same_client_def)

lemma script_inv_trans: "script_inv p a b \<Longrightarrow> script_inv p b c \<Longrightarrow> script_inv p a c"
  by (auto simp: script_inv_def intro: same_client_trans)

lemma script_inv_upd:
  "script_inv p b0 (b\<lparr>b_rx := r\<rparr>) = script_inv p b0 b"
  "script_inv p b0 (b\<lparr>b_mode := m\<rparr>) = script_inv p b0 b"
  "script_inv p b0 (b\<lparr>b_out := es\<rparr>) = script_inv p b0 b"
  "script_inv p b0 (b\<lparr>b_size := k\<rparr>) = script_inv p b0 b"
  by (simp_all add: script_inv_def same_client_def tx_ready_def)

text \<open>A plain client's \<open>write\<close> runs no handler.\<close>

lemma client_write_conn:
  "\<not> use_tls s \<Longrightarrow> ok (\<lambda>(k, t). conn_kept s t) (client_write en cb d f s)"
  by (auto simp: client_write_def add_def send_def touch_def Let_def log_defs conn_kept_def
      split: option.split)

lemma send_loop_conn:
  "\<not> use_tls (b_conn b) \<Longrightarrow> ok (same_client b) (send_loop n en cb ops b)"
proof (induction n arbitrary: b)
  case (Suc n)
  have wrt: "ok (\<lambda>(k, t). conn_kept (b_conn b) t) (client_write en cb d f (emit (A_alloc m) (b_conn b)))" for d f m
    by (rule ok_mono [OF client_write_conn]) (use Suc.prems in \<open>auto simp: emit_def conn_kept_def\<close>)
  have IH: "ok (same_client b) (send_loop n en cb ops (b\<lparr>b_conn := t, b_tx := tx\<rparr>))"
    if "conn_kept (b_conn b) t" for t tx
    by (rule ok_mono [OF Suc.IH]) (use that Suc.prems in \<open>auto simp: same_client_def conn_kept_def\<close>)
  have "same_client b b" "same_client b (b\<lparr>b_conn := emit (A_alloc m) (b_conn b)\<rparr>)" for m
    by (simp_all add: same_client_def)
  then show ?case
    by (auto simp: Let_def split: list.split intro!: ok_rbind [OF wrt] IH)
qed simp

lemma send_buffer_conn:
  "\<not> use_tls (b_conn b) \<Longrightarrow> ok (same_client b) (send_buffer n en cb ops b)"
  using send_loop_conn [of b n en cb ops] by (auto simp: send_buffer_def same_client_def split: list.split)

lemma tx_loop_conn:
  "\<not> use_tls (b_conn b) \<Longrightarrow> ok (\<lambda>(k, b'). same_client b b')
    (tx_loop n en cb ops len rest b)"
proof (induction n arbitrary: rest b)
  case (Suc n)
  obtain w c where wr: "cb_write ops rest (last (b_tx b)) = (w, c)" by fastforce
  have sent: "ok (same_client b) (send_buffer (Suc n) en cb ops (b\<lparr>b_tx := butlast (b_tx b) @ [c]\<rparr>))"
    using send_buffer_conn [of "b\<lparr>b_tx := butlast (b_tx b) @ [c]\<rparr>"] Suc.prems by simp
  have IH: "ok (\<lambda>(k, b'). same_client b b') (tx_loop n en cb ops len r t)" if "same_client b t" for r t
    by (rule ok_mono [OF Suc.IH])
      (use that Suc.prems in \<open>auto simp: same_client_def conn_kept_def intro: same_client_trans\<close>)
  show ?case
  proof (cases "rest = []")
    case False
    show ?thesis
      unfolding tx_loop.simps wr Let_def using False
      by (auto intro!: ok_rbind [OF sent] IH)
  qed simp
qed simp

context cbuf_fifo
begin

text \<open>A permitted operation returns and keeps the client.\<close>

lemma buf_do_returns:
  assumes "write_ok en p n b0 o1" "script_inv p b0 b"
  shows "\<exists>b'. buf_do n en cb ops o1 b = Inr b' \<and> script_inv p b0 b'"
proof (cases o1)
  case (O_write bs)
  with assms have w: "sends_succeed en" "tx_ready p b" "2 * length bs + 2 \<le> n"
    by (auto simp: write_ok_def script_inv_def)
  from buf_write_fifo [OF this, of cb] obtain k t where
    t: "buf_write n en cb ops (Some bs) b = Inr (k, t)" "tx_ready p t" by blast
  have "\<not> use_tls (b_conn b)" using w(2) by (simp add: tx_ready_def)
  note conn = tx_loop_conn [OF this, of n en cb ops "length bs" bs]
  have "same_client b t"
    using t(1) okD [OF conn] by (auto simp: buf_write_def same_client_def split: if_splits)
  with t assms(2) O_write show ?thesis by (auto simp: script_inv_def intro: same_client_trans)
qed (use assms(2) in \<open>simp_all add: script_inv_def same_client_def tx_ready_def noCallback_def readStringUntil_def
    readBytes_def buf_onData_def buf_onDisconnect_def\<close>)

lemma buf_script_returns:
  "\<forall>o1\<in>set os. write_ok en p n b0 o1 \<Longrightarrow> script_inv p b0 b \<Longrightarrow>
    \<exists>b'. buf_script n en cb ops os b = Inr b' \<and> script_inv p b0 b'"
proof (induction os arbitrary: b)
  case (Cons o1 os)
  from buf_do_returns [of en p n b0 o1 b cb] Cons show ?case by fastforce
qed simp

lemma script_total:
  assumes "script_ok en p n f g b0"
  shows "total_buffer_user (script_user n en cb ops f g) (script_inv p b0)"
proof -
  have rx: "\<exists>k b'. u_rx (script_user n en cb ops f g) d b = Inr (k, b') \<and> script_inv p b0 b'"
    if "script_inv p b0 b" for d b
    using buf_script_returns [of "snd (f d)" en p n b0 b cb] assms that
    by (auto simp: script_ok_def script_user_def)
  have don: "\<exists>b'. u_done (script_user n en cb ops f g) r b = Inr b' \<and> script_inv p b0 b'"
    if "script_inv p b0 b" for r b
    using buf_script_returns [of g en p n b0 b cb] assms that by (auto simp: script_ok_def script_user_def)
  have alloc: "script_inv p b0 (b\<lparr>b_conn := emit (A_alloc m) (b_conn b)\<rparr>)" if "script_inv p b0 b" for m b
    using that by (simp add: script_inv_def same_client_def tx_ready_def) (simp add: emit_def)
  show ?thesis
  proof (unfold_locales, goal_cases)
    case (1 b m)
    then show ?case by (rule alloc)
  next
    case (6 b d)
    with rx [OF this, of d] show ?case by auto
  next
    case (7 b t)
    with don [OF this, of t] show ?case by auto
  next
    case (8 b d)
    with rx [OF this, of d] show ?case by auto
  next
    case (9 b t)
    with don [OF this, of t] show ?case by auto
  qed (simp_all add: script_inv_upd)
qed

end

text \<open>The callbacks that only record what they get, and claim everything.\<close>

definition idle_buf_user :: "'b buf_user" where
  "idle_buf_user = \<lparr>u_rx = (\<lambda>d b. Inr (length d, b)), u_done = (\<lambda>r b. Inr b), u_disc = (\<lambda>b. Inr (True, b))\<rparr>"

interpretation idle_buf: total_buffer_user idle_buf_user "\<lambda>b. True"
  by unfold_locales (simp_all add: idle_buf_user_def)

section \<open>Conservation of the received stream\<close>

text \<open>
  \<open>stored_part ops d c\<close>: how many bytes of \<open>d\<close> fit into the receive buffer \<open>c\<close>, which is
  enlarged if need be and if the memory is there.  \<open>kept_bytes en ops u d b\<close>: how many bytes of the
  packet \<open>d\<close> are kept, namely those the read requests take at once, and of the rest \<open>d1\<close> those
  that fit into the receive buffer as they leave it.
\<close>

definition stored_part :: "'b cbuf_ops \<Rightarrow> byte list \<Rightarrow> 'b \<Rightarrow> nat" where
  "stored_part ops d c = min (length d)
     (cb_room ops (if cb_room ops c < length d then cb_resizeAdd ops (length d + cb_room ops c) c else c))"

definition kept_bytes :: "env \<Rightarrow> 'b cbuf_ops \<Rightarrow> 'b buf_user \<Rightarrow> byte list \<Rightarrow> 'b abuf \<Rightarrow> nat" where
  "kept_bytes en ops u d b = (case rx_handle en ops u d b of
     Inr (d1, b1) \<Rightarrow> length d - length d1 + (case b_rx b1 of Some c \<Rightarrow> stored_part ops d1 c | None \<Rightarrow> 0)
   | Inl e \<Rightarrow> 0)"

lemma stored_part_le: "stored_part ops d c \<le> length d"
  by (simp add: stored_part_def)

lemma stored_part_grows:
  assumes "grows ops"
  shows "stored_part ops d c = length d"
proof -
  have "cb_room ops c + (length d + cb_room ops c) \<le> cb_room ops (cb_resizeAdd ops (length d + cb_room ops c) c)"
    using assms by (simp add: grows_def)
  then show ?thesis by (simp add: stored_part_def)
qed

locale rx_side = cbuf_fifo ops \<alpha> + buffer_user u
  for ops :: "'b cbuf_ops" and \<alpha> :: "'b \<Rightarrow> byte list" and u :: "'b buf_user"
begin

text \<open>
  \<open>carried d b (h, b')\<close>: \<open>h\<close> bytes of \<open>d\<close> were appended to the stream; if any, then nothing
  is left in the receive buffer.
\<close>

definition carried :: "byte list \<Rightarrow> 'b abuf \<Rightarrow> nat \<times> 'b abuf \<Rightarrow> bool" where
  "carried d b r \<longleftrightarrow> fst r \<le> length d \<and> b_alive (snd r) = b_alive b
     \<and> (b_rx (snd r) = None \<longleftrightarrow> b_rx b = None)
     \<and> rx_stream \<alpha> (snd r) = rx_stream \<alpha> b @ take (fst r) d"

lemma carried_none: "carried d b (0, b)"
  by (simp add: carried_def)

lemma rx_kept_stream:
  assumes "rx_kept b b'"
  shows "rx_stream \<alpha> b' = rx_stream \<alpha> b" "b_rx b' = b_rx b" "b_alive b' = b_alive b"
  using assms by (simp_all add: rx_kept_def rx_stream_def)

lemma rx_free_carries:
  assumes "b_rx b = Some c"
  shows "ok (carried (case buf of None \<Rightarrow> [] | Some d \<Rightarrow> d) b) (rx_free en ops u c buf b)"
proof (cases "b_cb_rx b")
  case True
  let ?n = "cb_available ops c"
  have call: "ok (\<lambda>(k, t). k \<le> length d \<and> t = t \<and> rx_kept x t) (u_rx u d x)" for d x
    using rx [of d x] by (simp add: case_prod_beta)
  have drained: "ok (\<lambda>(r, t). r \<le> ?n \<and> b_alive t = b_alive b \<and> (\<exists>c'. b_rx t = Some c' \<and>
        consumed (b_out t) = consumed (b_out b) @ take r (\<alpha> c) \<and> \<alpha> c' = drop r (\<alpha> c)))
     (if ?n > 0 then
        let s = emit (A_alloc ?n) (b_conn b) in
        if \<not> e_alloc en (log (b_conn b)) then Inl Panic
        else rbind (u_rx u (cb_peek ops ?n c) (b\<lparr>b_conn := s\<rparr>)) (\<lambda>(r, b). b_touch b
          (case b_rx b of None \<Rightarrow> Inl Null_pointer
           | Some c' \<Rightarrow> Inr (r, b_emit (BE_rx (cb_peek ops ?n c) r) (b\<lparr>b_rx := Some (cb_remove ops r c')\<rparr>))))
      else Inr (0, b))" (is "ok ?D ?r")
    using assms
    by (auto simp: Let_def b_touch_def b_emit_def rx_kept_def peek available remove
        intro!: ok_rbind [OF call] split: option.split)
  have "rx_free en ops u c buf b = rbind ?r (\<lambda>(r, b). case buf of
             Some d \<Rightarrow>
               if r = ?n \<and> d \<noteq> []
               then rbind (u_rx u d b) (\<lambda>(k, b). Inr (k, b_emit (BE_rx d k) b))
               else Inr (0, b)
           | None \<Rightarrow> Inr (0, b))"
    using True by (simp add: rx_free_def Let_def)
  moreover have "ok (carried (case buf of None \<Rightarrow> [] | Some d \<Rightarrow> d) b) \<dots>"
    using assms
    by (intro ok_rbind [OF drained])
      (auto simp: carried_def rx_stream_def b_emit_def rx_kept_def available
        intro!: ok_rbind [OF call] split: option.split)
  ultimately show ?thesis by simp
qed (simp add: rx_free_def carried_none)

lemma done_carries:
  assumes "carried d b (k, t)"
  shows "ok (carried d b) (rbind (u_done u True (b_emit (BE_done True) (t\<lparr>b_mode := RX_NONE\<rparr>)))
    (\<lambda>t. Inr (k, t)))"
  using assms by (auto simp: carried_def b_emit_def rx_kept_def rx_stream_def intro!: ok_rbind [OF don])

lemma rx_read_carries:
  assumes "b_rx b = Some c"
  shows "ok (carried (case buf of None \<Rightarrow> [] | Some d \<Rightarrow> d) b) (rx_read ops u c buf b)"
proof (cases "\<not> b_dest b \<or> \<not> b_cb_done b")
  case False
  obtain c1 t1 where one: "(if cb_available ops c > 0
       then let (bs, c) = cb_read ops (b_size b) c
            in (c, b_emit (BE_store bs) (b\<lparr>b_size := b_size b - length bs, b_rx := Some c\<rparr>))
       else (c, b)) = (c1, t1)" by fastforce
  have t1: "b_rx t1 = Some c1" "b_alive t1 = b_alive b" "rx_stream \<alpha> t1 = rx_stream \<alpha> b"
    using one assms read [of "b_size b" c]
    by (auto simp: b_emit_def rx_stream_def split: if_splits prod.splits)
  obtain r t2 where two: "(case buf of
        Some d \<Rightarrow> if cb_empty ops c1 \<and> d \<noteq> []
          then let r = (if length d > b_size t1 then b_size t1 else length d)
               in (r, b_emit (BE_store (take r d)) (t1\<lparr>b_size := b_size t1 - r\<rparr>))
          else (0, t1)
      | None \<Rightarrow> (0, t1)) = (r, t2)" by fastforce
  have t2: "carried (case buf of None \<Rightarrow> [] | Some d \<Rightarrow> d) b (r, t2)"
    using two t1 assms
    by (auto simp: carried_def b_emit_def rx_stream_def empty Let_def split: if_splits option.splits)
  show ?thesis
    using False t2 done_carries [OF t2] by (simp add: rx_read_def one two)
qed (auto simp: rx_read_def carried_none)

text \<open>The two character loops.\<close>

lemma str_drain_carries:
  "length (\<alpha> c) < n \<Longrightarrow> \<exists>found c' out'. str_drain n ops t c out = Inr (found, c', out')
     \<and> consumed out' @ \<alpha> c' = consumed out @ \<alpha> c"
proof (induction n arbitrary: c out)
  case (Suc n)
  show ?case
  proof (cases "\<alpha> c")
    case (Cons x xs)
    obtain c' where get: "cb_get ops c = (x, c')" "\<alpha> c' = xs"
      using get_all [OF Cons] by (metis prod.collapse)
    with Cons Suc.prems Suc.IH [of c' "BE_char x # out"] show ?thesis
      by (auto simp: empty)
  qed (auto simp: empty)
qed simp

end

lemma str_scan_carries:
  "str_scan t d k out = (found, k', out') \<Longrightarrow>
     k \<le> k' \<and> k' - k \<le> length d \<and> consumed out' = consumed out @ take (k' - k) d"
proof (induction d arbitrary: k out)
  case (Cons x d)
  show ?case
  proof (cases "x = t \<or> x = 0")
    case False
    with Cons.prems have "str_scan t d (k + 1) (BE_char x # out) = (found, k', out')" by simp
    from Cons.IH [OF this] show ?thesis by (auto simp: take_Cons' Suc_diff_le)
  qed (use Cons.prems in auto)
qed simp

context rx_side
begin

lemma rx_string_carries:
  assumes "b_rx b = Some c"
  shows "ok (carried (case buf of None \<Rightarrow> [] | Some d \<Rightarrow> d) b) (rx_string ops u c buf b)"
proof (cases "\<not> b_str b \<or> \<not> b_cb_done b")
  case False
  obtain found c1 out where drain:
    "str_drain (Suc (cb_available ops c)) ops (b_term b) c (b_out b) = Inr (found, c1, out)"
    "consumed out @ \<alpha> c1 = consumed (b_out b) @ \<alpha> c"
    using str_drain_carries [of c "Suc (cb_available ops c)" "b_term b" "b_out b"]
    by (auto simp: available)
  let ?t = "b\<lparr>b_rx := Some c1, b_out := out\<rparr>"
  have t: "carried d b (0, ?t)" for d
    using drain(2) assms by (simp add: carried_def rx_stream_def)
  show ?thesis
  proof (cases found)
    case True
    with False drain(1) done_carries [OF t] show ?thesis by (simp add: rx_string_def Let_def)
  next
    case more: False
    show ?thesis
    proof (cases buf)
      case (Some d)
      obtain f2 k out2 where scan: "str_scan (b_term b) d 0 out = (f2, k, out2)"
        by (metis prod.collapse)
      have "carried d b (k, ?t\<lparr>b_out := out2\<rparr>)" if "\<alpha> c1 = []"
        using str_scan_carries [OF scan] drain(2) assms that by (simp add: carried_def rx_stream_def)
      from done_carries [OF this] this t more Some drain(1) scan False show ?thesis
        by (auto simp: rx_string_def Let_def empty)
    qed (use False more drain(1) t in \<open>simp add: rx_string_def Let_def\<close>)
  qed
qed (auto simp: rx_string_def carried_none)

lemma handle_rx_carries:
  "ok (carried (case buf of None \<Rightarrow> [] | Some d \<Rightarrow> d) b) (handle_rx en ops u buf b)"
  using rx_free_carries [where buf = buf and b = b and en = en]
    rx_read_carries [where buf = buf and b = b] rx_string_carries [where buf = buf and b = b]
  by (cases buf) (auto simp: handle_rx_def carried_none split: option.splits rx_mode.splits)

text \<open>\<open>went d b (d', b')\<close>: of \<open>d\<close>, \<open>d'\<close> is still to be stored.\<close>

definition went :: "byte list \<Rightarrow> 'b abuf \<Rightarrow> byte list \<times> 'b abuf \<Rightarrow> bool" where
  "went d b r \<longleftrightarrow> b_alive (snd r) = b_alive b \<and> (b_rx (snd r) = None \<longleftrightarrow> b_rx b = None)
     \<and> (\<exists>h\<le>length d. fst r = drop h d \<and> rx_stream \<alpha> (snd r) = rx_stream \<alpha> b @ take h d)"

lemma went_refl: "went d b (d, b)"
  by (auto simp: went_def intro: exI [of _ 0])

lemma went_all: "went d b ([], t) \<longleftrightarrow> b_alive t = b_alive b \<and> (b_rx t = None \<longleftrightarrow> b_rx b = None)
    \<and> rx_stream \<alpha> t = rx_stream \<alpha> b @ d"
  by (auto simp: went_def)

lemma carried_went: "carried d b (h, b') \<Longrightarrow> went d b (drop h d, b')"
  by (auto simp: carried_def went_def)

lemma went_trans:
  assumes "went d b (d', b')" "went d' b' r"
  shows "went d b r"
proof -
  obtain h k where hk: "h \<le> length d" "d' = drop h d" "rx_stream \<alpha> b' = rx_stream \<alpha> b @ take h d"
    "k \<le> length d'" "fst r = drop k d'" "rx_stream \<alpha> (snd r) = rx_stream \<alpha> b' @ take k d'"
    using assms by (auto simp: went_def)
  then have "h + k \<le> length d" "fst r = drop (h + k) d" "rx_stream \<alpha> (snd r) = rx_stream \<alpha> b @ take (h + k) d"
    by (simp_all add: take_add add.commute)
  with assms show ?thesis by (auto simp: went_def)
qed

lemma rx_more_went: "ok (went d b) (rx_more en ops u h d b)"
proof (induction d arbitrary: h b rule: length_induct)
  case (1 d)
  have step: "ok (went d b) (b_touch t (if k > length d then Inl Out_of_bounds
      else if k = 0 then Inr (d, t) else rx_more en ops u k (drop k d) t))"
    if "carried d b (k, t)" "d \<noteq> []" for k t
  proof (cases "k = 0")
    case False
    with that(2) have "ok (went (drop k d) t) (rx_more en ops u k (drop k d) t)"
      using 1 by simp
    with carried_went [OF that(1)] show ?thesis
      using False by (auto simp: b_touch_def elim!: ok_mono intro: went_trans)
  qed (use carried_went [OF that(1)] in \<open>simp add: b_touch_def\<close>)
  show ?case
    by (subst rx_more.simps)
      (auto simp: went_refl intro!: ok_rbind [OF handle_rx_carries] step)
qed

text \<open>The receive buffer keeps what it has room for.\<close>

lemma rx_store_keeps: "\<alpha> (rx_store ops d c) = \<alpha> c @ take (stored_part ops d c) d"
proof -
  let ?c = "if cb_room ops c < length d then cb_resizeAdd ops (length d + cb_room ops c) c else c"
  have "\<alpha> ?c = \<alpha> c" by (simp add: resizeAdd)
  with put [of d ?c "fst (cb_write ops d ?c)" "snd (cb_write ops d ?c)"] show ?thesis
    by (auto simp: rx_store_def stored_part_def Let_def min_def)
qed

lemma rx_again_carries: "ok (\<lambda>b'. carried [] b (0, b')) (rx_again n en ops u h b)"
proof (induction n arbitrary: h b)
  case (Suc n)
  have step: "ok (\<lambda>b'. carried [] b (0, b')) (b_touch t (rx_again n en ops u k t))"
    if "carried [] b (k, t)" for k t
    using Suc [of t k] that by (auto simp: b_touch_def carried_def elim!: ok_mono)
  show ?case
    by (auto simp: carried_none intro!: step ok_rbind [OF handle_rx_carries])
qed simp

lemma rx_handle_went: "ok (went d b) (rx_handle en ops u d b)"
proof -
  have "ok (went d b) (b_touch t (advance k d (\<lambda>d. with_rx t (\<lambda>c.
       if cb_empty ops c then rx_more en ops u k d t else Inr (d, t)))))" if "carried d b (k, t)" for k t
    using carried_went [OF that] rx_more_went [of "drop k d" t en k]
    by (auto simp: b_touch_def advance_def with_rx_def elim!: ok_mono intro: went_trans split: option.split)
  then show ?thesis
    unfolding rx_handle_def
    by (auto simp: went_refl intro!: ok_rbind [OF handle_rx_carries])
qed

lemma rx_keep_went:
  assumes "went d b (d', b')" "b_rx b' = Some c"
  shows "ok (\<lambda>t. went (take (length d - length d' + stored_part ops d' c) d) b ([], t)) (rx_keep ops d' b')"
proof -
  obtain h where h: "h \<le> length d" "d' = drop h d" "rx_stream \<alpha> b' = rx_stream \<alpha> b @ take h d"
    using assms(1) by (auto simp: went_def)
  let ?b = "b'\<lparr>b_rx := Some (rx_store ops d' c)\<rparr>"
  have "rx_stream \<alpha> ?b = rx_stream \<alpha> b @ take (h + stored_part ops d' c) d"
    using h assms(2) by (simp add: rx_stream_def rx_store_keeps take_add)
  then have "went (take (h + stored_part ops d' c) d) b ([], ?b)"
    using assms by (auto simp: went_all) (auto simp: went_def)
  moreover have "went (take (length d) d) b ([], b')" if "d' = []"
    using assms(1) that by simp
  ultimately show ?thesis
    using h(1,2) assms(2) by (auto simp: rx_keep_def with_rx_def stored_part_def)
qed

lemma rx_drain_went:
  assumes "went d b ([], x)"
  shows "ok (\<lambda>t. went d b ([], t)) (rx_drain en ops u x)"
proof -
  have "ok (\<lambda>t. went d b ([], t)) (b_touch t (rx_again n en ops u k t))"
    if "carried [] x (k, t)" for k t n
    using rx_again_carries [of t n en k] that assms
    by (auto simp: b_touch_def carried_def went_all elim!: ok_mono)
  with assms show ?thesis
    by (auto simp: rx_drain_def with_rx_def intro!: ok_rbind [OF handle_rx_carries] split: option.split)
qed

lemma rx_clean_went: "went d b ([], x) \<Longrightarrow> ok (\<lambda>t. went d b ([], t)) (rx_clean ops x)"
  by (auto simp: rx_clean_def with_rx_def went_all rx_stream_def empty resize split: option.splits)

lemma rx_rest_went:
  "went d b ([], x) \<Longrightarrow> ok (\<lambda>t. went d b ([], t)) (rbind (rx_drain en ops u x) (rx_clean ops))"
  by (rule ok_rbind [OF rx_drain_went], assumption) (rule rx_clean_went)

lemma rx_data_appends:
  assumes "b_rx b \<noteq> None" "rx_data en ops u d b = Inr b'"
  shows "rx_stream \<alpha> b' = rx_stream \<alpha> b @ (if buf_connected en b then take (kept_bytes en ops u d b) d else [])"
    "buf_connected en b \<Longrightarrow> grows ops \<Longrightarrow> kept_bytes en ops u d b = length d"
    "b_alive b' = b_alive b" "b_rx b' \<noteq> None"
proof -
  have "went (take (kept_bytes en ops u d b) d) b ([], b') \<and> (grows ops \<longrightarrow> kept_bytes en ops u d b = length d)"
    if con: "buf_connected en b"
  proof -
    from assms con obtain d1 b1 where
      1: "rx_handle en ops u d b = Inr (d1, b1)"
         "rbind (rx_keep ops d1 b1) (\<lambda>x. rbind (rx_drain en ops u x) (rx_clean ops)) = Inr b'"
      by (auto simp: rx_data_def buf_connected_def rbind_eq_Inr)
    have w: "went d b (d1, b1)" by (rule okD [OF rx_handle_went 1(1)])
    with assms(1) obtain c where c: "b_rx b1 = Some c" "length d1 \<le> length d" by (auto simp: went_def)
    have "kept_bytes en ops u d b = length d - length d1 + stored_part ops d1 c"
      using 1(1) c(1) by (simp add: kept_bytes_def)
    moreover from okD [OF ok_rbind [OF rx_keep_went [OF w c(1)] rx_rest_went] 1(2)]
    have "went (take (length d - length d1 + stored_part ops d1 c) d) b ([], b')" .
    ultimately show ?thesis using c(2) stored_part_grows [of ops d1 c] by simp
  qed
  moreover have "b' = b" if "\<not> buf_connected en b"
    using assms(2) that by (auto simp: rx_data_def buf_connected_def)
  ultimately show "rx_stream \<alpha> b' = rx_stream \<alpha> b @ (if buf_connected en b then take (kept_bytes en ops u d b) d else [])"
    "buf_connected en b \<Longrightarrow> grows ops \<Longrightarrow> kept_bytes en ops u d b = length d"
    "b_alive b' = b_alive b" "b_rx b' \<noteq> None"
    using assms(1) by (auto simp: went_all)
qed

end

section \<open>The receiving side keeps the invariant of its callbacks\<close>

context invariant_buffer_user
begin

lemma emit_I: "I (b_emit e b) = I b"
  by (simp add: b_emit_def I_upd)

lemma done_I': "I b \<Longrightarrow> ok (\<lambda>(k, b'). I b') (rbind (u_done u t b) (\<lambda>b. Inr (k, b)))"
  by (rule ok_rbind [OF done_I]) simp_all

lemmas I_rules = emit_I I_upd I_alloc

lemma rx_free_I: "I b \<Longrightarrow> ok (\<lambda>(k, b'). I b') (rx_free en ops u c buf b)"
  unfolding rx_free_def Let_def
  by (auto simp: b_touch_def I_rules split: option.split
      intro!: ok_rbind [where Q = "\<lambda>(k, b'). I b'"] rx_I)

text \<open>\<open>rx_read\<close> ends with the done callback, or without.\<close>

lemma rx_read_form:
  assumes "I b"
  shows "\<exists>r t. I t \<and> (rx_read ops u c buf b = Inr (r, t)
    \<or> rx_read ops u c buf b = rbind (u_done u True t) (\<lambda>b. Inr (r, b)))"
proof (cases "\<not> b_dest b \<or> \<not> b_cb_done b")
  case False
  obtain c1 b1 where one: "(if cb_available ops c > 0
       then let (bs, c) = cb_read ops (b_size b) c
            in (c, b_emit (BE_store bs) (b\<lparr>b_size := b_size b - length bs, b_rx := Some c\<rparr>))
       else (c, b)) = (c1, b1)" by fastforce
  obtain r b2 where two: "(case buf of
        Some d \<Rightarrow> if cb_empty ops c1 \<and> d \<noteq> []
          then let r = (if length d > b_size b1 then b_size b1 else length d)
               in (r, b_emit (BE_store (take r d)) (b1\<lparr>b_size := b_size b1 - r\<rparr>))
          else (0, b1)
      | None \<Rightarrow> (0, b1)) = (r, b2)" by fastforce
  have "I b1" using one assms by (auto simp: I_rules split: if_splits prod.splits)
  then have b2: "I b2" using two by (auto simp: I_rules Let_def split: if_splits option.splits)
  then have "I (b_emit (BE_done True) (b2\<lparr>b_mode := RX_NONE\<rparr>))" by (simp add: I_rules)
  with b2 False show ?thesis by (auto simp: rx_read_def one two)
qed (use assms in \<open>auto simp: rx_read_def\<close>)

lemma rx_read_I: "I b \<Longrightarrow> ok (\<lambda>(k, b'). I b') (rx_read ops u c buf b)"
  using rx_read_form [of b ops c buf] by (auto simp: done_I')

lemma rx_string_I:
  assumes "I b"
  shows "ok (\<lambda>(k, b'). I b') (rx_string ops u c buf b)"
proof (cases "\<not> b_str b \<or> \<not> b_cb_done b")
  case False
  show ?thesis
    unfolding rx_string_def
    by (cases "str_drain (Suc (cb_available ops c)) ops (b_term b) c (b_out b)")
      (auto simp: Let_def False assms I_rules simp del: str_drain.simps split: option.split prod.split
        intro!: done_I')
qed (use assms in \<open>auto simp: rx_string_def\<close>)

lemma handle_rx_I: "I b \<Longrightarrow> ok (\<lambda>(k, b'). I b') (handle_rx en ops u buf b)"
  by (simp add: handle_rx_def rx_free_I rx_read_I rx_string_I split: option.split rx_mode.split)

lemma rx_more_I: "I b \<Longrightarrow> ok (\<lambda>(d', b'). I b') (rx_more en ops u h d b)"
proof (induction d arbitrary: h b rule: length_induct)
  case (1 d)
  then show ?case
    by (subst rx_more.simps)
      (auto simp: b_touch_def intro!: ok_rbind [OF handle_rx_I [OF 1(2)]])
qed

lemma rx_again_I: "I b \<Longrightarrow> ok I (rx_again n en ops u h b)"
proof (induction n arbitrary: h b)
  case (Suc n)
  then show ?case
    by (auto simp: b_touch_def intro!: ok_rbind [OF handle_rx_I])
qed simp

lemma rx_handle_I: "I b \<Longrightarrow> ok (\<lambda>(d', b'). I b') (rx_handle en ops u d b)"
  by (auto simp: rx_handle_def b_touch_def advance_def with_rx_def split: option.split
      intro!: ok_rbind [OF handle_rx_I] rx_more_I)

lemma rx_keep_I: "I b \<Longrightarrow> ok I (rx_keep ops d b)"
  by (auto simp: rx_keep_def with_rx_def I_rules split: option.split)

lemma rx_drain_I: "I b \<Longrightarrow> ok I (rx_drain en ops u b)"
  by (auto simp: rx_drain_def with_rx_def b_touch_def split: option.split
      intro!: ok_rbind [OF handle_rx_I] rx_again_I)

lemma rx_clean_I: "I b \<Longrightarrow> ok I (rx_clean ops b)"
  by (auto simp: rx_clean_def with_rx_def I_rules split: option.split)

lemma rx_data_I: "I b \<Longrightarrow> ok I (rx_data en ops u d b)"
  unfolding rx_data_def
  by (auto intro!: ok_rbind [OF rx_handle_I] ok_rbind [OF rx_keep_I] ok_rbind [OF rx_drain_I] rx_clean_I)

end

section \<open>The receiving side returns\<close>

locale total_rx_side = cbuf_fifo ops \<alpha> + total_buffer_user u I
  for ops :: "'b cbuf_ops" and \<alpha> :: "'b \<Rightarrow> byte list" and u :: "'b buf_user" and I :: "'b abuf \<Rightarrow> bool"

sublocale total_rx_side \<subseteq> rx_side
  by unfold_locales

text \<open>With memory for the copies of the receive buffer, and callbacks that return.\<close>

context total_rx_side
begin

lemma call_returns: "I x \<Longrightarrow> \<exists>k t. u_rx u d x = Inr (k, t) \<and> k \<le> length d \<and> rx_kept x t \<and> I t"
  using rx [of d x] rx_total [of x d] rx_I [of x d] by (auto simp: ok_def no_fault_def split: sum.splits)

lemma rx_returns: "I x \<Longrightarrow> no_fault (u_rx u d x)"
  by (rule rx_total)

lemma done_returns: "I x \<Longrightarrow> no_fault (rbind (u_done u r x) (\<lambda>b. Inr (k, b)))"
  by (auto simp: no_fault_rbind done_total)

lemma handle_rx_returns:
  assumes "\<forall>h. e_alloc en h" "b_alive b" "I b"
  shows "no_fault (handle_rx en ops u buf b)"
proof -
  have free: "no_fault (rx_free en ops u c buf b)" if "b_rx b = Some c" for c
  proof (cases "cb_available ops c > 0 \<and> b_cb_rx b")
    case True
    let ?s = "b\<lparr>b_conn := emit (A_alloc (cb_available ops c)) (b_conn b)\<rparr>"
    obtain k t where t: "u_rx u (cb_peek ops (cb_available ops c) c) ?s = Inr (k, t)"
      "b_rx t = Some c" "b_alive t" "I t"
      using call_returns [of ?s "cb_peek ops (cb_available ops c) c"] assms(2,3) \<open>b_rx b = Some c\<close>
      by (auto simp: rx_kept_def I_alloc)
    then show ?thesis
      using True assms(1)
      by (auto simp: rx_free_def Let_def b_touch_def I_rules split: option.split
          intro!: no_fault_rbind rx_total)
  next
    case False
    then show ?thesis
      using assms(3) by (auto simp: rx_free_def Let_def split: option.split intro!: no_fault_rbind rx_total)
  qed
  have str: "no_fault (rx_string ops u c buf b)" for c
  proof -
    obtain found c1 out where drain:
      "str_drain (Suc (cb_available ops c)) ops (b_term b) c (b_out b) = Inr (found, c1, out)"
      using str_drain_carries [of c "Suc (cb_available ops c)" "b_term b" "b_out b"]
      by (auto simp: available)
    show ?thesis
      unfolding rx_string_def drain using assms(3)
      by (auto simp: Let_def done_returns I_rules split: option.split prod.split)
  qed
  have read: "no_fault (rx_read ops u c buf b)" for c
    using rx_read_form [OF assms(3), of ops c buf] by (auto simp: done_returns)
  show ?thesis
    using free str read by (auto simp: handle_rx_def split: option.split rx_mode.split)
qed

lemma handle_rx_result:
  assumes "\<forall>h. e_alloc en h" "b_alive b" "I b"
  obtains h b' where "handle_rx en ops u buf b = Inr (h, b')"
    "carried (case buf of None \<Rightarrow> [] | Some d \<Rightarrow> d) b (h, b')" "I b'"
proof -
  have "no_fault (handle_rx en ops u buf b)" by (rule handle_rx_returns [OF assms])
  then obtain h b' where r: "handle_rx en ops u buf b = Inr (h, b')"
    by (auto simp: no_fault_def split: sum.splits)
  moreover from okD [OF handle_rx_carries this]
  have "carried (case buf of None \<Rightarrow> [] | Some d \<Rightarrow> d) b (h, b')" .
  moreover from okD [OF handle_rx_I [OF assms(3)] r] have "I b'" by simp
  ultimately show thesis by (rule that)
qed

lemma rx_more_returns:
  assumes "\<forall>h. e_alloc en h"
  shows "b_alive b \<Longrightarrow> I b \<Longrightarrow> no_fault (rx_more en ops u h d b)"
proof (induction d arbitrary: h b rule: length_induct)
  case (1 d)
  show ?case
  proof (cases "b_mode b \<noteq> RX_NONE \<and> h \<noteq> 0 \<and> d \<noteq> []")
    case True
    from handle_rx_result [OF assms 1(2,3), of "Some d"] obtain k t where
      t: "handle_rx en ops u (Some d) b = Inr (k, t)" "carried d b (k, t)" "I t" by auto
    then have "b_alive t" "k \<le> length d" using 1(2) by (auto simp: carried_def)
    moreover have "no_fault (rx_more en ops u k (drop k d) t)" if "k \<noteq> 0"
      using 1(1) True that \<open>b_alive t\<close> t(3) by auto
    ultimately show ?thesis
      using t(1) by (subst rx_more.simps) (auto simp: b_touch_def)
  qed (subst rx_more.simps, auto)
qed

lemma rx_handle_returns:
  assumes "\<forall>h. e_alloc en h" "b_alive b" "b_rx b \<noteq> None" "I b"
  shows "no_fault (rx_handle en ops u d b)"
proof -
  from handle_rx_result [OF assms(1,2,4), of "Some d"] obtain k t where
    t: "handle_rx en ops u (Some d) b = Inr (k, t)" "carried d b (k, t)" "I t" by auto
  with assms(2,3) have "b_alive t" "k \<le> length d" "b_rx t \<noteq> None" by (auto simp: carried_def)
  with t(1,3) show ?thesis
    by (auto simp: rx_handle_def b_touch_def advance_def with_rx_def
        intro: rx_more_returns [OF assms(1)])
qed

lemma rx_drain_returns:
  assumes "\<forall>h. e_alloc en h" "b_alive b" "b_rx b \<noteq> None" "I b" "0 < loop_fuel en"
  shows "no_fault (rx_drain en ops u b)"
proof -
  from handle_rx_result [OF assms(1,2,4), of None] obtain k t where
    "handle_rx en ops u None b = Inr (k, t)" "carried (case None of None \<Rightarrow> [] | Some d \<Rightarrow> d) b (k, t)" by blast
  then have t: "handle_rx en ops u None b = Inr (k, t)" "carried [] b (k, t)" by simp_all
  with assms(2) have "b_alive t" "k = 0" by (auto simp: carried_def)
  moreover obtain m where "loop_fuel en = Suc m" using assms(5) by (cases "loop_fuel en") auto
  ultimately show ?thesis
    using t(1) assms(3) by (auto simp: rx_drain_def b_touch_def with_rx_def)
qed

lemma rx_data_returns:
  assumes "\<forall>h. e_alloc en h" "b_alive b" "I b" "0 < loop_fuel en"
  shows "no_fault (rx_data en ops u d b)"
proof (cases "buf_connected en b \<and> b_rx b \<noteq> None")
  case True
  from rx_handle_returns [OF assms(1,2) _ assms(3), of d] True obtain d1 b1 where
    1: "rx_handle en ops u d b = Inr (d1, b1)" by (auto simp: no_fault_def split: sum.splits)
  from okD [OF rx_handle_went 1] okD [OF rx_handle_I [OF assms(3)] 1] True assms(2)
  have w1: "went d b (d1, b1)" "b_alive b1" "b_rx b1 \<noteq> None" "I b1" by (auto simp: went_def)
  then obtain b2 where 2: "rx_keep ops d1 b1 = Inr b2"
    by (cases "d1 = []") (auto simp: rx_keep_def with_rx_def)
  from w1(3) obtain c where c: "b_rx b1 = Some c" by blast
  from okD [OF rx_keep_went [OF w1(1) c] 2] okD [OF rx_keep_I [OF w1(4)] 2] True assms(2)
  obtain k where w2: "went (take k d) b ([], b2)" "b_alive b2" "b_rx b2 \<noteq> None" "I b2"
    by (auto simp: went_def)
  from rx_drain_returns [OF assms(1) w2(2-4) assms(4)] obtain b3 where
    3: "rx_drain en ops u b2 = Inr b3" by (auto simp: no_fault_def split: sum.splits)
  from okD [OF rx_drain_went [OF w2(1)] 3] True have "b_rx b3 \<noteq> None" by (auto simp: went_def)
  then have "no_fault (rx_clean ops b3)" by (auto simp: rx_clean_def with_rx_def)
  with 1 2 3 True show ?thesis by (simp add: rx_data_def buf_connected_def)
qed (auto simp: rx_data_def buf_connected_def)

text \<open>The whole of \<open>_rxData\<close>.\<close>

lemma rx_data_result:
  assumes "\<forall>h. e_alloc en h" "b_alive b" "I b" "0 < loop_fuel en" "b_rx b \<noteq> None"
  obtains b' where "rx_data en ops u d b = Inr b'"
    "rx_stream \<alpha> b' = rx_stream \<alpha> b @ (if buf_connected en b then take (kept_bytes en ops u d b) d else [])"
    "buf_connected en b \<and> grows ops \<longrightarrow> kept_bytes en ops u d b = length d"
    "b_alive b'" "b_rx b' \<noteq> None" "I b'"
proof -
  obtain b' where b': "rx_data en ops u d b = Inr b'"
    using rx_data_returns [OF assms(1-4), of d] by (auto simp: no_fault_def split: sum.splits)
  from rx_data_appends [OF assms(5) b'] okD [OF rx_data_I [OF assms(3)] b'] assms(2)
  show thesis by (intro that [OF b']) auto
qed

end

section \<open>What the read requests deliver\<close>

definition dones :: "buf_ev list \<Rightarrow> nat" where
  "dones h = length (filter (\<lambda>e. e = BE_done True) h)"

text \<open>The characters of a line do not include its terminator; a NUL also ends it.\<close>

definition in_line :: "byte \<Rightarrow> byte \<Rightarrow> bool" where
  "in_line t x \<longleftrightarrow> x \<noteq> t \<and> x \<noteq> 0"

definition line_log :: "byte \<Rightarrow> byte list \<Rightarrow> buf_ev list" where
  "line_log t xs = (let rest = dropWhile (in_line t) xs in
     (if rest = [] then [] else [BE_term (hd rest)]) @ rev (map BE_char (takeWhile (in_line t) xs)))"

lemma str_scan_result:
  "str_scan t d k out = (dropWhile (in_line t) d \<noteq> [],
     k + (length d - length (tl (dropWhile (in_line t) d))), line_log t d @ out)"
proof (induction d arbitrary: k out)
  case (Cons x d)
  have "length (tl (dropWhile (in_line t) d)) \<le> length d"
    by (metis diff_le_self dual_order.trans length_dropWhile_le length_tl)
  moreover have "(x = t \<or> x = 0) = (\<not> in_line t x)" by (auto simp: in_line_def)
  ultimately show ?case
    using Cons by (auto simp: line_log_def Let_def Suc_diff_le)
qed (simp add: line_log_def)

context cbuf_fifo
begin

lemma str_drain_result:
  "length (\<alpha> c) < n \<Longrightarrow> \<exists>c'. str_drain n ops t c out =
       Inr (dropWhile (in_line t) (\<alpha> c) \<noteq> [], c', line_log t (\<alpha> c) @ out)
     \<and> \<alpha> c' = tl (dropWhile (in_line t) (\<alpha> c))"
proof (induction n arbitrary: c out)
  case (Suc n)
  show ?case
  proof (cases "\<alpha> c")
    case (Cons x xs)
    obtain c' where get: "cb_get ops c = (x, c')" "\<alpha> c' = xs"
      using get_all [OF Cons] by (metis prod.collapse)
    with Cons Suc.prems Suc.IH [of c' "BE_char x # out"] show ?thesis
      by (auto simp: empty in_line_def line_log_def Let_def)
  qed (auto simp: empty line_log_def)
qed simp

end

context cbuf_growing
begin

lemma rx_store_appends: "\<alpha> (rx_store ops d c) = \<alpha> c @ d"
proof -
  let ?c = "if cb_room ops c < length d then cb_resizeAdd ops (length d + cb_room ops c) c else c"
  have "cb_room ops c + (length d + cb_room ops c) \<le> cb_room ops (cb_resizeAdd ops (length d + cb_room ops c) c)"
    using resize_grows by (simp add: grows_def)
  then have "length d \<le> cb_room ops ?c" "\<alpha> ?c = \<alpha> c" by (auto simp: resizeAdd)
  then show ?thesis by (simp add: rx_store_def Let_def put_all)
qed

text \<open>
  A request that is either finished by the first call of \<open>_handleRxBuffer\<close>, or has taken
  everything there is.
\<close>

lemma rx_data_once:
  assumes handle: "handle_rx en ops u (Some d) b = Inr (h, t)"
    and t: "h \<le> length d" "b_alive t" "b_rx t = Some c"
    and over: "b_mode t = RX_NONE \<or> \<alpha> c = [] \<and> h = length d"
    and b: "buf_connected en b" "b_mode b \<noteq> RX_NONE" "b_rx b \<noteq> None"
  shows "\<exists>c'. rx_data en ops u d b = Inr (t\<lparr>b_rx := Some c'\<rparr>) \<and> \<alpha> c' = \<alpha> c @ drop h d"
proof -
  have more: "rx_more en ops u h (drop h d) t = Inr (drop h d, t)"
    using over by (subst rx_more.simps) auto
  have handled: "rx_handle en ops u d b = Inr (drop h d, t)"
    using handle t b(2) more by (simp add: rx_handle_def b_touch_def advance_def with_rx_def)
  let ?c = "if drop h d = [] then c else rx_store ops (drop h d) c"
  let ?t = "t\<lparr>b_rx := Some ?c\<rparr>"
  have "\<alpha> ?c = \<alpha> c @ drop h d" by (auto simp: rx_store_appends)
  moreover have kept: "rx_keep ops (drop h d) t = Inr ?t"
    using t(3) by (auto simp: rx_keep_def with_rx_def)
  moreover have "rx_drain en ops u ?t = Inr ?t"
    using over by (auto simp: rx_drain_def with_rx_def empty)
  moreover have "\<exists>c'. rx_clean ops ?t = Inr (t\<lparr>b_rx := Some c'\<rparr>) \<and> \<alpha> c' = \<alpha> ?c"
    by (auto simp: rx_clean_def with_rx_def empty resize)
  ultimately show ?thesis
    using handled b by (auto simp: rx_data_def buf_connected_def)
qed

lemma read_string_result:
  assumes "buf_connected en b" "b_alive b" "b_rx b = Some c" "b_mode b = RX_TERMINATOR_STRING"
    "b_str b" "b_cb_done b"
  shows "\<exists>b' c'. rx_data en ops idle_buf_user d b = Inr b' \<and> b_rx b' = Some c'
    \<and> \<alpha> c' = tl (dropWhile (in_line (b_term b)) (\<alpha> c @ d))
    \<and> (if dropWhile (in_line (b_term b)) (\<alpha> c @ d) = []
       then b_mode b' = RX_TERMINATOR_STRING \<and> b_out b' = line_log (b_term b) (\<alpha> c @ d) @ b_out b
       else b_mode b' = RX_NONE
         \<and> b_out b' = BE_done True # line_log (b_term b) (\<alpha> c @ d) @ b_out b)"
proof -
  let ?P = "in_line (b_term b)"
  obtain c1 where drain: "str_drain (Suc (cb_available ops c)) ops (b_term b) c (b_out b) =
       Inr (dropWhile ?P (\<alpha> c) \<noteq> [], c1, line_log (b_term b) (\<alpha> c) @ b_out b)"
     "\<alpha> c1 = tl (dropWhile ?P (\<alpha> c))"
    using str_drain_result [of c "Suc (cb_available ops c)" "b_term b" "b_out b"]
    by (auto simp: available)
  have log: "line_log (b_term b) (\<alpha> c @ d) =
      (if dropWhile ?P (\<alpha> c) = [] then line_log (b_term b) d @ line_log (b_term b) (\<alpha> c)
       else line_log (b_term b) (\<alpha> c))"
    by (auto simp: line_log_def Let_def dropWhile_append takeWhile_append
        takeWhile_eq_all_conv [THEN iffD2])
  let ?h = "if dropWhile ?P (\<alpha> c) = [] then length d - length (tl (dropWhile ?P d)) else 0"
  let ?t = "b\<lparr>b_rx := Some c1, b_out := line_log (b_term b) (\<alpha> c @ d) @ b_out b\<rparr>"
  let ?t' = "if dropWhile ?P (\<alpha> c @ d) = [] then ?t
    else ?t\<lparr>b_out := BE_done True # b_out ?t, b_mode := RX_NONE\<rparr>"
  have string: "rx_string ops idle_buf_user c (Some d) b = Inr (?h, ?t')"
  proof (cases "dropWhile ?P (\<alpha> c) = []")
    case True
    then have all: "dropWhile ?P (\<alpha> c @ d) = dropWhile ?P d"
      by (auto simp: dropWhile_append)
    have nil: "\<alpha> c1 = []" unfolding drain(2) True by simp
    have l: "line_log (b_term b) (\<alpha> c @ d) = line_log (b_term b) d @ line_log (b_term b) (\<alpha> c)"
      unfolding log True by simp
    show ?thesis
    proof (cases "d = []")
      case False
      with nil drain(1) assms(5,6) show ?thesis
        unfolding all l True
        by (simp add: rx_string_def Let_def empty str_scan_result idle_buf_user_def b_emit_def True)
    qed (use drain(1) assms(5,6) True in \<open>simp add: rx_string_def Let_def\<close>)
  next
    case False
    then have all: "dropWhile ?P (\<alpha> c @ d) \<noteq> []" by auto
    have l: "line_log (b_term b) (\<alpha> c @ d) = line_log (b_term b) (\<alpha> c)"
      unfolding log using False by (simp only: if_False)
    show ?thesis
      using drain(1) assms(5,6) all False
      unfolding l by (simp add: rx_string_def Let_def idle_buf_user_def b_emit_def del: dropWhile_eq_Nil_conv)
  qed
  then have handle: "handle_rx en ops idle_buf_user (Some d) b = Inr (?h, ?t')"
    using assms(1-4) by (simp add: handle_rx_def buf_connected_def)
  have rest: "\<alpha> c1 @ drop ?h d = tl (dropWhile ?P (\<alpha> c @ d))"
  proof (cases "dropWhile ?P (\<alpha> c) = []")
    case True
    obtain xs where xs: "d = xs @ tl (dropWhile ?P d)"
      using takeWhile_dropWhile_id [of ?P d]
      by (metis append.assoc append_Cons append_Nil list.exhaust_sel list.sel(2))
    then have "drop (length d - length (tl (dropWhile ?P d))) d = tl (dropWhile ?P d)"
      by (metis add_diff_cancel_right' append_eq_conv_conj length_append)
    moreover have "dropWhile ?P (\<alpha> c @ d) = dropWhile ?P d" using True by (auto simp: dropWhile_append)
    ultimately show ?thesis unfolding drain(2) True by simp
  next
    case False
    then have "dropWhile ?P (\<alpha> c @ d) = dropWhile ?P (\<alpha> c) @ d" by (auto simp: dropWhile_append)
    with False show ?thesis unfolding drain(2) by (simp del: dropWhile_eq_Nil_conv)
  qed
  have over: "b_mode ?t' = RX_NONE \<or> \<alpha> c1 = [] \<and> ?h = length d"
  proof (cases "dropWhile ?P (\<alpha> c @ d) = []")
    case True
    then have nil: "dropWhile ?P (\<alpha> c) = []" "dropWhile ?P d = []" by auto
    have "\<alpha> c1 = []" unfolding drain(2) nil by simp
    moreover have "?h = length d" unfolding nil by simp
    ultimately show ?thesis by blast
  qed (simp del: dropWhile_eq_Nil_conv)
  have t': "?h \<le> length d" "b_alive ?t'" "b_rx ?t' = Some c1" using assms by simp_all
  have b: "b_mode b \<noteq> RX_NONE" "b_rx b \<noteq> None" using assms by simp_all
  from rx_data_once [OF handle t' over assms(1) b] obtain c' where
    "rx_data en ops idle_buf_user d b = Inr (?t'\<lparr>b_rx := Some c'\<rparr>)" "\<alpha> c' = \<alpha> c1 @ drop ?h d"
    by blast
  with rest assms(4) show ?thesis by (simp del: dropWhile_eq_Nil_conv)
qed

lemma read_bytes_result:
  assumes "buf_connected en b" "b_alive b" "b_rx b = Some c" "b_mode b = RX_READ_BYTES"
    "b_dest b" "b_cb_done b"
  shows "\<exists>b' c'. rx_data en ops idle_buf_user d b = Inr b' \<and> b_rx b' = Some c'
    \<and> \<alpha> c' = drop (b_size b) (\<alpha> c @ d)
    \<and> consumed (b_out b') = consumed (b_out b) @ take (b_size b) (\<alpha> c @ d)
    \<and> (if b_size b \<le> length (\<alpha> c @ d)
       then b_mode b' = RX_NONE \<and> dones (b_out b') = Suc (dones (b_out b))
       else b_mode b' = RX_READ_BYTES \<and> b_size b' = b_size b - length (\<alpha> c @ d)
         \<and> dones (b_out b') = dones (b_out b))"
proof -
  let ?m = "b_size b"
  let ?h = "min (length d) (?m - length (\<alpha> c))"
  obtain bs c0 where rd: "cb_read ops ?m c = (bs, c0)" "bs = take ?m (\<alpha> c)" "\<alpha> c0 = drop ?m (\<alpha> c)"
    using read [of ?m c] by (metis prod.collapse)
  have "\<exists>t c1. rx_read ops idle_buf_user c (Some d) b = Inr (?h, t) \<and> b_rx t = Some c1
      \<and> b_alive t \<and> \<alpha> c1 = drop ?m (\<alpha> c)
      \<and> consumed (b_out t) = consumed (b_out b) @ take ?m (\<alpha> c @ d)
      \<and> (if ?m \<le> length (\<alpha> c @ d)
         then b_mode t = RX_NONE \<and> dones (b_out t) = Suc (dones (b_out b))
         else b_mode t = RX_READ_BYTES \<and> b_size t = ?m - length (\<alpha> c @ d)
           \<and> dones (b_out t) = dones (b_out b))"
    using assms rd
    by (auto simp: rx_read_def Let_def available empty b_emit_def idle_buf_user_def dones_def min_def)
  then obtain t c1 where t: "rx_read ops idle_buf_user c (Some d) b = Inr (?h, t)" "b_rx t = Some c1"
      "b_alive t" "\<alpha> c1 = drop ?m (\<alpha> c)"
      "consumed (b_out t) = consumed (b_out b) @ take ?m (\<alpha> c @ d)"
      "if ?m \<le> length (\<alpha> c @ d)
         then b_mode t = RX_NONE \<and> dones (b_out t) = Suc (dones (b_out b))
         else b_mode t = RX_READ_BYTES \<and> b_size t = ?m - length (\<alpha> c @ d)
           \<and> dones (b_out t) = dones (b_out b)"
    by blast
  have handle: "handle_rx en ops idle_buf_user (Some d) b = Inr (?h, t)"
    using assms t(1) by (simp add: handle_rx_def buf_connected_def)
  have over: "b_mode t = RX_NONE \<or> \<alpha> c1 = [] \<and> ?h = length d"
    using t(4,6) by (auto split: if_splits)
  have b: "b_mode b \<noteq> RX_NONE" "b_rx b \<noteq> None" "?h \<le> length d" using assms by simp_all
  from rx_data_once [OF handle b(3) t(3,2) over assms(1) b(1,2)] obtain c' where
    "rx_data en ops idle_buf_user d b = Inr (t\<lparr>b_rx := Some c'\<rparr>)" "\<alpha> c' = \<alpha> c1 @ drop ?h d"
    by blast
  moreover have "drop ?h d = drop (?m - length (\<alpha> c)) d" by (simp add: min_def)
  ultimately show ?thesis using t by simp
qed

end

interpretation script_side: rx_side list_cbuf snd "script_user n en cb list_cbuf f g"
  by (rule rx_side.intro [OF list_cbuf.cbuf_fifo_axioms script.buffer_user_axioms])

interpretation full_script_side: rx_side fixed_cbuf snd "script_user n en cb fixed_cbuf f g"
  by (rule rx_side.intro [OF fixed_cbuf.cbuf_fifo_axioms script.buffer_user_axioms])

text \<open>Scripts without \<open>write\<close> return on every buffer and platform, with or without memory to grow.\<close>

definition reading :: "buf_op list \<Rightarrow> buf_op list" where
  "reading os = filter (\<lambda>x. case x of O_write bs \<Rightarrow> False | _ \<Rightarrow> True) os"

lemma reading_ok: "script_ok en p n (\<lambda>d. (h d, reading (f d))) (reading g) b"
  by (auto simp: script_ok_def write_ok_def reading_def split: buf_op.splits)

interpretation reading_side: total_rx_side list_cbuf snd
    "script_user n en cb list_cbuf (\<lambda>d. (h d, reading (f d))) (reading g)" "script_inv p b0"
  by (rule total_rx_side.intro [OF list_cbuf.cbuf_fifo_axioms list_cbuf.script_total [OF reading_ok]])

interpretation full_reading_side: total_rx_side fixed_cbuf snd
    "script_user n en cb fixed_cbuf (\<lambda>d. (h d, reading (f d))) (reading g)" "script_inv p b0"
  by (rule total_rx_side.intro [OF fixed_cbuf.cbuf_fifo_axioms fixed_cbuf.script_total [OF reading_ok]])

interpretation idle_side: total_rx_side list_cbuf snd idle_buf_user "\<lambda>b. True"
  by (rule total_rx_side.intro [OF list_cbuf.cbuf_fifo_axioms idle_buf.total_buffer_user_axioms])

end
