(* ===== verification/BufferProps.thy ===== *)
theory BufferProps
  imports BufferRx
begin

text \<open>
  The properties of \<open>AsyncTCPBuffer\<close>: what its two directions guarantee, on any byte queue
  that satisfies \<open>cbuf_fifo\<close>, and where the code leaves its contract.
\<close>

section \<open>A buffer to evaluate on\<close>

text \<open>What the constructor makes of the client \<open>plain0\<close>, and its receive modes.\<close>

definition buf0 :: "(nat \<times> byte list) abuf" where
  "buf0 = \<lparr>b_conn = attachCallbacks (plain0\<lparr>log := [A_alloc 100, A_alloc TCP_MSS]\<rparr>), b_client = True,
     b_tx = [(1459, [])], b_rx = Some (99, []), b_mode = RX_FREE, b_size = 0, b_term = 0,
     b_dest = False, b_str = False, b_cb_rx = False, b_cb_done = False, b_cb_disc = False,
     b_alive = True, b_out = []\<rparr>"

lemma buf0_constructed: "new_buffer quiet_env list_cbuf (Some plain0) = Inr buf0"
  by (simp add: new_buffer_def buf0_def quiet_env_def list_cbuf_def TCP_MSS_def emits_def
      plain0_def mem0_def)

lemmas buf0_eval = buf0_def attachCallbacks_def plain0_def mem0_def quiet_env_def

lemma buf0_ready: "tx_ready 1 buf0" "sends_succeed quiet_env" "buf_connected quiet_env buf0"
  by (simp_all add: tx_ready_def sends_succeed_def buf_connected_def connected_def buf0_eval)

lemma buf0_facts: "b_alive buf0" "b_rx buf0 = Some (99, [])" "b_tx buf0 = [(1459, [])]"
    "b_client buf0" "\<not> pcb_busy (b_conn buf0)" "\<forall>h. e_alloc quiet_env h" "0 < loop_fuel quiet_env"
  by (simp_all add: buf0_eval)

lemma buf0_conn: "space quiet_env (b_conn buf0) = 512" "connected quiet_env (b_conn buf0)"
    "written 1 (log (b_conn buf0)) = []" "c_pcb (b_conn buf0) = Some 1"
    "\<not> use_tls (b_conn buf0)" "life (b_conn buf0) = Alive"
  by (simp_all add: space_def connected_def buf0_eval)

lemma list_cbuf_eval:
  "cb_available list_cbuf (n, xs) = length xs" "cb_empty list_cbuf (n, xs) = (xs = [])"
  "cb_get list_cbuf (n, x # xs) = (x, (n, xs))" "cb_room list_cbuf (n, xs) = n - length xs"
  "cb_write list_cbuf bs (n, xs) = (min (length bs) (n - length xs), (n, xs @ take (n - length xs) bs))"
  by (simp_all add: list_cbuf_def Let_def min_def)

section \<open>Sending\<close>

text \<open>
  C1: \<open>AsyncTCPBuffer\<close> refines an unbounded queue of bytes.  On a platform where sending and
  allocating succeed, any sequence of writes, acknowledgements and polls returns, and the
  bytes handed to lwIP followed by the bytes queued are always those handed over before,
  followed by exactly the bytes the writes reported as taken, in order: nothing is lost,
  duplicated or reordered, however the data is split into \<open>cbuf\<close>s and segments.  Fuel
  \<open>2 * n + 2\<close> is enough for a write of \<open>n\<close> bytes.
\<close>

theorem buffer_stream_fifo:
  assumes "cbuf_fifo ops \<alpha>" "sends_succeed en" "tx_ready p b" "\<forall>e\<in>set es. tx_fuel e \<le> n"
  shows "\<exists>xs b'. tx_run n en ops es b = Inr (xs, b') \<and> tx_ready p b'
    \<and> tx_stream \<alpha> p b' = tx_stream \<alpha> p b @ xs"
  by (rule cbuf_fifo.tx_run_fifo [OF assms])

theorem buffer_stream_fifo_witness:
  "\<exists>xs b'. tx_run 8 quiet_env list_cbuf [Tx_write [1, 2, 3], Tx_poll, Tx_sent 3] buf0 = Inr (xs, b')
    \<and> tx_stream snd 1 b' = xs"
  using buffer_stream_fifo [OF list_cbuf.cbuf_fifo_axioms buf0_ready(2,1),
      of "[Tx_write [1, 2, 3], Tx_poll, Tx_sent 3]" 8]
  by (auto simp: tx_stream_def buf0_eval)

text \<open>
  C20: with at least 4096 bytes of free heap, \<open>write\<close> on an established connection takes
  everything, whatever its length and whatever is queued already.
\<close>

theorem buffer_write_takes_all:
  assumes "cbuf_fifo ops \<alpha>" "sends_succeed en" "tx_ready p b" "connected en (b_conn b)"
    and "\<forall>h. 4096 \<le> free_heap ops h" "2 * length bs + 2 \<le> n"
  shows "\<exists>b'. buf_write n en cb ops (Some bs) b = Inr (length bs, b')
    \<and> tx_stream \<alpha> p b' = tx_stream \<alpha> p b @ bs"
  using cbuf_fifo.buf_write_fifo [OF assms(1-3,6), of cb] assms(4,5) by auto

theorem buffer_write_takes_all_witness:
  "\<exists>b'. buf_write 8 quiet_env idle_user list_cbuf (Some [1, 2, 3]) buf0 = Inr (3, b')
    \<and> tx_stream snd 1 b' = [1, 2, 3]"
  using buffer_write_takes_all [OF list_cbuf.cbuf_fifo_axioms buf0_ready(2,1),
      of "[1, 2, 3]" 8 idle_user] buf0_ready(3)
  by (auto simp: tx_stream_def buf_connected_def buf0_eval list_cbuf_def)

text \<open>
  C21: progress: when lwIP has acknowledged everything and has room, the ack handler hands
  it the next bytes of the first \<open>cbuf\<close>, as many as fit, in one segment.
\<close>

theorem ack_sends_next_chunk:
  assumes "cbuf_fifo ops \<alpha>" "sends_succeed en" "tx_ready p b" "connected en (b_conn b)"
    and "\<not> pcb_busy (b_conn b)" "0 < space en (b_conn b)" "\<alpha> (hd (b_tx b)) \<noteq> []"
  shows "\<exists>b'. on_ack (Suc (Suc n)) en cb ops b = Inr b'
    \<and> written p (log (b_conn b')) =
        written p (log (b_conn b)) @ take (space en (b_conn b)) (\<alpha> (hd (b_tx b)))
    \<and> tx_stream \<alpha> p b' = tx_stream \<alpha> p b"
proof -
  have "b_tx b \<noteq> []" "b_alive b" "b_client b" using assms(3) by (simp_all add: tx_ready_def)
  then show ?thesis
    using cbuf_fifo.send_loop_sends [OF assms(1-3), of n cb] assms(4-7)
      cbuf_fifo.available [OF assms(1)]
    by (cases "b_tx b")
      (auto simp: on_ack_def send_buffer_def b_touch_def canSend_def buf_connected_def simp del: send_loop.simps)
qed

theorem ack_sends_next_chunk_witness:
  "\<exists>b'. on_ack (Suc (Suc 0)) quiet_env idle_user list_cbuf (buf0\<lparr>b_tx := [(1459, [1, 2])]\<rparr>) = Inr b'
    \<and> written 1 (log (b_conn b')) = [1, 2]"
  using ack_sends_next_chunk [OF list_cbuf.cbuf_fifo_axioms buf0_ready(2),
      of 1 "buf0\<lparr>b_tx := [(1459, [1, 2])]\<rparr>" 0 idle_user] buf0_facts buf0_conn
  by (auto simp: tx_ready_def)

section \<open>Where the sending side fails\<close>

text \<open>
  A connection on which \<open>tcp_write\<close> fails although \<open>tcp_sndbuf\<close> reports room, as it does
  when the segment queue or the pbuf pool is exhausted.
\<close>

definition write_stuck :: "env \<Rightarrow> pcb \<Rightarrow> bool" where
  "write_stuck en p \<longleftrightarrow> (\<forall>h. e_write en h \<noteq> ERR_OK \<and> e_alloc en h
     \<and> e_state en h p = ESTABLISHED \<and> 0 < e_sndbuf en h p)"

lemma stuck_write:
  assumes "write_stuck en p" "c_pcb s = Some p" "\<not> use_tls s" "out \<noteq> []"
  shows "client_write en cb (Some out) 0 s = Inr (0, emit (A_tcp_write p (take (min (space en s) (length out)) out) 0) s)"
    and "0 < space en s" "connected en s"
proof -
  have "e_write en (log s) \<noteq> ERR_OK" "e_state en (log s) p = ESTABLISHED" "e_sndbuf en (log s) p \<noteq> 0"
    using assms(1) unfolding write_stuck_def by (metis less_irrefl)+
  then have "unat (e_sndbuf en (log s) p) \<noteq> 0" "connected en s"
    using assms(2,3) by (auto simp: connected_def unat_eq_0)
  then show "0 < space en s" "connected en s" using assms(2,3) by (auto simp: space_def)
  then show "client_write en cb (Some out) 0 s
      = Inr (0, emit (A_tcp_write p (take (min (space en s) (length out)) out) 0) s)"
    using assms(2-4) \<open>e_write en (log s) \<noteq> ERR_OK\<close>
    by (auto simp: client_write_def add_def Let_def min_def)
qed

lemma write_stuck_loop:
  assumes "cbuf_fifo ops \<alpha>" "write_stuck en p"
  shows "tx_ready p b \<Longrightarrow> \<not> pcb_busy (b_conn b) \<Longrightarrow> \<alpha> (hd (b_tx b)) \<noteq> [] \<Longrightarrow>
    send_loop n en cb ops b = Inl No_return"
proof (induction n arbitrary: b)
  case (Suc n)
  note av = cbuf_fifo.available [OF assms(1)]
  from Suc.prems(1) obtain c cs where tx: "b_tx b = c # cs" by (auto simp: tx_ready_def neq_Nil_conv)
  let ?s = "b_conn b"
  have s: "c_pcb ?s = Some p" "\<not> use_tls ?s" "b_client b" using Suc.prems(1) by (simp_all add: tx_ready_def)
  let ?n = "if cb_available ops c > space en ?s then space en ?s else cb_available ops c"
  let ?out = "cb_peek ops ?n c"
  have c: "\<alpha> c \<noteq> []" using Suc.prems(3) tx by simp
  have sp: "0 < space en ?s" "connected en ?s" using stuck_write(2,3) [OF assms(2) s(1,2), of "[0]"] by auto
  then have out: "?out \<noteq> []" using c by (auto simp: cbuf_fifo.peek [OF assms(1)] av)
  let ?u = "emit (A_alloc ?n) ?s"
  obtain a where w: "client_write en cb (Some ?out) 0 ?u = Inr (0, emit a ?u)"
    using stuck_write(1) [OF assms(2) _ _ out, of ?u cb] s by (auto simp: emit_def)
  let ?c = "cb_remove ops 0 c"
  let ?b = "b\<lparr>b_conn := emit a ?u, b_tx := ?c # cs\<rparr>"
  have rem: "\<alpha> ?c = \<alpha> c" using cbuf_fifo.remove [OF assms(1), of 0 c] by simp
  have av': "0 < cb_available ops c" "cb_available ops ?c \<noteq> 0" using c rem by (simp_all add: av)
  have "e_alloc en (log ?s)" using assms(2) by (simp add: write_stuck_def)
  then have "send_loop (Suc n) en cb ops b = send_loop n en cb ops ?b"
    using tx sp w s av' Suc.prems(2)
    by (cases "cb_available ops c > space en ?s") (simp_all add: Let_def buf_connected_def canSend_def)
  also have "\<dots> = Inl No_return"
    by (rule Suc.IH) (use Suc.prems c rem in \<open>auto simp: tx_ready_def emit_def\<close>)
  finally show ?case .
qed simp

text \<open>
  C38: \<open>_sendBuffer\<close> does not return while \<open>tcp_write\<close> keeps failing: a write of 0 bytes removes
  nothing, leaves every condition of the loop true, and nothing in the loop lets lwIP
  run.  No amount of fuel is enough.
\<close>

theorem send_buffer_spins:
  assumes "cbuf_fifo ops \<alpha>" "write_stuck en p"
    and "tx_ready p b" "\<not> pcb_busy (b_conn b)" "\<alpha> (hd (b_tx b)) \<noteq> []"
  shows "send_buffer n en cb ops b = Inl No_return"
proof -
  from assms(3) have tx: "b_tx b \<noteq> []" "b_client b" "c_pcb (b_conn b) = Some p" "\<not> use_tls (b_conn b)"
    by (simp_all add: tx_ready_def)
  then show ?thesis
    using write_stuck_loop [OF assms] assms(4,5) stuck_write(2,3) [OF assms(2) tx(3,4), of "[0]"]
      cbuf_fifo.available [OF assms(1)]
    by (cases "b_tx b") (auto simp: send_buffer_def canSend_def)
qed

definition stuck_env :: env where
  "stuck_env = quiet_env\<lparr>e_write := (\<lambda>h. ERR_MEM)\<rparr>"

theorem send_buffer_spins_witness:
  "\<forall>n. send_buffer n stuck_env idle_user list_cbuf (buf0\<lparr>b_tx := [(1459, [1, 2])]\<rparr>) = Inl No_return"
  using send_buffer_spins [OF list_cbuf.cbuf_fifo_axioms, of stuck_env 1 "buf0\<lparr>b_tx := [(1459, [1, 2])]\<rparr>"]
  by (auto simp: write_stuck_def tx_ready_def stuck_env_def buf0_eval)

definition output_fails_once :: "env \<Rightarrow> pcb \<Rightarrow> bool" where
  "output_fails_once en p \<longleftrightarrow> (\<forall>h. e_write en h = ERR_OK \<and> e_alloc en h
     \<and> e_state en h p = ESTABLISHED \<and> e_sndbuf en h p = 512
     \<and> (e_output en h = ERR_OK \<longleftrightarrow> A_tcp_output (Some p) \<in> set h))"

text \<open>
  When \<open>tcp_output\<close> fails once, the bytes lwIP has queued are queued a second time:
  \<open>AsyncClient::write\<close> reports 0, \<open>_sendBuffer\<close> removes nothing and sends them again.
\<close>

theorem failed_output_duplicates:
  assumes "cbuf_fifo ops \<alpha>" "output_fails_once en p" "A_tcp_output (Some p) \<notin> set (log (b_conn b))"
    and "tx_ready p b" "\<not> pcb_busy (b_conn b)"
    and "b_tx b = [c]" "\<alpha> c = bs" "bs \<noteq> []" "length bs \<le> 512"
  shows "\<exists>b'. send_buffer (Suc (Suc (Suc n))) en cb ops b = Inr b'
    \<and> written p (log (b_conn b')) = written p (log (b_conn b)) @ bs @ bs"
proof -
  let ?s = "b_conn b" and ?n = "length bs"
  have s: "c_pcb ?s = Some p" "\<not> use_tls ?s" "b_client b" "life ?s = Alive"
    using assms(4) by (simp_all add: tx_ready_def)
  have conn: "connected en t" "space en t = 512" if "c_pcb t = Some p" "\<not> use_tls t" for t
    using that assms(2) by (auto simp: connected_def space_def output_fails_once_def)
  have env: "e_write en h = ERR_OK" "e_alloc en h"
      "e_output en h = ERR_OK \<longleftrightarrow> A_tcp_output (Some p) \<in> set h" for h
    using assms(2) by (simp_all add: output_fails_once_def)
  have peek: "cb_peek ops ?n x = bs" "cb_available ops x = ?n" "\<alpha> (cb_remove ops 0 x) = bs"
      "cb_available ops (cb_remove ops ?n x) = 0" if "\<alpha> x = bs" for x
    using that cbuf_fifo.peek [OF assms(1)] cbuf_fifo.available [OF assms(1)] cbuf_fifo.remove [OF assms(1)]
    by simp_all
  let ?t = "?s\<lparr>log := A_tcp_output (Some p) # A_tcp_write p bs 0 # A_alloc ?n # log ?s,
     tx_unacked_len := tx_unacked_len ?s + of_nat ?n\<rparr>"
  let ?c = "cb_remove ops 0 c"
  let ?b = "b\<lparr>b_conn := ?t, b_tx := [?c]\<rparr>"
  have w1: "client_write en cb (Some bs) 0 (emit (A_alloc ?n) ?s) = Inr (0, ?t)"
    using s conn [of "emit (A_alloc ?n) ?s"] env assms(3,8,9)
    by (simp add: client_write_def add_def send_def touch_def Let_def log_defs)
  have one: "send_loop (Suc (Suc (Suc n))) en cb ops b = send_loop (Suc (Suc n)) en cb ops ?b"
    using assms(5-9) s conn [of ?s] env peek(1,2) [OF assms(7)] w1
    by (simp add: Let_def buf_connected_def canSend_def)
  let ?l = "A_tcp_output (Some p) # A_tcp_write p bs 0 # A_alloc ?n # log ?t"
  let ?u = "?t\<lparr>log := A_millis # ?l, tx_unacked_len := tx_unacked_len ?t + of_nat ?n,
     pcb_busy := True, pcb_sent_at := e_millis en ?l\<rparr>"
  have w2: "client_write en cb (Some bs) 0 (emit (A_alloc ?n) ?t) = Inr (?n, ?u)"
    using s conn [of "emit (A_alloc ?n) ?t"] env assms(8,9)
    by (simp add: client_write_def add_def send_def touch_def Let_def log_defs)
  have two: "send_loop (Suc (Suc n)) en cb ops ?b
      = Inr (?b\<lparr>b_conn := ?u, b_tx := [cb_remove ops ?n ?c]\<rparr>)"
    using assms(5-9) s conn [of ?t] env peek(1,2,4) [OF peek(3) [OF assms(7)]] w2
    by (simp add: Let_def buf_connected_def canSend_def)
  have "send_buffer (Suc (Suc (Suc n))) en cb ops b = send_loop (Suc (Suc (Suc n))) en cb ops b"
    using assms(5-8) s conn [of ?s] peek(2) [OF assms(7)] by (simp add: send_buffer_def canSend_def)
  then show ?thesis unfolding one two by simp
qed

definition flaky_env :: env where
  "flaky_env = quiet_env\<lparr>e_output := (\<lambda>h. if A_tcp_output (Some 1) \<in> set h then ERR_OK else ERR_MEM)\<rparr>"

theorem failed_output_duplicates_witness:
  "\<exists>b'. send_buffer 3 flaky_env idle_user list_cbuf (buf0\<lparr>b_tx := [(1459, [1, 2])]\<rparr>) = Inr b'
    \<and> written 1 (log (b_conn b')) = [1, 2, 1, 2]"
  using failed_output_duplicates [OF list_cbuf.cbuf_fifo_axioms, of flaky_env 1
      "buf0\<lparr>b_tx := [(1459, [1, 2])]\<rparr>" "(1459, [1, 2])" "[1, 2]" 0 idle_user]
  by (auto simp: numeral_3_eq_3 output_fails_once_def tx_ready_def flaky_env_def buf0_eval)

text \<open>
  Deleting an \<open>AsyncTCPBuffer\<close> leaves its five handlers installed in the client, whose
  connection stays open until the next poll; every one of them that touches the buffer
  then reads freed memory.
\<close>

lemma deleted_buffer_handlers:
  "\<exists>b' b''. new_buffer en ops (Some s) = Inr b' \<and> delete_buffer en cb b' = Inr b''
    \<and> c_pcb (b_conn b'') = c_pcb s \<and> life (b_conn b'') = life s
    \<and> poll_cb (b_conn b'') \<and> sent_cb (b_conn b'') \<and> discard_cb (b_conn b'') \<and> recv_cb (b_conn b'')
    \<and> on_poll n en cb ops b'' = Inl Use_after_free \<and> on_ack n en cb ops b'' = Inl Use_after_free
    \<and> on_data en ops u d b'' = Inl Use_after_free \<and> on_disconnect en cb u b'' = Inl Use_after_free"
  by (auto simp: new_buffer_def delete_buffer_def attachCallbacks_def b_touch_def close_def
      on_poll_def on_ack_def on_data_def on_disconnect_def emits_def emit_def split: option.split)

section \<open>Receiving\<close>

text \<open>
  C2: what the receiving side does with a packet \<open>d\<close> that arrives at a buffer.  It holds in
  every read mode, and for callbacks that claim any part of the data and call
  \<open>noCallback\<close>, \<open>readStringUntil\<close>, \<open>readBytes\<close>, \<open>onData\<close>, \<open>onDisconnect\<close> and, on a client with
  a connection on which sending succeeds, \<open>write\<close>; they do not call \<open>stop\<close>, and they do not
  delete the buffer or close the client.  There is memory for the copies it makes.  The call
  returns.  If the client is connected, the stream of the bytes consumed by the user followed
  by the bytes in the receive buffer is extended by a prefix of the packet, and nothing is
  duplicated or reordered: the whole packet if \<open>resizeAdd\<close> always finds memory, otherwise
  (\<open>kept_bytes\<close>) the bytes that the read requests take at once, and of the rest those that the
  receive buffer has room for after the attempt to enlarge it; the others are lost.  If the
  client is not connected, the packet is dropped and the buffer unchanged.
\<close>

theorem received_stream_conserved:
  assumes "cbuf_fifo ops \<alpha>" "\<forall>h. e_alloc en h" "0 < loop_fuel en"
    and "b_alive b" "b_rx b \<noteq> None" "script_ok en p n f g b"
  shows "\<exists>b'. on_data en ops (script_user n en cb ops f g) d b = Inr b' \<and> b_alive b'
    \<and> (if buf_connected en b
        then rx_stream \<alpha> b' = rx_stream \<alpha> b @ take (kept_bytes en ops (script_user n en cb ops f g) d b) d
          \<and> (grows ops \<longrightarrow> rx_stream \<alpha> b' = rx_stream \<alpha> b @ d)
        else b' = b)"
proof -
  let ?u = "script_user n en cb ops f g"
  have side: "total_rx_side ops \<alpha> (script_user n en cb ops f g) (script_inv p b)"
    by (rule total_rx_side.intro [OF assms(1) cbuf_fifo.script_total [OF assms(1,6)]])
  obtain b' where b': "rx_data en ops ?u d b = Inr b'"
    "rx_stream \<alpha> b' = rx_stream \<alpha> b @ (if buf_connected en b then take (kept_bytes en ops ?u d b) d else [])"
    "buf_connected en b \<and> grows ops \<longrightarrow> kept_bytes en ops ?u d b = length d" "b_alive b'"
    "b_rx b' \<noteq> None" "script_inv p b b'"
    by (rule total_rx_side.rx_data_result [OF side assms(2,4) script_inv_refl assms(3,5), where d = d])
  moreover have "b' = b" if "\<not> buf_connected en b"
    using b'(1) that by (auto simp: rx_data_def buf_connected_def)
  ultimately show ?thesis
    using assms(4) by (intro exI [of _ b']) (auto simp: on_data_def b_touch_def)
qed

theorem received_stream_conserved_witness:
  "\<exists>b'. on_data quiet_env list_cbuf
      (script_user 4 quiet_env idle_user list_cbuf (\<lambda>d. (1, [O_readBytes True 2 True])) [O_write [7]])
      [1, 2, 3] (buf_onData True buf0) = Inr b' \<and> b_alive b' \<and> rx_stream snd b' = [1, 2, 3]"
proof -
  let ?b = "buf_onData True buf0"
  have "script_ok quiet_env 1 4 (\<lambda>d. (1, [O_readBytes True 2 True])) [O_write [7]] ?b"
    using buf0_ready(1,2) by (simp add: script_ok_def write_ok_def buf_onData_def tx_ready_def)
  moreover have "b_alive ?b" "b_rx ?b \<noteq> None" "buf_connected quiet_env ?b" "rx_stream snd ?b = []"
    using buf0_facts buf0_ready(3) by (auto simp: buf_onData_def buf_connected_def rx_stream_def buf0_def)
  ultimately show ?thesis
    using received_stream_conserved [OF list_cbuf.cbuf_fifo_axioms buf0_facts(6,7), of ?b 1 4
        "\<lambda>d. (1, [O_readBytes True 2 True])" "[O_write [7]]" idle_user "[1, 2, 3]"]
      list_cbuf.resize_grows
    by auto
qed

text \<open>Without memory, the end of a packet is lost, and nobody is told.\<close>

lemma full_receive_buffer_loses:
  "\<exists>b'. on_data quiet_env fixed_cbuf idle_buf_user [1, 2, 3] (noCallback (buf0\<lparr>b_rx := Some (2, [])\<rparr>)) = Inr b'
    \<and> rx_stream snd b' = [1, 2] \<and> b_out b' = []"
  by (simp add: on_data_def b_touch_def rx_data_def rx_handle_def rx_keep_def rx_drain_def rx_clean_def
      rx_store_def with_rx_def noCallback_def fixed_cbuf_def list_cbuf_def rx_stream_def buf0_eval connected_def quiet_env_def)

text \<open>
  C19: \<open>readBytes(p, n, done)\<close> with bytes \<open>q\<close> buffered, on a receive buffer that can grow: when the packet \<open>d\<close> arrives, exactly
  the first \<open>n\<close> bytes of \<open>q @ d\<close> are stored, \<open>done(true)\<close> is called once, and only if they
  all arrived, and the rest stays buffered for the next request; otherwise the request
  stays open for what is missing.
\<close>

theorem read_bytes_exact:
  assumes "cbuf_growing ops \<alpha>" "buf_connected en b" "b_alive b" "b_rx b = Some c"
  shows "\<exists>b' c'. rx_data en ops idle_buf_user d (readBytes True m True b) = Inr b'
    \<and> b_rx b' = Some c' \<and> \<alpha> c' = drop m (\<alpha> c @ d)
    \<and> consumed (b_out b') = consumed (b_out b) @ take m (\<alpha> c @ d)
    \<and> (if m \<le> length (\<alpha> c @ d)
       then b_mode b' = RX_NONE \<and> dones (b_out b') = Suc (dones (b_out b))
       else b_mode b' = RX_READ_BYTES \<and> b_size b' = m - length (\<alpha> c @ d)
         \<and> dones (b_out b') = dones (b_out b))"
  using cbuf_growing.read_bytes_result [OF assms(1), where b = "readBytes True m True b" and en = en
      and c = c and d = d] assms(2-4)
  by (auto simp: readBytes_def buf_connected_def)

theorem read_bytes_exact_witness:
  "\<exists>b'. rx_data quiet_env list_cbuf idle_buf_user [1, 2, 3] (readBytes True 2 True buf0) = Inr b'
    \<and> consumed (b_out b') = [1, 2] \<and> b_mode b' = RX_NONE"
  using read_bytes_exact [OF list_cbuf.cbuf_growing_axioms buf0_ready(3) buf0_facts(1,2), of "[1, 2, 3]" 2]
  by (auto simp: buf0_def)

text \<open>
  C18: \<open>readStringUntil(t, &s, done)\<close>, on a receive buffer that can grow: the characters of \<open>q @ d\<close> before the first terminator
  (or NUL) are appended to the string, the terminator is dropped, \<open>done(true)\<close> is called
  last, and what follows the terminator stays buffered; with no terminator all
  characters are appended and the request stays open.
\<close>

theorem read_string_exact:
  assumes "cbuf_growing ops \<alpha>" "buf_connected en b" "b_alive b" "b_rx b = Some c"
  shows "\<exists>b' c'. rx_data en ops idle_buf_user d (readStringUntil t True True b) = Inr b'
    \<and> b_rx b' = Some c' \<and> \<alpha> c' = tl (dropWhile (in_line t) (\<alpha> c @ d))
    \<and> (if \<forall>x\<in>set (\<alpha> c @ d). in_line t x
       then b_mode b' = RX_TERMINATOR_STRING \<and> b_out b' = rev (map BE_char (\<alpha> c @ d)) @ b_out b
       else b_mode b' = RX_NONE
         \<and> b_out b' = BE_done True # BE_term (hd (dropWhile (in_line t) (\<alpha> c @ d)))
             # rev (map BE_char (takeWhile (in_line t) (\<alpha> c @ d))) @ b_out b)"
proof -
  define xs where "xs = \<alpha> c @ d"
  have req: "readStringUntil t True True b = b\<lparr>b_cb_done := True, b_str := True, b_term := t,
      b_size := 0, b_mode := RX_TERMINATOR_STRING\<rparr>"
    using assms(2) by (simp add: readStringUntil_def buf_connected_def)
  obtain b' c' where b': "rx_data en ops idle_buf_user d (readStringUntil t True True b) = Inr b'"
      "b_rx b' = Some c'" "\<alpha> c' = tl (dropWhile (in_line t) xs)"
    and out: "if dropWhile (in_line t) xs = []
      then b_mode b' = RX_TERMINATOR_STRING \<and> b_out b' = line_log t xs @ b_out b
      else b_mode b' = RX_NONE \<and> b_out b' = BE_done True # line_log t xs @ b_out b"
    using cbuf_growing.read_string_result [OF assms(1), where b = "readStringUntil t True True b" and en = en
        and c = c and d = d] assms(2-4) unfolding xs_def req by (auto simp: buf_connected_def)
  have all: "dropWhile (in_line t) xs = [] \<longleftrightarrow> (\<forall>x\<in>set xs. in_line t x)" by simp
  have log: "line_log t xs = (if \<forall>x\<in>set xs. in_line t x then rev (map BE_char xs)
      else BE_term (hd (dropWhile (in_line t) xs)) # rev (map BE_char (takeWhile (in_line t) xs)))"
    by (auto simp: line_log_def Let_def takeWhile_eq_all_conv [THEN iffD2])
  show ?thesis
    using b' out unfolding xs_def [symmetric] all log by (auto split: if_splits)
qed

theorem read_string_exact_witness:
  "\<exists>b'. rx_data quiet_env list_cbuf idle_buf_user [65, 66, 10, 67] (readStringUntil 10 True True buf0) = Inr b'
    \<and> b_out b' = [BE_done True, BE_term 10, BE_char 66, BE_char 65] \<and> b_mode b' = RX_NONE"
  using read_string_exact [OF list_cbuf.cbuf_growing_axioms buf0_ready(3) buf0_facts(1,2), of "[65, 66, 10, 67]" 10]
  by (auto simp: buf0_def in_line_def)

text \<open>
  Buffered lines stall.  The comment in \<open>_rxData\<close> promises to handle as much of the
  receive buffer as possible, but \<open>_handleRxBuffer(NULL, 0)\<close> always returns 0, so its
  second loop never iterates: of three complete lines that were buffered, a reader that
  asks for the next line in every done callback gets two when the next packet arrives,
  and the third one only with the packet after that.
\<close>

lemma buffered_lines_stall:
  "\<exists>b'. rx_data quiet_env list_cbuf
        (script_user 0 quiet_env idle_user list_cbuf (\<lambda>d. (0, [])) [O_readStringUntil 10 True True])
        [53] (readStringUntil 10 True True (buf0\<lparr>b_rx := Some (99, [49, 10, 50, 10, 51, 10])\<rparr>)) = Inr b'
    \<and> b_out b' = [BE_done True, BE_term 10, BE_char 50, BE_done True, BE_term 10, BE_char 49]
    \<and> b_mode b' = RX_TERMINATOR_STRING \<and> b_rx b' = Some (99, [51, 10, 53])"
proof -
  let ?u = "script_user 0 quiet_env idle_user list_cbuf (\<lambda>d. (0, [])) [O_readStringUntil 10 True True]"
  let ?st = "\<lambda>c out. buf0\<lparr>b_cb_done := True, b_str := True, b_term := 10,
      b_mode := RX_TERMINATOR_STRING, b_out := out, b_rx := Some (99, c)\<rparr>"
  let ?l = "\<lambda>x. [BE_done True, BE_term 10, BE_char x]"
  have line: "handle_rx quiet_env list_cbuf ?u buf (?st (x # 10 # c) out) = Inr (0, ?st c (?l x @ out))"
    if "x \<noteq> 10" "x \<noteq> 0" for buf x c out
    using buf0_conn(2) buf0_facts(4) that
    by (simp add: handle_rx_def rx_string_def Let_def list_cbuf_eval script_user_def b_emit_def
        readStringUntil_def buf0_def)
  have "loop_fuel quiet_env = Suc 4" by (simp add: quiet_env_def)
  then have again: "rx_again (loop_fuel quiet_env) quiet_env list_cbuf ?u 0 x = Inr x" for x
    by (simp only: rx_again.simps) simp
  have "rx_data quiet_env list_cbuf ?u [53] (?st [49, 10, 50, 10, 51, 10] [])
      = Inr (?st [51, 10, 53] (?l 50 @ ?l 49))"
    using buf0_facts buf0_conn(2)
    by (simp add: rx_data_def rx_handle_def rx_keep_def rx_drain_def rx_clean_def line b_touch_def
        advance_def with_rx_def list_cbuf_eval rx_store_def again)
  moreover have "readStringUntil 10 True True (buf0\<lparr>b_rx := Some (99, [49, 10, 50, 10, 51, 10])\<rparr>)
      = ?st [49, 10, 50, 10, 51, 10] []"
    by (simp add: readStringUntil_def buf0_def)
  ultimately show ?thesis by simp
qed

end
