(* ===== verification/BufferClient.thy ===== *)
theory BufferClient
  imports BufferProps
begin

text \<open>
  An \<open>AsyncTCPBuffer\<close> on its \<open>AsyncClient\<close>: what lwIP delivers to \<open>_recv\<close> reaches the buffer
  through the data handler the buffer installed.
\<close>

section \<open>The client's receive loop with the buffer's handler\<close>

text \<open>
  The five handlers \<open>_attachCallbacks\<close> installs, as the user code of the client, for a buffer
  in state \<open>b\<close>; the client's state is the argument.
\<close>

definition buf_cb :: "nat \<Rightarrow> env \<Rightarrow> 'b cbuf_ops \<Rightarrow> 'b buf_user \<Rightarrow> 'b abuf \<Rightarrow> user" where
  "buf_cb n en ops u b ev s =
     (let b = b\<lparr>b_conn := s\<rparr> in
      rbind (case ev of
          CB_poll \<Rightarrow> on_poll n en idle_user ops b
        | CB_ack len time \<Rightarrow> on_ack n en idle_user ops b
        | CB_disconnect \<Rightarrow> on_disconnect en idle_user u b
        | CB_data d \<Rightarrow> on_data en ops u d b
        | CB_timeout time \<Rightarrow> on_timeout en idle_user b
        | _ \<Rightarrow> Inr b) (\<lambda>b. Inr (b_conn b)))"

text \<open>
  \<open>deliver\<close> and \<open>recv_loop\<close> of the client, with the call of the handler replaced by the
  operation on the buffer.
\<close>

definition buf_deliver :: "env \<Rightarrow> 'b cbuf_ops \<Rightarrow> 'b buf_user \<Rightarrow> pcb \<Rightarrow> pbuf \<Rightarrow> 'b abuf \<Rightarrow> 'b abuf res" where
  "buf_deliver en ops u p pb b =
     rbind (on_data en ops u (payload pb)
              (b\<lparr>b_conn := emit (A_cb (CB_data (payload pb))) ((b_conn b)\<lparr>recv_pbuf_flags := pb_flags pb\<rparr>)\<rparr>))
       (\<lambda>b. let s = b_conn b in
         if hasClient (trk s) then
           touch s (Inr (b\<lparr>b_conn := (if \<not> ack_pcb s
               then s\<lparr>rx_ack_len := rx_ack_len s + of_nat (length (payload pb))\<rparr>
               else emit (A_tcp_recved (Some p) (of_nat (length (payload pb)))) s)\<rparr>))
         else Inr b)"

fun buf_recv_loop :: "env \<Rightarrow> 'b cbuf_ops \<Rightarrow> 'b buf_user \<Rightarrow> pcb \<Rightarrow> pbuf list \<Rightarrow> 'b abuf \<Rightarrow> 'b abuf res" where
  "buf_recv_loop en ops u p [] b = Inr b"
| "buf_recv_loop en ops u p (pb # ch) b =
     (if \<not> hasClient (trk (b_conn b))
      then Inr (b\<lparr>b_conn := emits (map (\<lambda>b. A_pbuf_free [pb_id b]) (pb # ch)) (b_conn b)\<rparr>)
      else touch (b_conn b)
        (rbind (buf_deliver en ops u p pb (b\<lparr>b_conn := (b_conn b)\<lparr>ack_pcb := True\<rparr>\<rparr>))
          (\<lambda>b. buf_recv_loop en ops u p ch (b\<lparr>b_conn := emit (A_pbuf_free [pb_id pb]) (b_conn b)\<rparr>))))"

text \<open>\<open>_recv\<close> of a plain client, for a chain of buffers and \<open>ERR_OK\<close>.\<close>

definition buf_recv :: "env \<Rightarrow> 'b cbuf_ops \<Rightarrow> 'b buf_user \<Rightarrow> pcb \<Rightarrow> pbuf list \<Rightarrow> 'b abuf \<Rightarrow> 'b abuf res" where
  "buf_recv en ops u p pb b =
     (let (now, s) = millis en (b_conn b)
      in buf_recv_loop en ops u p pb
           (b\<lparr>b_conn := set_close_error ERR_OK (s\<lparr>rx_last_packet := now\<rparr>)\<rparr>))"

text \<open>One round of the client's loop is one round of this one.\<close>

lemma deliver_sim:
  assumes "recv_cb (b_conn b)"
  shows "deliver en (buf_cb n en ops u b) p pb (b_conn b)
    = rbind (buf_deliver en ops u p pb b) (\<lambda>b'. Inr (b_conn b'))"
  using assms
  by (auto simp: deliver_def buf_deliver_def invoke_def buf_cb_def rbind_assoc Let_def touch_def
      intro!: rbind_cong)

lemma recv_loop_sim:
  assumes "recv_cb (b_conn b)" "\<not> pb_cb (b_conn b)"
  shows "recv_loop en (buf_cb n en ops u (b\<lparr>b_conn := (b_conn b)\<lparr>ack_pcb := True\<rparr>\<rparr>)) p [pb] (b_conn b)
    = rbind (buf_recv_loop en ops u p [pb] b) (\<lambda>b'. Inr (b_conn b'))"
  using assms deliver_sim [of "b\<lparr>b_conn := (b_conn b)\<lparr>ack_pcb := True\<rparr>\<rparr>" en n ops u p pb]
  by (auto simp: Let_def touch_def rbind_assoc)

text \<open>
  With one buffer in the chain, the client's \<open>_recv\<close> with the handler the buffer installed
  is \<open>buf_recv\<close>.
\<close>

definition recv_start :: "env \<Rightarrow> conn \<Rightarrow> conn" where
  "recv_start en s = set_close_error ERR_OK ((emit A_millis s)\<lparr>rx_last_packet := e_millis en (log s)\<rparr>)"

lemma recv_start [simp]:
  "recv_cb (recv_start en s) = recv_cb s" "pb_cb (recv_start en s) = pb_cb s"
  "use_tls (recv_start en s) = use_tls s" "c_pcb (recv_start en s) = c_pcb s"
  "life (recv_start en s) = life s" "hasClient (trk (recv_start en s)) = hasClient (trk s)"
  "rx_ack_len (recv_start en s) = rx_ack_len s" "log (recv_start en s) = A_millis # log s"
  by (simp_all add: recv_start_def set_close_error_def emit_def tracker_defs)

lemma buf_recv_start: "buf_recv en ops u p pb b
    = buf_recv_loop en ops u p pb (b\<lparr>b_conn := recv_start en (b_conn b)\<rparr>)"
  by (simp add: buf_recv_def recv_start_def millis_def)

lemma client_recv_sim:
  assumes "recv_cb (b_conn b)" "\<not> pb_cb (b_conn b)" "\<not> use_tls (b_conn b)"
  shows "client_recv en (buf_cb n en ops u (b\<lparr>b_conn := (recv_start en (b_conn b))\<lparr>ack_pcb := True\<rparr>\<rparr>))
      (Some p) [pb] ERR_OK (b_conn b)
    = rbind (buf_recv en ops u p [pb] b) (\<lambda>b'. Inr (b_conn b'))"
proof -
  let ?s = "recv_start en (b_conn b)"
  have "client_recv en cb (Some p) [pb] ERR_OK (b_conn b) = recv_loop en cb p [pb] ?s" for cb
    using assms(3) by (simp add: client_recv_def recv_start_def millis_def set_close_error_def emit_def
        del: recv_loop.simps)
  then show ?thesis
    using recv_loop_sim [of "b\<lparr>b_conn := ?s\<rparr>" en n ops u p pb] assms(1,2)
    by (simp add: buf_recv_start del: recv_loop.simps buf_recv_loop.simps)
qed

section \<open>A chain of buffers, from lwIP to the user of the buffer\<close>

definition rx_ready :: "pcb \<Rightarrow> 'b abuf \<Rightarrow> bool" where
  "rx_ready p b \<longleftrightarrow> b_alive b \<and> b_client b \<and> b_rx b \<noteq> None \<and> life (b_conn b) = Alive
     \<and> c_pcb (b_conn b) = Some p \<and> \<not> use_tls (b_conn b) \<and> hasClient (trk (b_conn b))"

lemma rx_ready_conn:
  "rx_ready p b \<Longrightarrow> life s = Alive \<Longrightarrow> c_pcb s = Some p \<Longrightarrow> \<not> use_tls s \<Longrightarrow> hasClient (trk s)
    \<Longrightarrow> rx_ready p (b\<lparr>b_conn := s\<rparr>)"
  by (simp add: rx_ready_def)

lemma rx_ready_connected:
  "rx_ready p b \<Longrightarrow> e_state en (log (b_conn b)) p = ESTABLISHED \<Longrightarrow> buf_connected en b"
  by (simp add: rx_ready_def buf_connected_def connected_def)

lemma rx_ready_kept:
  assumes "rx_ready p b" "conn_kept (b_conn b) (b_conn b')" "b_client b' = b_client b" "b_alive b'" "b_rx b' \<noteq> None"
  shows "rx_ready p b'"
  using assms by (simp add: rx_ready_def conn_kept_def)

text \<open>The buffer when its handler is given the bytes of the pbuf \<open>x\<close>.\<close>

definition handed :: "pbuf \<Rightarrow> 'b abuf \<Rightarrow> 'b abuf" where
  "handed x b = b\<lparr>b_conn := emit (A_cb (CB_data (payload x)))
     ((b_conn b)\<lparr>ack_pcb := True, recv_pbuf_flags := pb_flags x\<rparr>)\<rparr>"

text \<open>
  \<open>takes en ops u \<alpha> p w K\<close>: of the bytes \<open>d\<close> it is given the handler appends the first \<open>K d b\<close> to
  the stream, and returns with the connection as it was; if \<open>w\<close>, it needs and keeps a chain of
  send buffers.
\<close>

definition takes :: "env \<Rightarrow> 'b cbuf_ops \<Rightarrow> 'b buf_user \<Rightarrow> ('b \<Rightarrow> byte list) \<Rightarrow> pcb \<Rightarrow> bool
    \<Rightarrow> (byte list \<Rightarrow> 'b abuf \<Rightarrow> nat) \<Rightarrow> bool" where
  "takes en ops u \<alpha> p w K \<longleftrightarrow> (\<forall>b d. rx_ready p b \<longrightarrow> (w \<longrightarrow> b_tx b \<noteq> []) \<longrightarrow> (\<exists>b'. on_data en ops u d b = Inr b'
     \<and> rx_ready p b' \<and> (w \<longrightarrow> b_tx b' \<noteq> []) \<and> rx_stream \<alpha> b' = rx_stream \<alpha> b @ take (K d b) d
     \<and> conn_kept (b_conn b) (b_conn b')))"

text \<open>What the handler appends of the pbufs of a chain, one after the other.\<close>

fun chain_kept :: "env \<Rightarrow> 'b cbuf_ops \<Rightarrow> 'b buf_user \<Rightarrow> (byte list \<Rightarrow> 'b abuf \<Rightarrow> nat) \<Rightarrow> pcb
    \<Rightarrow> pbuf list \<Rightarrow> 'b abuf \<Rightarrow> byte list list" where
  "chain_kept en ops u K p [] b = []"
| "chain_kept en ops u K p (x # pb) b = take (K (payload x) (handed x b)) (payload x)
     # (case buf_deliver en ops u p x (b\<lparr>b_conn := (b_conn b)\<lparr>ack_pcb := True\<rparr>\<rparr>) of
          Inr t \<Rightarrow> chain_kept en ops u K p pb (t\<lparr>b_conn := emit (A_pbuf_free [pb_id x]) (b_conn t)\<rparr>)
        | Inl e \<Rightarrow> [])"

lemma rx_stream_conn [simp]: "rx_stream \<alpha> (b\<lparr>b_conn := s\<rparr>) = rx_stream \<alpha> b"
  by (simp add: rx_stream_def)

lemma round_takes:
  assumes "takes en ops u \<alpha> p w K" "rx_ready p b" "w \<longrightarrow> b_tx b \<noteq> []" "length (payload x) < 2 ^ 32"
  obtains t where "buf_deliver en ops u p x (b\<lparr>b_conn := (b_conn b)\<lparr>ack_pcb := True\<rparr>\<rparr>) = Inr t"
    "rx_ready p t" "w \<longrightarrow> b_tx t \<noteq> []"
    "rx_stream \<alpha> t = rx_stream \<alpha> b @ take (K (payload x) (handed x b)) (payload x)"
    "cbs (log (b_conn t)) = cbs (log (b_conn b)) @ [CB_data (payload x)]"
    "freed (log (b_conn t)) = freed (log (b_conn b))"
    "credited p (log (b_conn t)) = credited p (log (b_conn b)) + length (payload x)"
proof -
  let ?b = "b\<lparr>b_conn := (b_conn b)\<lparr>ack_pcb := True\<rparr>\<rparr>"
  have h: "rx_ready p (handed x b)" "b_tx (handed x b) = b_tx b" "rx_stream \<alpha> (handed x b) = rx_stream \<alpha> b"
    using assms(2) by (simp_all add: rx_ready_def emit_def handed_def)
  with assms(1,3) obtain t where t: "on_data en ops u (payload x) (handed x b) = Inr t"
    "rx_ready p t" "w \<longrightarrow> b_tx t \<noteq> []"
    "rx_stream \<alpha> t = rx_stream \<alpha> b @ take (K (payload x) (handed x b)) (payload x)"
    "conn_kept (b_conn (handed x b)) (b_conn t)"
    unfolding takes_def by fastforce
  let ?t = "t\<lparr>b_conn := emit (A_tcp_recved (Some p) (of_nat (length (payload x)))) (b_conn t)\<rparr>"
  have "life (b_conn t) \<noteq> Dead" "hasClient (trk (b_conn t))" using t(2) by (simp_all add: rx_ready_def)
  moreover have "ack_pcb (b_conn t)" using t(5) by (simp add: conn_kept_def handed_def emit_def)
  ultimately have d: "buf_deliver en ops u p x ?b = Inr ?t"
    using t(1) by (simp add: buf_deliver_def handed_def)
  have r: "rx_ready p ?t" using t(2) by (simp add: rx_ready_def emit_def)
  have "unat (of_nat (length (payload x)) :: u32) = length (payload x)"
    using assms(4) by (simp add: unat_of_nat take_bit_nat_eq_self)
  moreover have "cbs (log (b_conn t)) = cbs (log (b_conn b)) @ [CB_data (payload x)]"
    "freed (log (b_conn t)) = freed (log (b_conn b))" "credited p (log (b_conn t)) = credited p (log (b_conn b))"
    using t(5) by (simp_all add: conn_kept_def handed_def emit_def)
  ultimately show thesis
    by (intro that [OF d r]) (use t(3) in \<open>simp_all add: t(4) emit_def\<close>)
qed

lemma chain_takes:
  assumes "takes en ops u \<alpha> p w K"
  shows "rx_ready p b \<Longrightarrow> w \<longrightarrow> b_tx b \<noteq> [] \<Longrightarrow> \<forall>x\<in>set pb. length (payload x) < 2 ^ 32 \<Longrightarrow>
    \<exists>b'. buf_recv_loop en ops u p pb b = Inr b' \<and> rx_ready p b'
      \<and> rx_stream \<alpha> b' = rx_stream \<alpha> b @ concat (chain_kept en ops u K p pb b)
      \<and> cbs (log (b_conn b')) = cbs (log (b_conn b)) @ map (\<lambda>x. CB_data (payload x)) pb
      \<and> freed (log (b_conn b')) = freed (log (b_conn b)) @ map pb_id pb
      \<and> credited p (log (b_conn b')) = credited p (log (b_conn b)) + tot_len pb"
proof (induction pb arbitrary: b)
  case (Cons x pb)
  have b: "life (b_conn b) \<noteq> Dead" "hasClient (trk (b_conn b))"
    using Cons.prems(1) by (simp_all add: rx_ready_def)
  from round_takes [OF assms Cons.prems(1,2), of x] Cons.prems(3) obtain t where
    t: "buf_deliver en ops u p x (b\<lparr>b_conn := (b_conn b)\<lparr>ack_pcb := True\<rparr>\<rparr>) = Inr t"
      "rx_ready p t" "w \<longrightarrow> b_tx t \<noteq> []"
      "rx_stream \<alpha> t = rx_stream \<alpha> b @ take (K (payload x) (handed x b)) (payload x)"
      "cbs (log (b_conn t)) = cbs (log (b_conn b)) @ [CB_data (payload x)]"
      "freed (log (b_conn t)) = freed (log (b_conn b))"
      "credited p (log (b_conn t)) = credited p (log (b_conn b)) + length (payload x)"
    by auto
  let ?t = "t\<lparr>b_conn := emit (A_pbuf_free [pb_id x]) (b_conn t)\<rparr>"
  have "rx_ready p ?t" "w \<longrightarrow> b_tx ?t \<noteq> []" using t(2,3) by (simp_all add: rx_ready_def emit_def)
  from Cons.IH [OF this] Cons.prems(3) obtain b' where r: "buf_recv_loop en ops u p pb ?t = Inr b'"
      "rx_ready p b'" "rx_stream \<alpha> b' = rx_stream \<alpha> ?t @ concat (chain_kept en ops u K p pb ?t)"
      "cbs (log (b_conn b')) = cbs (log (b_conn ?t)) @ map (\<lambda>x. CB_data (payload x)) pb"
      "freed (log (b_conn b')) = freed (log (b_conn ?t)) @ map pb_id pb"
      "credited p (log (b_conn b')) = credited p (log (b_conn ?t)) + tot_len pb" by auto
  have "buf_recv_loop en ops u p (x # pb) b = Inr b'" using b t(1) r(1) by simp
  then show ?case
    using r(2-6) t(1,4-7) by (intro exI [of _ b']) (simp add: tot_len_def emit_def)
qed (simp add: tot_len_def)

lemma chain_kept_all:
  assumes "takes en ops u \<alpha> p w K"
    and "\<And>b d. rx_ready p b \<Longrightarrow> w \<longrightarrow> b_tx b \<noteq> [] \<Longrightarrow> take (K d b) d = d"
  shows "rx_ready p b \<Longrightarrow> w \<longrightarrow> b_tx b \<noteq> [] \<Longrightarrow> \<forall>x\<in>set pb. length (payload x) < 2 ^ 32 \<Longrightarrow>
    concat (chain_kept en ops u K p pb b) = chain_bytes pb"
proof (induction pb arbitrary: b)
  case (Cons x pb)
  have "rx_ready p (handed x b)" "b_tx (handed x b) = b_tx b"
    using Cons.prems(1) by (simp_all add: rx_ready_def emit_def handed_def)
  with assms(2) Cons.prems(2) have "take (K (payload x) (handed x b)) (payload x) = payload x" by metis
  moreover from round_takes [OF assms(1) Cons.prems(1,2), of x] Cons.prems(3) obtain t where
    t: "buf_deliver en ops u p x (b\<lparr>b_conn := (b_conn b)\<lparr>ack_pcb := True\<rparr>\<rparr>) = Inr t"
      "rx_ready p t" "w \<longrightarrow> b_tx t \<noteq> []" by auto
  let ?t = "t\<lparr>b_conn := emit (A_pbuf_free [pb_id x]) (b_conn t)\<rparr>"
  have "rx_ready p ?t" "w \<longrightarrow> b_tx ?t \<noteq> []" using t(2,3) by (simp_all add: rx_ready_def emit_def)
  then have "concat (chain_kept en ops u K p pb ?t) = chain_bytes pb"
    using Cons.IH Cons.prems(3) by simp
  ultimately show ?case using t(1) by (simp add: chain_bytes_def)
qed (simp add: chain_bytes_def)

lemma script_ok_transfer:
  "script_ok en p n f g b0 \<Longrightarrow> (tx_ready p b0 \<longrightarrow> tx_ready p b) \<Longrightarrow> script_ok en p n f g b"
  by (auto simp: script_ok_def write_ok_def split: buf_op.splits)

lemma tx_ready_rx_ready: "rx_ready p b \<Longrightarrow> tx_ready p b \<longleftrightarrow> b_tx b \<noteq> []"
  by (simp add: tx_ready_def rx_ready_def)

context cbuf_fifo
begin

lemma established_takes:
  assumes "\<forall>h. e_alloc en h" "0 < loop_fuel en" "\<forall>h. e_state en h p = ESTABLISHED"
    and "script_ok en p n f g b0" "rx_ready p b" "tx_ready p b0 \<longrightarrow> b_tx b \<noteq> []"
  shows "\<exists>b'. on_data en ops (script_user n en cb ops f g) d b = Inr b' \<and> rx_ready p b'
      \<and> (tx_ready p b0 \<longrightarrow> b_tx b' \<noteq> [])
      \<and> rx_stream \<alpha> b' = rx_stream \<alpha> b @ take (kept_bytes en ops (script_user n en cb ops f g) d b) d
      \<and> conn_kept (b_conn b) (b_conn b')"
    "grows ops \<Longrightarrow> kept_bytes en ops (script_user n en cb ops f g) d b = length d"
proof -
  let ?u = "script_user n en cb ops f g"
  have ok: "script_ok en p n f g b"
    by (rule script_ok_transfer [OF assms(4)]) (use tx_ready_rx_ready [OF assms(5)] assms(6) in blast)
  have side: "total_rx_side ops \<alpha> ?u (script_inv p b)"
    by (rule total_rx_side.intro [OF cbuf_fifo_axioms script_total [OF ok]])
  have b: "b_alive b" "b_rx b \<noteq> None" "buf_connected en b"
    using assms(5) rx_ready_connected [OF assms(5), of en] assms(3) by (simp_all add: rx_ready_def)
  obtain b' where t: "rx_data en ops ?u d b = Inr b'"
    "rx_stream \<alpha> b' = rx_stream \<alpha> b @ (if buf_connected en b then take (kept_bytes en ops ?u d b) d else [])"
    "buf_connected en b \<and> grows ops \<longrightarrow> kept_bytes en ops ?u d b = length d"
    "b_alive b'" "b_rx b' \<noteq> None" "script_inv p b b'"
    by (rule total_rx_side.rx_data_result [OF side assms(1) b(1) script_inv_refl assms(2) b(2), where d = d])
  then have "rx_ready p b'" "conn_kept (b_conn b) (b_conn b')" "tx_ready p b0 \<longrightarrow> b_tx b' \<noteq> []"
    using rx_ready_kept [OF assms(5)] assms(6) tx_ready_rx_ready [OF assms(5)]
    by (auto simp: script_inv_def same_client_def tx_ready_def)
  moreover have "on_data en ops ?u d b = Inr b'" using t(1) b(1) by (simp add: on_data_def b_touch_def)
  ultimately show "\<exists>b'. on_data en ops ?u d b = Inr b' \<and> rx_ready p b' \<and> (tx_ready p b0 \<longrightarrow> b_tx b' \<noteq> [])
      \<and> rx_stream \<alpha> b' = rx_stream \<alpha> b @ take (kept_bytes en ops ?u d b) d \<and> conn_kept (b_conn b) (b_conn b')"
    using t(2) b(3) by simp
  show "grows ops \<Longrightarrow> kept_bytes en ops ?u d b = length d" using t(3) b(3) by simp
qed

end

text \<open>On a connection in another state the handler takes nothing.\<close>

lemma not_established_takes:
  assumes "\<forall>h. e_state en h p \<noteq> ESTABLISHED"
  shows "takes en ops u \<alpha> p False (\<lambda>d b. 0)"
proof -
  have "on_data en ops u d b = Inr b" if "rx_ready p b" for b :: "'a abuf" and d
    using that assms by (auto simp: rx_ready_def on_data_def b_touch_def rx_data_def connected_def)
  then show ?thesis
    unfolding takes_def by auto
qed

lemma chain_kept_none: "concat (chain_kept en ops u (\<lambda>d b. 0) p pb b) = []"
  by (induction pb arbitrary: b) (auto split: sum.split)

section \<open>End to end\<close>

lemma rx_ready_start: "rx_ready p b \<Longrightarrow> rx_ready p (b\<lparr>b_conn := recv_start en (b_conn b)\<rparr>)"
  by (simp add: rx_ready_def)

text \<open>
  C13: from lwIP to the user of an \<open>AsyncTCPBuffer\<close>, on a plain client whose connection stays
  ESTABLISHED.  The buffer may be in any read mode, with callbacks as for C2: they claim any
  part of the data, start read requests, change the handlers and, if sending succeeds,
  write, but do not stop or delete the buffer or close the client; there is memory for the
  copies.  When lwIP delivers a packet, a chain of pbufs of less than 64 KB each: \<open>_recv\<close>
  returns and leaves the client and the buffer ready for the next one; the bytes of the pbufs
  are appended to the buffer's stream (consumed, then buffered) in order, all of them if
  \<open>resizeAdd\<close> always finds memory, otherwise of each pbuf (\<open>chain_kept\<close>, with \<open>kept_bytes\<close> as for C2) the
  bytes the read requests take at once and those that the receive buffer then has room for
  after the attempt to enlarge it; every pbuf is freed once, in order, and the receive window
  is reopened by exactly the bytes received, the lost ones included.
\<close>

theorem buffered_client_end_to_end:
  assumes "cbuf_fifo ops \<alpha>" "\<forall>h. e_alloc en h" "0 < loop_fuel en" "\<forall>h. e_state en h p = ESTABLISHED"
    and "rx_ready p b" "\<forall>x\<in>set pb. length (payload x) < 2 ^ 16" "script_ok en p n f g b"
  shows "\<exists>b'. buf_recv en ops (script_user n en cb ops f g) p pb b = Inr b' \<and> rx_ready p b'
    \<and> rx_stream \<alpha> b' = rx_stream \<alpha> b @ concat (chain_kept en ops (script_user n en cb ops f g)
        (kept_bytes en ops (script_user n en cb ops f g)) p pb (b\<lparr>b_conn := recv_start en (b_conn b)\<rparr>))
    \<and> (grows ops \<longrightarrow> rx_stream \<alpha> b' = rx_stream \<alpha> b @ chain_bytes pb)
    \<and> freed (log (b_conn b')) = freed (log (b_conn b)) @ map pb_id pb
    \<and> credited p (log (b_conn b')) = credited p (log (b_conn b)) + tot_len pb"
proof -
  let ?b = "b\<lparr>b_conn := recv_start en (b_conn b)\<rparr>"
  have len: "\<forall>x\<in>set pb. length (payload x) < 2 ^ 32" using assms(6) by fastforce
  let ?u = "script_user n en cb ops f g"
  note takes = cbuf_fifo.established_takes [OF assms(1-4,7), where cb = cb]
  have t: "takes en ops ?u \<alpha> p (tx_ready p b) (kept_bytes en ops ?u)"
    unfolding takes_def using takes(1) by blast
  have b: "rx_ready p ?b" "tx_ready p b \<longrightarrow> b_tx ?b \<noteq> []"
    using rx_ready_start [OF assms(5)] by (simp_all add: tx_ready_def)
  have "concat (chain_kept en ops ?u (kept_bytes en ops ?u) p pb ?b) = chain_bytes pb" if "grows ops"
    by (rule chain_kept_all [OF t _ b len]) (simp add: takes(2) that)
  then show ?thesis using chain_takes [OF t b len] by (auto simp: buf_recv_start)
qed

lemma buf0_rx_ready: "rx_ready 1 buf0"
  by (simp add: rx_ready_def buf0_eval new_tracker_def hasClient_def)

theorem buffered_client_end_to_end_witness:
  "\<exists>b'. buf_recv quiet_env list_cbuf
      (script_user 4 quiet_env idle_user list_cbuf (\<lambda>d. (1, [O_write [7], O_readBytes True 2 True])) [O_onData True])
      1 [\<lparr>pb_id = 3, payload = [1, 2], pb_flags = 0\<rparr>, \<lparr>pb_id = 4, payload = [5], pb_flags = 1\<rparr>] buf0 = Inr b'
    \<and> rx_stream snd b' = [1, 2, 5] \<and> freed (log (b_conn b')) = [3, 4]
    \<and> credited 1 (log (b_conn b')) = 3"
proof -
  have "script_ok quiet_env 1 4 (\<lambda>d. (1, [O_write [7], O_readBytes True 2 True])) [O_onData True] buf0"
    using buf0_ready(1,2) by (simp add: script_ok_def write_ok_def)
  then show ?thesis
    using buffered_client_end_to_end [OF list_cbuf.cbuf_fifo_axioms buf0_facts(6,7) _ buf0_rx_ready,
      of "[\<lparr>pb_id = 3, payload = [1, 2], pb_flags = 0\<rparr>, \<lparr>pb_id = 4, payload = [5], pb_flags = 1\<rparr>]" 4
        "\<lambda>d. (1, [O_write [7], O_readBytes True 2 True])" "[O_onData True]" idle_user]
      list_cbuf.resize_grows
    by (auto simp: rx_stream_def chain_bytes_def tot_len_def buf0_eval)
qed

text \<open>
  C37: the last segment of a connection is lost.  When the segment that carries the FIN also
  carries data, lwIP enters CLOSE_WAIT before it calls \<open>_recv\<close>; the client delivers the
  data, but \<open>_rxData\<close> returns at once because the client is not connected: nothing
  reaches the user or the receive buffer, on any buffer and with any callbacks, while
  the pbufs are freed and the bytes are acknowledged to the peer.
\<close>

theorem last_segment_lost:
  assumes "\<forall>h. e_state en h p = CLOSE_WAIT" "rx_ready p b" "\<forall>x\<in>set pb. length (payload x) < 2 ^ 16"
  shows "\<exists>b'. buf_recv en ops u p pb b = Inr b'
    \<and> rx_stream \<alpha> b' = rx_stream \<alpha> b
    \<and> cbs (log (b_conn b')) = cbs (log (b_conn b)) @ map (\<lambda>x. CB_data (payload x)) pb
    \<and> freed (log (b_conn b')) = freed (log (b_conn b)) @ map pb_id pb
    \<and> credited p (log (b_conn b')) = credited p (log (b_conn b)) + tot_len pb"
proof -
  have "\<forall>h. e_state en h p \<noteq> ESTABLISHED" "\<forall>x\<in>set pb. length (payload x) < 2 ^ 32"
    using assms(1,3) by fastforce+
  then show ?thesis
    using chain_takes [OF not_established_takes [of en p, where ops = ops and u = u and \<alpha> = \<alpha>],
        of "b\<lparr>b_conn := recv_start en (b_conn b)\<rparr>" pb] rx_ready_start [OF assms(2)]
    by (force simp: buf_recv_start chain_kept_none)
qed

theorem last_segment_lost_witness:
  "\<exists>b'. buf_recv (quiet_env\<lparr>e_state := (\<lambda>h p. CLOSE_WAIT)\<rparr>) list_cbuf idle_buf_user 1
      [\<lparr>pb_id = 3, payload = [72, 105], pb_flags = 1\<rparr>] (buf_onData True buf0) = Inr b'
    \<and> rx_stream snd b' = [] \<and> credited 1 (log (b_conn b')) = 2"
  using last_segment_lost [of "quiet_env\<lparr>e_state := (\<lambda>h p. CLOSE_WAIT)\<rparr>" 1 "buf_onData True buf0"
      "[\<lparr>pb_id = 3, payload = [72, 105], pb_flags = 1\<rparr>]" list_cbuf idle_buf_user snd]
    buf0_rx_ready buf0_facts(4)
  by (auto simp: rx_ready_def buf_onData_def rx_stream_def tot_len_def buf0_eval)

end
