(* ===== verification/BufferFlush.thy ===== *)
theory BufferFlush
  imports BufferClient
begin

text \<open>
  \<open>flush\<close> and \<open>stop\<close> of \<open>AsyncTCPBuffer\<close>.  \<open>flush\<close> looks only at the last \<open>cbuf\<close> of the
  chain; that this is enough is an invariant of the chain, \<open>tx_wf\<close>.
\<close>

section \<open>The chain of send buffers\<close>

text \<open>
  When the chain has several \<open>cbuf\<close>s, none of them is empty.  (That none holds more than its
  capacity is \<open>tx_fits\<close>, below.)
\<close>

definition tx_wf :: "('b \<Rightarrow> byte list) \<Rightarrow> ('b \<Rightarrow> nat) \<Rightarrow> 'b abuf \<Rightarrow> bool" where
  "tx_wf \<alpha> cap b \<longleftrightarrow> b_tx b \<noteq> [] \<and> (\<forall>c\<in>set (b_tx b). 0 < cap c)
     \<and> (length (b_tx b) = 1 \<or> (\<forall>c\<in>set (b_tx b). \<alpha> c \<noteq> []))"

lemma tx_wf_cong: "b_tx b' = b_tx b \<Longrightarrow> tx_wf \<alpha> cap b' = tx_wf \<alpha> cap b"
  by (simp add: tx_wf_def)

lemma tx_wf_conn [simp]: "tx_wf \<alpha> cap (b\<lparr>b_conn := s\<rparr>) = tx_wf \<alpha> cap b"
  by (rule tx_wf_cong) simp

lemma tx_wf_empty: "tx_wf \<alpha> cap b \<Longrightarrow> \<alpha> (last (b_tx b)) = [] \<Longrightarrow> concat (map \<alpha> (b_tx b)) = []"
  by (cases "b_tx b") (auto simp: tx_wf_def split: if_splits)

lemma tx_wf_hd: "tx_wf \<alpha> cap b \<Longrightarrow> \<alpha> (hd (b_tx b)) = [] \<Longrightarrow> concat (map \<alpha> (b_tx b)) = []"
  by (cases "b_tx b") (auto simp: tx_wf_def)

text \<open>A \<open>cbuf\<close> has a capacity, which only a resize changes.\<close>

locale cbuf_bounded = cbuf_fifo ops \<alpha> for ops :: "'b cbuf_ops" and \<alpha> :: "'b \<Rightarrow> byte list" +
  fixes cap :: "'b \<Rightarrow> nat"
  assumes room_cap: "cb_room ops b = cap b - length (\<alpha> b)"
    and cap_new: "cap (cb_new ops n) = n - 1"
    and cap_write: "cb_write ops bs b = (k, b') \<Longrightarrow> cap b' = cap b"
    and cap_remove: "cap (cb_remove ops n b) = cap b"
begin

abbreviation wf :: "'b abuf \<Rightarrow> bool" where
  "wf \<equiv> tx_wf \<alpha> cap"

lemma tx_wf_remove:
  assumes "wf b" "b_tx b = c # cs"
  shows "wf (b\<lparr>b_conn := s, b_tx :=
    (if cb_available ops (cb_remove ops k c) = 0 \<and> cs \<noteq> [] then cs else cb_remove ops k c # cs)\<rparr>)"
  using assms by (auto simp: tx_wf_def cap_remove available)

lemma send_loop_wf: "wf b \<Longrightarrow> ok wf (send_loop n en cb ops b)"
proof (induction n arbitrary: b)
  case (Suc n)
  show ?case
    using Suc.prems
    by (auto simp: Let_def split: list.split intro!: ok_rbind [OF ok_any] Suc.IH
        dest: tx_wf_remove)
qed simp

lemma send_buffer_wf: "wf b \<Longrightarrow> ok wf (send_buffer n en cb ops b)"
  using send_loop_wf [of b n en cb] by (auto simp: send_buffer_def split: list.split)

text \<open>The write loop appends a buffer only when the last one is full and data is left.\<close>

definition open_wf :: "'b abuf \<Rightarrow> bool" where
  "open_wf b \<longleftrightarrow> b_tx b \<noteq> [] \<and> (\<forall>c\<in>set (b_tx b). 0 < cap c) \<and> (\<forall>c\<in>set (butlast (b_tx b)). \<alpha> c \<noteq> [])"

lemma wf_open: "wf b \<Longrightarrow> open_wf b"
  by (cases "b_tx b" rule: rev_cases) (auto simp: open_wf_def tx_wf_def split: if_splits)

lemma put_wf:
  assumes "open_wf b" "rest \<noteq> []" "cb_write ops rest (last (b_tx b)) = (w, c)"
  shows "wf (b\<lparr>b_tx := butlast (b_tx b) @ [c]\<rparr>)"
proof -
  have tx: "b_tx b \<noteq> []" "0 < cap (last (b_tx b))" using assms(1) by (auto simp: open_wf_def)
  have c: "\<alpha> c = \<alpha> (last (b_tx b)) @ take w rest" "w = min (length rest) (cb_room ops (last (b_tx b)))"
    using put [OF assms(3)] by auto
  have cap: "cap c = cap (last (b_tx b))" by (rule cap_write [OF assms(3)])
  have "\<alpha> c \<noteq> []"
    using c tx(2) assms(2) by (cases "\<alpha> (last (b_tx b)) = []") (auto simp: room_cap)
  with assms(1) tx cap show ?thesis
    by (auto simp: open_wf_def tx_wf_def dest: in_set_butlastD)
qed

lemma append_open:
  assumes "wf b" "cb_full ops (last (b_tx b))"
  shows "open_wf (b\<lparr>b_tx := b_tx b @ [cb_new ops TCP_MSS], b_conn := s\<rparr>)"
proof -
  have "\<alpha> (last (b_tx b)) \<noteq> []"
    using assms last_in_set [of "b_tx b"] unfolding tx_wf_def full room_cap by fastforce
  then have "\<forall>c\<in>set (b_tx b). \<alpha> c \<noteq> []"
    using assms(1) by (cases "b_tx b") (auto simp: tx_wf_def)
  with assms(1) show ?thesis by (auto simp: open_wf_def tx_wf_def cap_new TCP_MSS_def)
qed

lemma tx_loop_wf:
  "open_wf b \<Longrightarrow> (rest = [] \<Longrightarrow> wf b) \<Longrightarrow> ok (\<lambda>(k, b'). wf b') (tx_loop n en cb ops len rest b)"
proof (induction n arbitrary: rest b)
  case (Suc n)
  show ?case
  proof (cases "rest = []")
    case False
    obtain w c where wr: "cb_write ops rest (last (b_tx b)) = (w, c)" by fastforce
    let ?b = "b\<lparr>b_tx := butlast (b_tx b) @ [c]\<rparr>"
    have sent: "ok wf (send_buffer (Suc n) en cb ops ?b)"
      by (rule send_buffer_wf [OF put_wf [OF Suc.prems(1) False wr]])
    have IH: "ok (\<lambda>(k, b'). wf b') (tx_loop n en cb ops len r t)" if "wf t" for r t
      by (rule Suc.IH) (use that wf_open in auto)
    have IH': "ok (\<lambda>(k, b'). wf b') (tx_loop n en cb ops len r
        (t\<lparr>b_tx := b_tx t @ [cb_new ops TCP_MSS], b_conn := s\<rparr>))"
      if "wf t" "cb_full ops (last (b_tx t))" "r \<noteq> []" for r t s
      by (rule Suc.IH) (use that append_open in auto)
    show ?thesis
      unfolding tx_loop.simps wr Let_def using False
      by (auto intro!: ok_rbind [OF sent] IH' intro: IH)
  qed (use Suc.prems in simp)
qed simp

lemma buf_write_wf: "wf b \<Longrightarrow> ok (\<lambda>(k, b'). wf b') (buf_write n en cb ops data b)"
  using wf_open by (auto simp: buf_write_def split: option.split intro!: tx_loop_wf)

lemma tx_step_wf:
  assumes "wf b"
  shows "ok (\<lambda>(xs, b'). wf b') (tx_step n en ops e b)"
proof (cases e)
  case (Tx_sent len)
  have "ok wf (if c then on_ack n en cb ops (b\<lparr>b_conn := s\<rparr>) else Inr (b\<lparr>b_conn := s\<rparr>))" for c s cb
    using assms by (auto simp: on_ack_def b_touch_def send_buffer_wf)
  then have "ok (\<lambda>(xs, b'). wf b') (rbind (if c then on_ack n en cb ops (b\<lparr>b_conn := s\<rparr>)
      else Inr (b\<lparr>b_conn := s\<rparr>)) (\<lambda>b. Inr ([], b)))" for c s cb
    by (rule ok_rbind) simp
  then show ?thesis
    unfolding Tx_sent tx_step_def Let_def tx_ev.case by (rule ok_rbind [OF ok_any])
qed (use assms in \<open>auto simp: tx_step_def on_poll_def b_touch_def split: list.split
    intro!: ok_rbind [OF buf_write_wf] ok_rbind [OF send_buffer_wf]\<close>)

end

section \<open>No cbuf holds more than its capacity\<close>

definition tx_fits :: "('b \<Rightarrow> byte list) \<Rightarrow> ('b \<Rightarrow> nat) \<Rightarrow> 'b abuf \<Rightarrow> bool" where
  "tx_fits \<alpha> cap b \<longleftrightarrow> b_tx b \<noteq> [] \<and> (\<forall>c\<in>set (b_tx b). length (\<alpha> c) \<le> cap c)"

lemma tx_fits_conn [simp]: "tx_fits \<alpha> cap (b\<lparr>b_conn := s\<rparr>) = tx_fits \<alpha> cap b"
  by (simp add: tx_fits_def)

context cbuf_bounded
begin

abbreviation fits :: "'b abuf \<Rightarrow> bool" where
  "fits \<equiv> tx_fits \<alpha> cap"

lemma send_loop_fits: "fits b \<Longrightarrow> ok fits (send_loop n en cb ops b)"
proof (induction n arbitrary: b)
  case (Suc n)
  have "fits (b\<lparr>b_conn := s, b_tx :=
      (if cb_available ops (cb_remove ops k c) = 0 \<and> cs \<noteq> [] then cs else cb_remove ops k c # cs)\<rparr>)"
    if "b_tx b = c # cs" for s k c cs
    using Suc.prems that by (auto simp: tx_fits_def cap_remove remove)
  then show ?case
    using Suc.prems
    by (auto simp: Let_def split: list.split intro!: ok_rbind [OF ok_any] Suc.IH)
qed simp

lemma send_buffer_fits: "fits b \<Longrightarrow> ok fits (send_buffer n en cb ops b)"
  using send_loop_fits [of b n en cb] by (auto simp: send_buffer_def split: list.split)

lemma put_fits:
  assumes "fits b" "cb_write ops rest (last (b_tx b)) = (w, c)"
  shows "fits (b\<lparr>b_tx := butlast (b_tx b) @ [c]\<rparr>)"
proof -
  have "length (\<alpha> (last (b_tx b))) \<le> cap (last (b_tx b))" using assms(1) by (auto simp: tx_fits_def)
  then have "length (\<alpha> c) \<le> cap c"
    using put [OF assms(2)] cap_write [OF assms(2)] by (simp add: room_cap)
  with assms(1) show ?thesis by (auto simp: tx_fits_def dest: in_set_butlastD)
qed

lemma append_fits: "fits b \<Longrightarrow> fits (b\<lparr>b_tx := b_tx b @ [cb_new ops m], b_conn := s\<rparr>)"
  by (auto simp: tx_fits_def new)

lemma tx_loop_fits: "fits b \<Longrightarrow> ok (\<lambda>(k, b'). fits b') (tx_loop n en cb ops len rest b)"
proof (induction n arbitrary: rest b)
  case (Suc n)
  show ?case
  proof (cases "rest = []")
    case False
    obtain w c where wr: "cb_write ops rest (last (b_tx b)) = (w, c)" by fastforce
    have sent: "ok fits (send_buffer (Suc n) en cb ops (b\<lparr>b_tx := butlast (b_tx b) @ [c]\<rparr>))"
      by (rule send_buffer_fits [OF put_fits [OF Suc.prems wr]])
    show ?thesis
      unfolding tx_loop.simps wr Let_def using False
      by (auto intro!: ok_rbind [OF sent] Suc.IH append_fits)
  qed (use Suc.prems in simp)
qed simp

lemma buf_write_fits: "fits b \<Longrightarrow> ok (\<lambda>(k, b'). fits b') (buf_write n en cb ops data b)"
  by (auto simp: buf_write_def split: option.split intro!: tx_loop_fits)

lemma tx_step_fits:
  assumes "fits b"
  shows "ok (\<lambda>(xs, b'). fits b') (tx_step n en ops e b)"
proof (cases e)
  case (Tx_sent len)
  have "ok fits (if c then on_ack n en cb ops (b\<lparr>b_conn := s\<rparr>) else Inr (b\<lparr>b_conn := s\<rparr>))" for c s cb
    using assms by (auto simp: on_ack_def b_touch_def send_buffer_fits)
  then have "ok (\<lambda>(xs, b'). fits b') (rbind (if c then on_ack n en cb ops (b\<lparr>b_conn := s\<rparr>)
      else Inr (b\<lparr>b_conn := s\<rparr>)) (\<lambda>b. Inr ([], b)))" for c s cb
    by (rule ok_rbind) simp
  then show ?thesis
    unfolding Tx_sent tx_step_def Let_def tx_ev.case by (rule ok_rbind [OF ok_any])
qed (use assms in \<open>auto simp: tx_step_def on_poll_def b_touch_def split: list.split
    intro!: ok_rbind [OF buf_write_fits] ok_rbind [OF send_buffer_fits]\<close>)

end

interpretation list_cbuf_bounded: cbuf_bounded list_cbuf snd fst
  by unfold_locales (auto simp: list_cbuf_def Let_def split: prod.splits if_splits)

section \<open>flush\<close>

text \<open>
  The inner loop of \<open>flush\<close> gives lwIP time until the client can send.  \<open>tx_left\<close> counts what
  is left to do: every queued byte has to be sent and acknowledged, every byte in lwIP has
  to be acknowledged, and the acknowledgement has to be reported.
\<close>

definition tx_left :: "('b \<Rightarrow> byte list) \<Rightarrow> 'b abuf \<Rightarrow> nat" where
  "tx_left \<alpha> b = tx_pending \<alpha> b + 2 * length (concat (map \<alpha> (b_tx b)))
     + (if pcb_busy (b_conn b) then 1 else 0)"

text \<open>A connection that stays open, with room for at least one byte.\<close>

definition window_open :: "env \<Rightarrow> pcb \<Rightarrow> bool" where
  "window_open en p \<longleftrightarrow> (\<forall>h. e_state en h p = ESTABLISHED \<and> 0 < e_sndbuf en h p)"

lemma window_open_ready:
  assumes "window_open en p" "tx_ready p b"
  shows "buf_connected en b" "0 < space en (b_conn b)" "canSend en (b_conn b) = (\<not> pcb_busy (b_conn b))"
proof -
  have w: "e_state en (log (b_conn b)) p = ESTABLISHED" "e_sndbuf en (log (b_conn b)) p \<noteq> 0"
    using assms(1) unfolding window_open_def by (metis less_irrefl)+
  then show "buf_connected en b"
    using assms(2) by (simp add: buf_connected_def connected_def tx_ready_def)
  have "unat (e_sndbuf en (log (b_conn b)) p) \<noteq> 0" using w(2) by (simp add: unat_eq_0)
  with w(1) assms(2) show "0 < space en (b_conn b)"
    by (simp add: space_def connected_def tx_ready_def)
  then show "canSend en (b_conn b) = (\<not> pcb_busy (b_conn b))" by (simp add: canSend_def)
qed

context cbuf_bounded
begin

lemma send_buffer_progress:
  assumes "sends_succeed en" "window_open en p" "tx_ready p b" "wf b" "\<not> pcb_busy (b_conn b)"
  shows "\<exists>b'. send_buffer (Suc (Suc n)) en cb ops b = Inr b' \<and> tx_ready p b' \<and> wf b'
    \<and> stream p b' = stream p b
    \<and> (tx_left \<alpha> b' < tx_left \<alpha> b \<or> concat (map \<alpha> (b_tx b')) = [] \<and> tx_left \<alpha> b' = tx_left \<alpha> b)"
proof -
  note w = window_open_ready [OF assms(2,3)]
  obtain c cs where tx: "b_tx b = c # cs" using assms(3) by (auto simp: tx_ready_def neq_Nil_conv)
  show ?thesis
  proof (cases "\<alpha> c = []")
    case True
    then have "concat (map \<alpha> (b_tx b)) = []" using tx_wf_hd [OF assms(4)] tx by simp
    with True tx assms(3,4) show ?thesis by (auto simp: send_buffer_def available)
  next
    case False
    then have eq: "send_buffer (Suc (Suc n)) en cb ops b = send_loop (Suc (Suc n)) en cb ops b"
      using tx w assms(3,5) by (simp add: send_buffer_def available buf_connected_def del: send_loop.simps)
    from send_loop_sends [OF assms(1,3), of n cb] obtain t where
      t: "send_loop (Suc (Suc n)) en cb ops b = Inr t" "tx_ready p t" "stream p t = stream p b"
      "written p (log (b_conn t)) = written p (log (b_conn b)) @ take (space en (b_conn b)) (\<alpha> c)"
      "tx_pending \<alpha> t \<le> tx_pending \<alpha> b"
      using False tx w assms(5) by (auto simp del: send_loop.simps)
    have "wf t" by (rule okD [OF send_loop_wf [OF assms(4)] t(1)])
    have "concat (map \<alpha> (b_tx b)) = take (space en (b_conn b)) (\<alpha> c) @ concat (map \<alpha> (b_tx t))"
      using t(3,4) by (simp add: tx_stream_def)
    moreover have "0 < length (take (space en (b_conn b)) (\<alpha> c))" using False w(2) by simp
    ultimately have "length (concat (map \<alpha> (b_tx t))) < length (concat (map \<alpha> (b_tx b)))"
      by (metis length_append less_add_same_cancel2)
    then have "tx_left \<alpha> t < tx_left \<alpha> b" using t(5) by (simp add: tx_left_def assms(5))
    with eq t(1-3) \<open>wf t\<close> show ?thesis by (auto simp del: send_loop.simps)
  qed
qed

end

text \<open>
  What lwIP does while \<open>flush\<close> waits: it returns to the sketch, keeps the stream and the
  chain in order, and makes progress on a client that waits for an acknowledgement.
\<close>

locale acking_yield = cbuf_bounded ops \<alpha> cap
  for ops :: "'b cbuf_ops" and \<alpha> :: "'b \<Rightarrow> byte list" and cap :: "'b \<Rightarrow> nat" +
  fixes yield :: "'b abuf \<Rightarrow> 'b abuf res"
    and p :: pcb
  assumes progress: "tx_ready p b \<Longrightarrow> wf b \<Longrightarrow> pcb_busy (b_conn b) \<Longrightarrow>
      \<exists>b'. yield b = Inr b' \<and> tx_ready p b' \<and> wf b' \<and> tx_stream \<alpha> p b' = tx_stream \<alpha> p b
        \<and> tx_left \<alpha> b' < tx_left \<alpha> b"
begin

lemma flush_wait_returns:
  assumes "window_open en p"
  shows "tx_ready p b \<Longrightarrow> wf b \<Longrightarrow> tx_left \<alpha> b < n \<Longrightarrow>
    \<exists>b'. flush_wait n en yield b = Inr b' \<and> tx_ready p b' \<and> wf b' \<and> stream p b' = stream p b
      \<and> tx_left \<alpha> b' \<le> tx_left \<alpha> b \<and> \<not> pcb_busy (b_conn b')"
proof (induction n arbitrary: b)
  case (Suc n)
  note w = window_open_ready [OF assms Suc.prems(1)]
  show ?case
  proof (cases "pcb_busy (b_conn b)")
    case True
    from progress [OF Suc.prems(1,2) True] obtain t where
      t: "yield b = Inr t" "tx_ready p t" "wf t" "stream p t = stream p b" "tx_left \<alpha> t < tx_left \<alpha> b"
      by blast
    moreover have "tx_left \<alpha> t < n" using t(5) Suc.prems(3) by simp
    ultimately show ?thesis using Suc.IH [of t] w True by auto
  qed (use Suc.prems w in auto)
qed simp

lemma flush_empties:
  assumes "sends_succeed en" "window_open en p"
  shows "tx_ready p b \<Longrightarrow> wf b \<Longrightarrow> tx_left \<alpha> b + 2 < n \<Longrightarrow>
    \<exists>b'. buf_flush n en cb ops yield b = Inr b' \<and> tx_ready p b' \<and> wf b' \<and> stream p b' = stream p b
      \<and> concat (map \<alpha> (b_tx b')) = []"
proof (induction n arbitrary: b)
  case (Suc n)
  have tx: "b_tx b \<noteq> []" using Suc.prems(1) by (simp add: tx_ready_def)
  show ?case
  proof (cases "\<alpha> (last (b_tx b)) = []")
    case True
    with Suc.prems tx tx_wf_empty [OF Suc.prems(2)] show ?thesis by (auto simp: empty)
  next
    case False
    obtain m where n: "n = Suc m" using Suc.prems(3) by (cases n) auto
    have "tx_left \<alpha> b < Suc n" using Suc.prems(3) by simp
    from flush_wait_returns [OF assms(2) Suc.prems(1,2) this] obtain t where
      t: "flush_wait (Suc n) en yield b = Inr t" "tx_ready p t" "wf t" "stream p t = stream p b"
      "tx_left \<alpha> t \<le> tx_left \<alpha> b" "\<not> pcb_busy (b_conn t)" by blast
    from send_buffer_progress [OF assms t(2,3,6), of m cb] obtain v where
      v: "send_buffer (Suc n) en cb ops t = Inr v" "tx_ready p v" "wf v" "stream p v = stream p t"
      "tx_left \<alpha> v < tx_left \<alpha> t \<or> concat (map \<alpha> (b_tx v)) = [] \<and> tx_left \<alpha> v = tx_left \<alpha> t"
      unfolding n by blast
    have "\<exists>b'. buf_flush n en cb ops yield v = Inr b' \<and> tx_ready p b' \<and> wf b' \<and> stream p b' = stream p v
      \<and> concat (map \<alpha> (b_tx b')) = []"
    proof (cases "concat (map \<alpha> (b_tx v)) = []")
      case True
      have vtx: "b_tx v \<noteq> []" using v(2) by (simp add: tx_ready_def)
      then have "\<alpha> (last (b_tx v)) = []" using True last_in_set [of "b_tx v"] by auto
      with vtx v(2,3) True show ?thesis by (auto simp: n empty)
    next
      case False
      then have "tx_left \<alpha> v < tx_left \<alpha> t" using v(5) by blast
      then have "tx_left \<alpha> v + 2 < n" using t(5) Suc.prems(3) by simp
      from Suc.IH [OF v(2,3) this] show ?thesis .
    qed
    moreover have "buf_connected en t" by (rule window_open_ready(1) [OF assms(2) t(2)])
    ultimately show ?thesis
      using tx False t(1,4) v(1,4) by (simp add: empty del: flush_wait.simps)
  qed
qed simp

end

section \<open>lwIP acknowledging\<close>

text \<open>While \<open>flush\<close> waits, lwIP reports \<open>len\<close> more bytes acknowledged.\<close>

definition ack_yield :: "nat \<Rightarrow> env \<Rightarrow> 'b cbuf_ops \<Rightarrow> u16 \<Rightarrow> 'b abuf \<Rightarrow> 'b abuf res" where
  "ack_yield n en ops len b = rbind (tx_step n en ops (Tx_sent len) b) (\<lambda>(xs, b). Inr b)"

lemma client_sent_acks:
  assumes "c_pcb s = Some p" "\<not> use_tls s" "life s = Alive" "pcb_busy s" "len \<noteq> 0"
  shows "\<exists>s'. client_sent en (\<lambda>ev s. Inr s) len s = Inr s' \<and> c_pcb s' = Some p \<and> \<not> use_tls s'
    \<and> life s' = Alive \<and> written p (log s') = written p (log s)
    \<and> unat (tx_unacked_len s') + (if pcb_busy s' then 1 else 0) < unat (tx_unacked_len s) + 1
    \<and> (tx_unacked_len s' = 0 \<longrightarrow> \<not> pcb_busy s')"
proof -
  let ?u = "tx_unacked_len s - (if tx_unacked_len s > ucast len then ucast len else tx_unacked_len s)"
  have "unat (ucast len :: u32) = unat len" by (rule unat_ucast16)
  moreover have "0 < unat len" using assms(5) by (simp add: unat_gt_0)
  ultimately have "?u \<noteq> 0 \<Longrightarrow> unat ?u < unat (tx_unacked_len s)"
    unfolding word_sub_min_unat by (auto simp: unat_eq_0 [symmetric] word_sub_min_unat)
  then show ?thesis
    using assms by (auto simp: client_sent_def millis_def Let_def invoke_def touch_def
        set_close_error_def emit_def split: if_splits)
qed

context cbuf_bounded
begin

lemma ack_progress:
  assumes en: "sends_succeed en" "window_open en p" and "len \<noteq> 0"
    and b: "tx_ready p b" "wf b" "pcb_busy (b_conn b)"
  shows "\<exists>b'. ack_yield (Suc (Suc n)) en ops len b = Inr b' \<and> tx_ready p b' \<and> wf b'
    \<and> stream p b' = stream p b \<and> tx_left \<alpha> b' < tx_left \<alpha> b"
proof -
  let ?idle = "\<lambda>ev s. Inr s :: conn res"
  from client_sent_acks [of "b_conn b" p len en] b assms(3) obtain t where
    t: "client_sent en ?idle len (b_conn b) = Inr t" "c_pcb t = Some p" "\<not> use_tls t" "life t = Alive"
      "written p (log t) = written p (log (b_conn b))"
      "unat (tx_unacked_len t) + (if pcb_busy t then 1 else 0) < unat (tx_unacked_len (b_conn b)) + 1"
      "tx_unacked_len t = 0 \<longrightarrow> \<not> pcb_busy t"
    by (auto simp: tx_ready_def)
  let ?b = "b\<lparr>b_conn := t\<rparr>"
  have u: "tx_ready p ?b" "wf ?b" "stream p ?b = stream p b" "tx_left \<alpha> ?b < tx_left \<alpha> b"
    using t b by (simp_all add: tx_ready_def tx_stream_def tx_left_def tx_pending_def)
  show ?thesis
  proof (cases "tx_unacked_len t = 0 \<and> sent_cb t")
    case False
    with t(1) u show ?thesis by (auto simp: ack_yield_def tx_step_def Let_def)
  next
    case True
    with t(7) have "\<not> pcb_busy (b_conn ?b)" by simp
    from send_buffer_progress [OF en u(1,2) this, of n ?idle] obtain v where
      v: "send_buffer (Suc (Suc n)) en ?idle ops ?b = Inr v" "tx_ready p v" "wf v"
        "stream p v = stream p ?b" "tx_left \<alpha> v \<le> tx_left \<alpha> ?b"
      by fastforce
    have "b_alive ?b" using u(1) by (simp add: tx_ready_def)
    with True t(1) u(3,4) v show ?thesis
      by (auto simp: ack_yield_def tx_step_def on_ack_def b_touch_def Let_def)
  qed
qed

lemma ack_yield_acks:
  assumes "sends_succeed en" "window_open en p" "len \<noteq> 0"
  shows "acking_yield ops \<alpha> cap (ack_yield (Suc (Suc n)) en ops len) p"
  by unfold_locales (rule ack_progress [OF assms])

end

interpretation quiet_acks: acking_yield list_cbuf snd fst "ack_yield 2 quiet_env list_cbuf 1" 1
  by (rule list_cbuf_bounded.ack_yield_acks [of quiet_env 1 1 0, folded numeral_2_eq_2])
    (simp_all add: sends_succeed_def window_open_def quiet_env_def)

text \<open>
  C14: \<open>flush\<close> does what its comment says: on an open connection on which sending succeeds,
  and with lwIP acknowledging some bytes whenever \<open>flush\<close> waits, it returns, all that was
  queued has been handed to lwIP, in order and once, and the queue is empty.  It looks only
  at the last \<open>cbuf\<close>, which is enough on every chain that \<open>write\<close> builds (\<open>tx_wf\<close>).  Fuel:
  three per queued byte, one per byte lwIP already has, and four.
\<close>

theorem flush_sends_everything:
  assumes "cbuf_bounded ops \<alpha> cap" "sends_succeed en" "window_open en p"
    and "tx_ready p b" "tx_wf \<alpha> cap b" "len \<noteq> 0" "tx_left \<alpha> b + 2 < n"
  shows "\<exists>b'. buf_flush n en cb ops (ack_yield (Suc (Suc m)) en ops len) b = Inr b'
    \<and> concat (map \<alpha> (b_tx b')) = []
    \<and> written p (log (b_conn b')) = written p (log (b_conn b)) @ concat (map \<alpha> (b_tx b))"
proof -
  have "acking_yield ops \<alpha> cap (ack_yield (Suc (Suc m)) en ops len) p"
    by (rule cbuf_bounded.ack_yield_acks [OF assms(1-3,6)])
  from acking_yield.flush_empties [OF this assms(2-5,7), of cb] obtain b' where
    "buf_flush n en cb ops (ack_yield (Suc (Suc m)) en ops len) b = Inr b'"
    "concat (map \<alpha> (b_tx b')) = []" "tx_stream \<alpha> p b' = tx_stream \<alpha> p b" by blast
  then show ?thesis by (simp only: tx_stream_def append_Nil2) blast
qed

theorem flush_sends_everything_witness:
  "\<exists>b'. buf_flush 40 quiet_env idle_user list_cbuf (ack_yield 2 quiet_env list_cbuf 1)
      (buf0\<lparr>b_tx := [(2, [1, 2]), (3, [3, 4])]\<rparr>) = Inr b'
    \<and> concat (map snd (b_tx b')) = [] \<and> written 1 (log (b_conn b')) = [1, 2, 3, 4]"
proof -
  have "cbuf_bounded list_cbuf snd fst" by (rule list_cbuf_bounded.cbuf_bounded_axioms)
  moreover have "window_open quiet_env 1" by (simp add: window_open_def quiet_env_def)
  moreover have "tx_ready 1 (buf0\<lparr>b_tx := [(2, [1, 2]), (3, [3, 4])]\<rparr>)"
    using buf0_ready(1) by (simp add: tx_ready_def)
  moreover have "tx_wf snd fst (buf0\<lparr>b_tx := [(2, [1, 2]), (3, [3, 4])]\<rparr>)"
    by (simp add: tx_wf_def)
  moreover have "tx_left snd (buf0\<lparr>b_tx := [(2, [1, 2]), (3, [3, 4])]\<rparr>) + 2 < 40"
    by (simp add: tx_left_def tx_pending_def buf0_eval)
  ultimately show ?thesis
    using flush_sends_everything [OF _ buf0_ready(2), of list_cbuf snd fst 1
        "buf0\<lparr>b_tx := [(2, [1, 2]), (3, [3, 4])]\<rparr>" 1 40 idle_user 0] buf0_conn(3)
    by (auto simp: numeral_2_eq_2)
qed

text \<open>
  C17: a \<open>write\<close>, an acknowledgement or a poll, with the sending each of them does, keeps the
  chain of send buffers well formed, when it returns: there is at least one \<open>cbuf\<close>, each has
  a positive capacity and holds no more bytes than that, and if there are several, none of
  them is empty, so that \<open>flush\<close> may look at the last one only.  (That a single \<open>cbuf\<close> takes
  no more than its room is its contract; the property is about the chain of them.)
\<close>

theorem chain_well_formed:
  assumes "cbuf_bounded ops \<alpha> cap" "tx_wf \<alpha> cap b" "tx_fits \<alpha> cap b" "tx_step n en ops e b = Inr (xs, b')"
  shows "tx_wf \<alpha> cap b' \<and> tx_fits \<alpha> cap b'"
  using okD [OF cbuf_bounded.tx_step_wf [OF assms(1,2)] assms(4)]
    okD [OF cbuf_bounded.tx_step_fits [OF assms(1,3)] assms(4)] by simp

theorem chain_well_formed_witness:
  "\<exists>xs b'. tx_step 8 quiet_env list_cbuf (Tx_write [1, 2, 3]) buf0 = Inr (xs, b')
    \<and> tx_wf snd fst b' \<and> tx_fits snd fst b'"
proof -
  have "tx_wf snd fst buf0" "tx_fits snd fst buf0" by (simp_all add: tx_wf_def tx_fits_def buf0_def)
  moreover obtain xs b' where "tx_step 8 quiet_env list_cbuf (Tx_write [1, 2, 3]) buf0 = Inr (xs, b')"
    using cbuf_fifo.tx_step_fifo [OF list_cbuf.cbuf_fifo_axioms buf0_ready(2,1), of "Tx_write [1, 2, 3]" 8]
    by auto
  ultimately show ?thesis
    using chain_well_formed [OF list_cbuf_bounded.cbuf_bounded_axioms] by blast
qed

section \<open>stop\<close>

text \<open>Read requests that are reported as failed.\<close>

definition failed_dones :: "buf_ev list \<Rightarrow> nat" where
  "failed_dones h = length (filter (\<lambda>e. e = BE_done False) h)"

definition pending_request :: "'b abuf \<Rightarrow> bool" where
  "pending_request b \<longleftrightarrow> b_cb_done b \<and> b_mode b \<in> {RX_READ_BYTES, RX_TERMINATOR, RX_TERMINATOR_STRING}"

text \<open>What a callback may do to a buffer that has no client.\<close>

definition stopped_same :: "'b abuf \<Rightarrow> 'b abuf \<Rightarrow> bool" where
  "stopped_same b b' \<longleftrightarrow> \<not> b_client b' \<and> b_alive b' = b_alive b \<and> b_conn b' = b_conn b
     \<and> b_tx b' = b_tx b \<and> b_rx b' = b_rx b \<and> b_out b' = b_out b"

lemma stopped_same_trans: "stopped_same a b \<Longrightarrow> stopped_same b c \<Longrightarrow> stopped_same a c"
  by (simp add: stopped_same_def)

lemma stopped_script:
  "\<not> b_client b \<Longrightarrow> \<exists>b'. buf_script n en cb ops os b = Inr b' \<and> stopped_same b b'"
proof (induction os arbitrary: b)
  case (Cons o1 os)
  have "\<exists>t. buf_do n en cb ops o1 b = Inr t \<and> stopped_same b t"
    using Cons.prems by (cases o1) (auto simp: noCallback_def readStringUntil_def readBytes_def
        buf_onData_def buf_onDisconnect_def buf_write_def stopped_same_def split: option.split)
  then obtain t where t: "buf_do n en cb ops o1 b = Inr t" "stopped_same b t" by blast
  then have "\<not> b_client t" by (simp add: stopped_same_def)
  from Cons.IH [OF this] t show ?case by (auto intro: stopped_same_trans)
qed (simp add: stopped_same_def)

text \<open>
  C34: \<open>stop\<close> ends a pending read request with \<open>done(false)\<close>, exactly once, whatever the
  callback does then; a buffer without a request calls nothing.  The connection is closed
  by the next poll.  Bytes that were queued are dropped: after \<open>stop\<close> neither an
  acknowledgement nor a poll sends anything, and \<open>write\<close> takes nothing.
\<close>

theorem stop_contract:
  assumes "b_client b" "b_alive b" "b_tx b \<noteq> []"
  shows "\<exists>b'. buf_stop en cb (script_user n en cb ops f g) b = Inr b'
    \<and> \<not> b_client b' \<and> b_alive b' \<and> b_mode b' = RX_NONE \<and> close_pcb (b_conn b')
    \<and> c_pcb (b_conn b') = c_pcb (b_conn b) \<and> b_tx b' = b_tx b
    \<and> failed_dones (b_out b') = failed_dones (b_out b) + (if pending_request b then 1 else 0)
    \<and> written p (log (b_conn b')) = written p (log (b_conn b))
    \<and> on_ack m en cb ops b' = Inr b' \<and> on_poll m en cb ops b' = Inr b'
    \<and> buf_write m en cb ops data b' = Inr (0, b')"
proof -
  let ?s = "(case c_pcb (b_conn b) of None \<Rightarrow> b_conn b
     | Some p \<Rightarrow> emit (A_tcp_recved (Some p) (rx_ack_len (b_conn b))) (b_conn b))\<lparr>close_pcb := True\<rparr>"
  have s: "close en cb False (b_conn b) = Inr ?s" by (simp add: close_def)
  have same: "c_pcb ?s = c_pcb (b_conn b)" "written p (log ?s) = written p (log (b_conn b))" "close_pcb ?s"
    by (auto simp: emit_def split: option.split)
  let ?b = "b\<lparr>b_conn := ?s, b_client := False\<rparr>"
  have "\<exists>t. (if pending_request b
      then u_done (script_user n en cb ops f g) False (b_emit (BE_done False) (?b\<lparr>b_mode := RX_NONE\<rparr>))
      else Inr ?b) = Inr t \<and> \<not> b_client t \<and> b_alive t \<and> b_conn t = ?s \<and> b_tx t = b_tx b
    \<and> failed_dones (b_out t) = failed_dones (b_out b) + (if pending_request b then 1 else 0)"
    using stopped_script [of "b_emit (BE_done False) (?b\<lparr>b_mode := RX_NONE\<rparr>)" n en cb ops g] assms(2)
    by (auto simp: script_user_def b_emit_def stopped_same_def failed_dones_def)
  then obtain t where t: "(if pending_request b
      then u_done (script_user n en cb ops f g) False (b_emit (BE_done False) (?b\<lparr>b_mode := RX_NONE\<rparr>))
      else Inr ?b) = Inr t" "\<not> b_client t" "b_alive t" "b_conn t = ?s" "b_tx t = b_tx b"
    "failed_dones (b_out t) = failed_dones (b_out b) + (if pending_request b then 1 else 0)" by blast
  have "buf_stop en cb (script_user n en cb ops f g) b = Inr (t\<lparr>b_mode := RX_NONE\<rparr>)"
    using assms(1) t(1,3) s by (simp add: buf_stop_def pending_request_def b_touch_def Let_def)
  moreover have "on_ack m en cb ops (t\<lparr>b_mode := RX_NONE\<rparr>) = Inr (t\<lparr>b_mode := RX_NONE\<rparr>)"
    "on_poll m en cb ops (t\<lparr>b_mode := RX_NONE\<rparr>) = Inr (t\<lparr>b_mode := RX_NONE\<rparr>)"
    "buf_write m en cb ops data (t\<lparr>b_mode := RX_NONE\<rparr>) = Inr (0, t\<lparr>b_mode := RX_NONE\<rparr>)"
    using t(2,3,5) assms(3) by (auto simp: on_ack_def on_poll_def b_touch_def send_buffer_def
        buf_write_def split: list.split option.split)
  ultimately show ?thesis using t same by auto
qed

theorem stop_contract_witness:
  "\<exists>b'. buf_stop quiet_env idle_user (script_user 0 quiet_env idle_user list_cbuf (\<lambda>d. (0, [])) [O_onData True])
      (readBytes True 4 True (buf0\<lparr>b_tx := [(1459, [1, 2])]\<rparr>)) = Inr b'
    \<and> \<not> b_client b' \<and> failed_dones (b_out b') = 1 \<and> written 1 (log (b_conn b')) = []"
  using stop_contract [of "readBytes True 4 True (buf0\<lparr>b_tx := [(1459, [1, 2])]\<rparr>)" quiet_env idle_user 0
      list_cbuf "\<lambda>d. (0, [])" "[O_onData True]" 1 0 None] buf0_facts(1,4) buf0_conn(3)
  by (auto simp: readBytes_def pending_request_def failed_dones_def buf0_def)

definition deletions :: "hist \<Rightarrow> nat" where
  "deletions h = length (filter (\<lambda>a. a = A_delete_client) h)"

text \<open>
  C35: the poll after \<open>stop\<close> ends everything: with the handlers the buffer installed, and
  \<open>tcp_close\<close> succeeding, \<open>_poll\<close> closes the connection, the disconnect handler deletes the
  client and the buffer, both once, and nothing is used after it was deleted.
\<close>

theorem stop_then_poll_deletes:
  assumes "\<forall>h. e_close en h = ERR_OK" "b_alive b" "\<not> b_client b"
    and s: "s = b_conn b" "close_pcb s" "c_pcb s = Some p" "\<not> use_tls s" "life s = Alive" "discard_cb s"
  shows "\<exists>s'. client_poll en (buf_cb m en ops (script_user n en cb ops f g) b) s = Inr s'
    \<and> life s' = Dead \<and> c_pcb s' = None \<and> deletions (log s') = deletions (log s) + 1
    \<and> A_tcp_close p ERR_OK \<in> set (log s')"
proof -
  let ?u = "script_user n en cb ops f g"
  have del: "\<exists>b'. on_disconnect en idle_user ?u (b\<lparr>b_conn := t\<rparr>) = Inr b' \<and> life (b_conn b') = Dead
      \<and> c_pcb (b_conn b') = None \<and> deletions (log (b_conn b')) = deletions (log t) + 1
      \<and> set (log t) \<subseteq> set (log (b_conn b'))"
    if "life t = Alive" "c_pcb t = None" for t
    using that assms(2,3)
    by (auto simp: on_disconnect_def b_touch_def script_user_def delete_client_def do_close_def Let_def
        delete_buffer_def b_emit_def deletions_def emit_def)
  let ?s = "(set_close_error ERR_OK s)\<lparr>close_pcb := False\<rparr>"
  let ?t = "emit (A_cb CB_disconnect) (closed_state en p ?s)"
  have s': "c_pcb ?s = Some p" "life ?s = Alive" "discard_cb ?s" "close_pcb (set_close_error ERR_OK s)"
    using s by (simp_all add: set_close_error_def)
  have t: "life ?t = Alive" "c_pcb ?t = None"
    using closed_state [OF s'(1), of en] s'(2) by (simp_all add: emit_def)
  have log: "deletions (log ?t) = deletions (log s)" "A_tcp_close p ERR_OK \<in> set (log ?t)"
    using s(4) assms(1)
    by (simp_all add: closed_state_def closing_defs set_close_error_def Let_def deletions_def)
  from del [OF t] obtain b' where b': "on_disconnect en idle_user ?u (b\<lparr>b_conn := ?t\<rparr>) = Inr b'"
    "life (b_conn b') = Dead" "c_pcb (b_conn b') = None"
    "deletions (log (b_conn b')) = deletions (log ?t) + 1" "set (log ?t) \<subseteq> set (log (b_conn b'))"
    by blast
  have "client_poll en (buf_cb m en ops ?u b) s = do_close en (buf_cb m en ops ?u b) ?s"
    using s'(4) by (simp add: client_poll_def)
  also have "\<dots> = Inr (b_conn b')"
    using do_close_closed_state [OF s'(1)] s'(2,3) b'(1)
    by (simp add: invoke_if_def invoke_def buf_cb_def)
  finally show ?thesis using b' log by auto
qed

theorem stop_then_poll_deletes_witness:
  "\<exists>b' s'. buf_stop quiet_env idle_user (script_user 0 quiet_env idle_user list_cbuf (\<lambda>d. (0, [])) []) buf0 = Inr b'
    \<and> client_poll quiet_env (buf_cb 2 quiet_env list_cbuf
        (script_user 0 quiet_env idle_user list_cbuf (\<lambda>d. (0, [])) []) b') (b_conn b') = Inr s'
    \<and> life s' = Dead \<and> deletions (log s') = 1"
proof -
  let ?b = "buf0\<lparr>b_conn := (emit (A_tcp_recved (Some 1) 0) (b_conn buf0))\<lparr>close_pcb := True\<rparr>,
      b_client := False, b_mode := RX_NONE\<rparr>"
  have "buf_stop quiet_env idle_user (script_user 0 quiet_env idle_user list_cbuf (\<lambda>d. (0, [])) []) buf0 = Inr ?b"
    by (simp add: buf_stop_def close_def Let_def b_touch_def buf0_eval)
  moreover have "\<forall>h. e_close quiet_env h = ERR_OK" by (simp add: quiet_env_def)
  ultimately show ?thesis
    using stop_then_poll_deletes [of quiet_env ?b "b_conn ?b" 1 2 list_cbuf 0 idle_user "\<lambda>d. (0, [])" "[]"]
    by (auto simp: deletions_def emit_def buf0_eval)
qed

section \<open>The remaining overloads\<close>

text \<open>
  \<open>write(String&)\<close>, \<open>write(uint8_t)\<close> and \<open>write(const char*)\<close>; the last one measures its
  argument with \<open>strlen\<close> before the check for NULL: \<open>Some m\<close> is the memory it points to.
\<close>

definition buf_write_string ::
  "nat \<Rightarrow> env \<Rightarrow> user \<Rightarrow> 'b cbuf_ops \<Rightarrow> byte list \<Rightarrow> 'b abuf \<Rightarrow> (nat \<times> 'b abuf) res" where
  "buf_write_string n en cb ops str b = buf_write n en cb ops (Some str) b"

definition buf_write_byte ::
  "nat \<Rightarrow> env \<Rightarrow> user \<Rightarrow> 'b cbuf_ops \<Rightarrow> byte \<Rightarrow> 'b abuf \<Rightarrow> (nat \<times> 'b abuf) res" where
  "buf_write_byte n en cb ops x b = buf_write n en cb ops (Some [x]) b"

definition buf_write_cstr ::
  "nat \<Rightarrow> env \<Rightarrow> user \<Rightarrow> 'b cbuf_ops \<Rightarrow> byte list option \<Rightarrow> 'b abuf \<Rightarrow> (nat \<times> 'b abuf) res" where
  "buf_write_cstr n en cb ops data b = (case data of None \<Rightarrow> Inl Null_pointer
     | Some m \<Rightarrow> buf_write n en cb ops (Some (takeWhile (\<lambda>x. x \<noteq> 0) m)) b)"

text \<open>A string is written up to its first NUL by one overload and whole by the other.\<close>

lemma write_cstr_string:
  "buf_write_cstr n en cb ops (Some (str @ 0 # rest)) b = buf_write_string n en cb ops str b
    \<longleftrightarrow> buf_write n en cb ops (Some (takeWhile (\<lambda>x. x \<noteq> 0) str)) b = buf_write n en cb ops (Some str) b"
proof -
  have "takeWhile (\<lambda>x. x \<noteq> 0) (str @ 0 # rest) = takeWhile (\<lambda>x. x \<noteq> 0) str"
    by (induction str) auto
  then show ?thesis by (simp add: buf_write_cstr_def buf_write_string_def)
qed

text \<open>\<open>remoteIP\<close> and \<open>remotePort\<close>, 0 without a client or a pcb.\<close>

definition buf_remoteIP :: "env \<Rightarrow> 'b abuf \<Rightarrow> ip" where
  "buf_remoteIP en b = (if \<not> b_client b then 0
     else case c_pcb (b_conn b) of None \<Rightarrow> 0 | Some p \<Rightarrow> e_remote_ip en p)"

definition buf_remotePort :: "env \<Rightarrow> 'b abuf \<Rightarrow> u16" where
  "buf_remotePort en b = (if \<not> b_client b then 0
     else case c_pcb (b_conn b) of None \<Rightarrow> 0 | Some p \<Rightarrow> e_remote_port en p)"

end
