(* ===== verification/Pem.thy ===== *)
theory Pem
  imports SslEngine
begin

text \<open>
  Server certificates (tcp_bearssl.cpp): \<open>parse_certificates\<close> cuts a PEM text into
  certificates with BearSSL's streaming PEM decoder, and \<open>tcp_ssl_new_server_ctx\<close> builds a
  server context of them and a private key.  The decoder and the key parser are not under
  src/ and are parameters; the locale \<open>pem_stream\<close> states what BearSSL documents of the
  decoder.  A C string is the list of its bytes without the terminating NUL.
\<close>

section \<open>BearSSL's PEM decoder\<close>

text \<open>
  \<open>pd_push\<close>: the number of bytes consumed, and the chunks given to the destination callback.
  \<open>pd_event\<close> reads and clears the pending event.
\<close>

record 'd pem_decoder =
  pd_init :: 'd
  pd_push :: "byte list \<Rightarrow> 'd \<Rightarrow> nat \<times> byte list list \<times> 'd"
  pd_event :: "'d \<Rightarrow> int \<times> 'd"
  pd_name :: "'d \<Rightarrow> string"

definition BR_PEM_BEGIN_OBJ :: int where "BR_PEM_BEGIN_OBJ = 1"
definition BR_PEM_END_OBJ :: int where "BR_PEM_END_OBJ = 2"
definition BR_PEM_ERROR :: int where "BR_PEM_ERROR = 3"

lemmas pem_events = BR_PEM_BEGIN_OBJ_def BR_PEM_END_OBJ_def BR_PEM_ERROR_def

section \<open>parse_certificates\<close>

text \<open>
  The parse context with the certificate vector; \<open>p_live\<close> counts the blocks that were
  allocated here and not freed.
\<close>

record pem_ctx =
  p_certs :: "byte list list"
  p_buf :: "byte list option"
  p_error :: bool
  p_live :: nat

text \<open>\<open>free(pctx.buf)\<close> and the two assignments after it.\<close>

definition drop_buf :: "pem_ctx \<Rightarrow> pem_ctx" where
  "drop_buf c = c\<lparr>p_live := p_live c - (if p_buf c = None then 0 else 1), p_buf := None\<rparr>"

text \<open>Free all certificates and clear the vector.\<close>

definition drop_certs :: "pem_ctx \<Rightarrow> pem_ctx" where
  "drop_certs c = c\<lparr>p_live := p_live c - length (p_certs c), p_certs := []\<rparr>"

definition buf_bytes :: "pem_ctx \<Rightarrow> byte list" where
  "buf_bytes c = (case p_buf c of None \<Rightarrow> [] | Some bs \<Rightarrow> bs)"

definition append_to_cert_vector ::
  "env \<Rightarrow> byte list \<Rightarrow> pem_ctx \<times> 'a world_scheme \<Rightarrow> pem_ctx \<times> 'a world_scheme" where
  "append_to_cert_vector en data = (\<lambda>(c, s).
     if p_error c then (c, s)
     else let ok = e_alloc en (log s); s = emit (A_alloc (length (buf_bytes c) + length data)) s
       in if \<not> ok then (drop_buf (c\<lparr>p_error := True\<rparr>), s)
          else (c\<lparr>p_live := p_live c + (if p_buf c = None then 1 else 0),
                   p_buf := Some (buf_bytes c @ data)\<rparr>, s))"

definition on_event :: "int \<Rightarrow> string \<Rightarrow> pem_ctx \<Rightarrow> pem_ctx" where
  "on_event event name c =
     (if event = BR_PEM_BEGIN_OBJ then drop_buf c
      else if event = BR_PEM_END_OBJ then
        (if buf_bytes c \<noteq> [] \<and> name = ''CERTIFICATE''
         then c\<lparr>p_certs := p_certs c @ [buf_bytes c], p_buf := None\<rparr>
         else drop_buf c)
      else c)"

fun parse_loop ::
  "nat \<Rightarrow> env \<Rightarrow> 'd pem_decoder \<Rightarrow> byte list \<Rightarrow> 'd \<Rightarrow> pem_ctx \<times> 'a world_scheme \<Rightarrow>
   (nat \<times> pem_ctx \<times> 'a world_scheme) res" where
  "parse_loop 0 en dec data pc cs = Inl No_return"
| "parse_loop (Suc n) en dec data pc cs =
     (if data = [] then Inr (length (p_certs (fst cs)), cs)
      else let (k, chunks, pc) = pd_push dec data pc;
               (c, s) = fold (append_to_cert_vector en) chunks cs
           in if p_error c then Inr (0, drop_certs c, s)
              else let (event, pc') = pd_event dec pc
                in if event < 0 then Inr (0, drop_certs (drop_buf c), s)
                   else if k > length data then Inl Out_of_bounds
                   else parse_loop n en dec (drop k data) pc'
                          (on_event event (pd_name dec pc) c, s))"

definition parse_certificates ::
  "nat \<Rightarrow> env \<Rightarrow> 'd pem_decoder \<Rightarrow> byte list option \<Rightarrow> 'a world_scheme \<Rightarrow>
   (nat \<times> pem_ctx \<times> 'a world_scheme) res" where
  "parse_certificates n en dec pem s =
     (let c = \<lparr>p_certs = [], p_buf = None, p_error = False, p_live = 0\<rparr>
      in case pem of None \<Rightarrow> Inr (0, c, s)
         | Some data \<Rightarrow> parse_loop n en dec data (pd_init dec) (c, s))"

section \<open>Server contexts\<close>

text \<open>
  A string in flash memory (\<open>True\<close>: at an address from 0x40200000) is first copied to the
  heap.  \<open>key_of\<close> is what \<open>BearSSL::PrivateKey\<close> makes of the key text.
\<close>

definition copy_progmem ::
  "env \<Rightarrow> bool \<times> byte list \<Rightarrow> 'a world_scheme \<Rightarrow> byte list option \<times> 'a world_scheme" where
  "copy_progmem en str s = (if fst str
     then (if e_alloc en (log s) then Some (snd str) else None, emit (A_alloc (length (snd str) + 1)) s)
     else (Some (snd str), s))"

definition tcp_ssl_new_server_ctx ::
  "nat \<Rightarrow> env \<Rightarrow> 'd pem_decoder \<Rightarrow> (byte list \<Rightarrow> key_kind) \<Rightarrow> (bool \<times> byte list) option \<Rightarrow>
   (bool \<times> byte list) option \<Rightarrow> 'a world_scheme \<Rightarrow> (ssl_ctx option \<times> 'a world_scheme) res" where
  "tcp_ssl_new_server_ctx n en dec key_of cert_pem key_pem s = (case (cert_pem, key_pem) of
     (Some cert_pem, Some key_pem) \<Rightarrow>
       (case copy_progmem en cert_pem s of
          (None, s) \<Rightarrow> Inr (None, s)
        | (Some cert, s) \<Rightarrow> (case copy_progmem en key_pem s of
            (None, s) \<Rightarrow> Inr (None, s)
          | (Some key, s) \<Rightarrow>
             if \<not> e_alloc en (log s) then Inr (None, s)
             else rbind (parse_certificates n en dec (Some cert) (emit A_new_ctx s)) (\<lambda>(m, c, s).
               if m = 0 then Inr (None, emit A_delete_ctx s)
               else if \<not> e_alloc en (log s) then Inr (None, emit A_delete_ctx s)
               else if key_of key = Key_none then Inr (None, emit A_delete_ctx s)
               else Inr (Some \<lparr>chain_length = length (p_certs c), pk = Some (key_of key)\<rparr>, s))))
   | _ \<Rightarrow> Inr (None, s))"

section \<open>What the decoder promises\<close>

text \<open>
  A PEM text is a sequence of objects and errors.  \<open>items d xs\<close> is what a decoder in state
  \<open>d\<close> still finds in the text \<open>xs\<close>: \<open>pd_push\<close> consumes some of the text, delivers data of the
  current object, and stops at most at the next event, which is read with \<open>pd_event\<close>.
\<close>

datatype pem_item = P_begin | P_data "byte list" | P_end string | P_error

definition event_items :: "int \<Rightarrow> string \<Rightarrow> pem_item list" where
  "event_items event name =
     (if event = BR_PEM_BEGIN_OBJ then [P_begin] else if event = BR_PEM_END_OBJ then [P_end name]
      else if event = BR_PEM_ERROR then [P_error] else [])"

text \<open>The certificates of a sequence of items; the first argument is the object being read.\<close>

fun certs_of :: "byte list \<Rightarrow> pem_item list \<Rightarrow> byte list list" where
  "certs_of cur [] = []"
| "certs_of cur (P_begin # is) = certs_of [] is"
| "certs_of cur (P_data bs # is) = certs_of (cur @ bs) is"
| "certs_of cur (P_end name # is) =
     (if cur \<noteq> [] \<and> name = ''CERTIFICATE'' then cur # certs_of [] is else certs_of [] is)"
| "certs_of cur (P_error # is) = certs_of cur is"

fun unfinished :: "byte list \<Rightarrow> bool \<Rightarrow> pem_item list \<Rightarrow> bool" where
  "unfinished cur b [] = b"
| "unfinished cur b (P_begin # is) = unfinished [] False is"
| "unfinished cur b (P_data bs # is) = unfinished (cur @ bs) True is"
| "unfinished cur b (P_end name # is) = unfinished [] False is"
| "unfinished cur b (P_error # is) = unfinished cur b is"

locale pem_stream =
  fixes dec :: "'d pem_decoder"
    and items :: "'d \<Rightarrow> byte list \<Rightarrow> pem_item list"
  assumes no_text: "items d [] = []"
    and push: "xs \<noteq> [] \<Longrightarrow> pd_push dec xs d = (k, cs, d') \<Longrightarrow> pd_event dec d' = (ev, d'') \<Longrightarrow>
        0 < k \<and> k \<le> length xs \<and> 0 \<le> ev
      \<and> items d xs = map P_data cs @ event_items ev (pd_name dec d') @ items d'' (drop k xs)"
begin

definition pem_inv :: "pem_ctx \<Rightarrow> bool" where
  "pem_inv c \<longleftrightarrow> \<not> p_error c \<and> p_live c = length (p_certs c) + (if p_buf c = None then 0 else 1)"

lemma append_chunks:
  assumes "\<forall>h. e_alloc en h"
  shows "pem_inv c \<Longrightarrow> \<exists>c' s'. fold (append_to_cert_vector en) cs (c, s) = (c', s') \<and> pem_inv c'
    \<and> p_certs c' = p_certs c
    \<and> (\<forall>is. certs_of (buf_bytes c) (map P_data cs @ is) = certs_of (buf_bytes c') is)
    \<and> (\<forall>is. unfinished (buf_bytes c) (p_buf c \<noteq> None) (map P_data cs @ is)
        = unfinished (buf_bytes c') (p_buf c' \<noteq> None) is)"
proof (induction cs arbitrary: c s)
  case (Cons x cs)
  let ?c = "c\<lparr>p_live := p_live c + (if p_buf c = None then 1 else 0), p_buf := Some (buf_bytes c @ x)\<rparr>"
  have "append_to_cert_vector en x (c, s) = (?c, emit (A_alloc (length (buf_bytes c) + length x)) s)"
    using assms Cons.prems by (simp add: append_to_cert_vector_def pem_inv_def Let_def)
  moreover have "pem_inv ?c" using Cons.prems by (simp add: pem_inv_def)
  ultimately show ?case
    using Cons.IH [of ?c "emit (A_alloc (length (buf_bytes c) + length x)) s"]
    by (auto simp: buf_bytes_def)
qed auto

lemma on_event_items:
  assumes "pem_inv c" "0 \<le> ev"
  shows "pem_inv (on_event ev nm c)"
    and "p_certs c @ certs_of (buf_bytes c) (event_items ev nm @ is)
      = p_certs (on_event ev nm c) @ certs_of (buf_bytes (on_event ev nm c)) is"
    and "unfinished (buf_bytes c) (p_buf c \<noteq> None) (event_items ev nm @ is)
      = unfinished (buf_bytes (on_event ev nm c)) (p_buf (on_event ev nm c) \<noteq> None) is"
  using assms
  by (auto simp: pem_inv_def on_event_def drop_buf_def event_items_def pem_events buf_bytes_def
      split: option.splits)

lemma parse_loop_collects:
  assumes "\<forall>h. e_alloc en h"
  shows "pem_inv c \<Longrightarrow> length data < n \<Longrightarrow>
    \<exists>c' s'. parse_loop n en dec data d (c, s) = Inr (length (p_certs c'), c', s')
      \<and> p_certs c' = p_certs c @ certs_of (buf_bytes c) (items d data) \<and> pem_inv c'
      \<and> (p_buf c' \<noteq> None \<longleftrightarrow> unfinished (buf_bytes c) (p_buf c \<noteq> None) (items d data))"
proof (induction n arbitrary: data d c s)
  case (Suc n)
  show ?case
  proof (cases "data = []")
    case True
    then show ?thesis using Suc.prems no_text [of d] by auto
  next
    case False
    obtain k cs d' where p: "pd_push dec data d = (k, cs, d')" by (cases "pd_push dec data d") auto
    obtain ev d'' where e: "pd_event dec d' = (ev, d'')" by fastforce
    from push [OF False p e] have k: "0 < k" "k \<le> length data" "0 \<le> ev"
      and its: "items d data = map P_data cs @ event_items ev (pd_name dec d') @ items d'' (drop k data)"
      by auto
    from append_chunks [OF assms Suc.prems(1), of cs s] obtain c1 s1 where
      c1: "fold (append_to_cert_vector en) cs (c, s) = (c1, s1)" "pem_inv c1" "p_certs c1 = p_certs c"
        "\<forall>is. certs_of (buf_bytes c) (map P_data cs @ is) = certs_of (buf_bytes c1) is"
        "\<forall>is. unfinished (buf_bytes c) (p_buf c \<noteq> None) (map P_data cs @ is)
          = unfinished (buf_bytes c1) (p_buf c1 \<noteq> None) is"
      by blast
    let ?c = "on_event ev (pd_name dec d') c1"
    have step: "parse_loop (Suc n) en dec data d (c, s) = parse_loop n en dec (drop k data) d'' (?c, s1)"
      using False p e c1(1,2) k by (simp add: pem_inv_def)
    note ev = on_event_items [OF c1(2) k(3), of "pd_name dec d'"]
    have "length (drop k data) < n" using Suc.prems(2) k by auto
    from Suc.IH [OF ev(1) this, of d'' s1] show ?thesis
      unfolding step its using c1(3-5) ev(2,3) by metis
  qed
qed simp

text \<open>\<open>parse_certificates\<close> returns and collects exactly the certificates of the text.\<close>

lemma parse_certificates_result:
  assumes "\<forall>h. e_alloc en h" "length pem < n"
  shows "\<exists>c s'. parse_certificates n en dec (Some pem) s = Inr (length (p_certs c), c, s')
    \<and> p_certs c = certs_of [] (items (pd_init dec) pem)
    \<and> p_live c = length (p_certs c) + (if unfinished [] False (items (pd_init dec) pem) then 1 else 0)"
  using parse_loop_collects [OF assms(1) _ assms(2),
      of "\<lparr>p_certs = [], p_buf = None, p_error = False, p_live = 0\<rparr>" "pd_init dec" s]
  by (fastforce simp: parse_certificates_def pem_inv_def buf_bytes_def)

end

section \<open>A decoder to evaluate on\<close>

text \<open>
  In place of the armour lines: \<open>B\<close> begins an object, \<open>E\<close> ends it, \<open>X\<close> is an error, every
  other byte is data.  The state is the pending event.
\<close>

definition mini_mark :: "byte \<Rightarrow> int" where
  "mini_mark x = (if x = 66 then BR_PEM_BEGIN_OBJ else if x = 69 then BR_PEM_END_OBJ
     else if x = 88 then BR_PEM_ERROR else 0)"

definition mini_pem :: "int pem_decoder" where
  "mini_pem = \<lparr>pd_init = 0,
     pd_push = (\<lambda>xs d. let bs = takeWhile (\<lambda>x. mini_mark x = 0) xs; rest = dropWhile (\<lambda>x. mini_mark x = 0) xs;
                          chunks = (if bs = [] then [] else [bs])
                      in if rest = [] then (length bs, chunks, 0)
                         else (length bs + 1, chunks, mini_mark (hd rest))),
     pd_event = (\<lambda>d. (d, 0)), pd_name = (\<lambda>d. ''CERTIFICATE'')\<rparr>"

function mini_items :: "byte list \<Rightarrow> pem_item list" where
  "mini_items [] = []"
| "mini_items (x # xs) = (if mini_mark x = 0
     then P_data (x # takeWhile (\<lambda>x. mini_mark x = 0) xs) # mini_items (dropWhile (\<lambda>x. mini_mark x = 0) xs)
     else event_items (mini_mark x) ''CERTIFICATE'' @ mini_items xs)"
  by pat_completeness auto
termination
  by (relation "measure length") (auto simp: le_imp_less_Suc length_dropWhile_le)

interpretation mini: pem_stream mini_pem "\<lambda>d. mini_items"
proof
  fix xs :: "byte list" and d k cs and d' ev d'' :: int
  assume xs: "xs \<noteq> []" and push: "pd_push mini_pem xs d = (k, cs, d')"
    and event: "pd_event mini_pem d' = (ev, d'')"
  let ?d = "\<lambda>x. mini_mark x = 0"
  obtain x ys where x: "xs = x # ys" using xs by (cases xs) auto
  have dw: "drop (length (takeWhile ?d zs)) zs = dropWhile ?d zs" for zs
    by (simp add: dropWhile_eq_drop)
  have ev: "ev = d'" "0 \<le> mini_mark z" "pd_name mini_pem e = ''CERTIFICATE''" for z e
    using event by (simp_all add: mini_pem_def mini_mark_def pem_events)
  show "0 < k \<and> k \<le> length xs \<and> 0 \<le> ev \<and>
      mini_items xs = map P_data cs @ event_items ev (pd_name mini_pem d') @ mini_items (drop k xs)"
  proof (cases "?d x")
    case True
    show ?thesis
    proof (cases "dropWhile ?d ys")
      case Nil
      with True push x have "k = length xs" "cs = [xs]" "d' = 0"
        by (auto simp: mini_pem_def Let_def takeWhile_eq_all_conv [THEN iffD2] split: if_splits)
      with True x ev Nil show ?thesis
        by (simp add: event_items_def pem_events takeWhile_eq_all_conv [THEN iffD2]
            dropWhile_eq_Nil_conv [THEN iffD2])
    next
      case (Cons z zs)
      have z: "\<not> ?d z" using hd_dropWhile [of ?d ys] Cons by simp
      have "k = length (takeWhile ?d ys) + 2" "cs = [x # takeWhile ?d ys]" "d' = mini_mark z"
        using True push x Cons by (auto simp: mini_pem_def Let_def simp del: dropWhile_eq_Nil_conv)
      moreover have "drop (length (takeWhile ?d ys) + 1) ys = zs"
        using dw [of ys] Cons by (metis drop_drop drop_Suc_Cons drop_0 One_nat_def add.commute)
      moreover have "length (takeWhile ?d ys) + 1 \<le> length ys"
        using arg_cong [OF takeWhile_dropWhile_id [of ?d ys], of length]
        by (simp add: Cons)
      ultimately show ?thesis using True x ev Cons z by simp
    qed
  next
    case False
    with push x have "k = 1" "cs = []" "d' = mini_mark x" by (simp_all add: mini_pem_def Let_def)
    with False x ev show ?thesis by simp
  qed
qed simp

lemma new_ctx_value:
  assumes "pem_stream dec items" "\<forall>h. e_alloc en h" "length cert < n"
  shows "\<exists>r s'. tcp_ssl_new_server_ctx n en dec key_of (Some (f, cert)) (Some (g, key)) s = Inr (r, s')
    \<and> (if certs_of [] (items (pd_init dec) cert) \<noteq> [] \<and> key_of key \<noteq> Key_none
       then r = Some \<lparr>chain_length = length (certs_of [] (items (pd_init dec) cert)), pk = Some (key_of key)\<rparr>
       else r = None \<and> hd (log s') = A_delete_ctx)"
proof -
  have copy: "\<exists>t. copy_progmem en (f, bs) s = (Some bs, t)" for f bs s
    using assms(2) by (cases f) (simp_all add: copy_progmem_def)
  from copy obtain s1 where s1: "copy_progmem en (f, cert) s = (Some cert, s1)" by blast
  from copy obtain s2 where s2: "copy_progmem en (g, key) s1 = (Some key, s2)" by blast
  from pem_stream.parse_certificates_result [OF assms, of "emit A_new_ctx s2"] obtain c t where
    "parse_certificates n en dec (Some cert) (emit A_new_ctx s2) = Inr (length (p_certs c), c, t)"
    "p_certs c = certs_of [] (items (pd_init dec) cert)" by blast
  with s1 s2 assms(2) show ?thesis
    by (auto simp: tcp_ssl_new_server_ctx_def)
qed

lemma pem_context_exists:
  assumes "pem_stream dec items" "\<forall>h. e_alloc en h" "length cert < n"
    and "key_of key \<noteq> Key_none" "certs_of [] (items (pd_init dec) cert) \<noteq> []"
  shows "\<exists>r s'. tcp_ssl_new_server_ctx n en dec key_of (Some (f, cert)) (Some (g, key)) s = Inr (r, s')
    \<and> r \<noteq> None"
  using new_ctx_value [OF assms(1-3), of key_of f g key s] assms(4,5) by auto

section \<open>Properties\<close>

text \<open>
  C22: with memory, \<open>parse_certificates\<close> returns (fuel one more than the length of the text is
  enough) and collects exactly the non-empty objects named CERTIFICATE, in order; what
  it still holds on return is their data, and the data of an object the text ends in,
  which nobody frees.
\<close>

theorem parse_certificates_collects:
  assumes "pem_stream dec items" "\<forall>h. e_alloc en h" "length pem < n"
  shows "\<exists>c s'. parse_certificates n en dec (Some pem) s = Inr (length (p_certs c), c, s')
    \<and> p_certs c = certs_of [] (items (pd_init dec) pem)
    \<and> p_live c = length (p_certs c) + (if unfinished [] False (items (pd_init dec) pem) then 1 else 0)"
  by (rule pem_stream.parse_certificates_result [OF assms])

lemma mini_items_example:
  "mini_items [66, 1, 2, 69, 66, 3, 69, 66, 4] = [P_begin, P_data [1, 2], P_end ''CERTIFICATE'',
     P_begin, P_data [3], P_end ''CERTIFICATE'', P_begin, P_data [4]]"
  by (simp add: mini_mark_def pem_events event_items_def)

theorem parse_certificates_collects_witness:
  "\<exists>c s'. parse_certificates 10 quiet_env mini_pem (Some [66, 1, 2, 69, 66, 3, 69, 66, 4]) \<lparr>log = []\<rparr> = Inr (2, c, s')
    \<and> p_certs c = [[1, 2], [3]] \<and> p_live c = 3"
  using parse_certificates_collects [OF mini.pem_stream_axioms, of quiet_env "[66, 1, 2, 69, 66, 3, 69, 66, 4]"
      10 "\<lparr>log = []\<rparr>"]
  unfolding mini_items_example by (auto simp: quiet_env_def)

text \<open>
  A malformed PEM text is not rejected.  The code means to give up on an error, but
  tests for a negative event, and the decoder's error event is 3: with one complete
  certificate anywhere in the text, the parse succeeds whatever errors it contains.
\<close>

lemma malformed_pem_accepted:
  assumes "pem_stream dec items" "\<forall>h. e_alloc en h" "length pem < n"
    and "P_error \<in> set (items (pd_init dec) pem)" "certs_of [] (items (pd_init dec) pem) \<noteq> []"
  shows "\<exists>m c s'. parse_certificates n en dec (Some pem) s = Inr (m, c, s') \<and> 0 < m \<and> p_certs c \<noteq> []"
  using pem_stream.parse_certificates_result [OF assms(1-3), of s] assms(5) by auto

lemma mini_items_error: "mini_items [66, 1, 69, 88] = [P_begin, P_data [1], P_end ''CERTIFICATE'', P_error]"
  by (simp add: mini_mark_def pem_events event_items_def)

lemma malformed_pem_accepted_witness:
  "\<exists>m c s'. parse_certificates 5 quiet_env mini_pem (Some [66, 1, 69, 88]) \<lparr>log = []\<rparr> = Inr (m, c, s') \<and> 0 < m"
  using malformed_pem_accepted [OF mini.pem_stream_axioms, of quiet_env "[66, 1, 69, 88]" 5 "\<lparr>log = []\<rparr>"]
  unfolding mini_items_error by (auto simp: quiet_env_def)

text \<open>
  \<open>tcp_ssl_new_server_ctx\<close>, with memory: there is a context exactly if the text has a
  certificate and the key is an RSA or an EC key; it holds the chain in order of the
  text, and on the error paths the context allocated before is deleted.
\<close>

theorem new_server_ctx_result:
  assumes "pem_stream dec items" "\<forall>h. e_alloc en h" "length cert < n"
  shows "\<exists>r s'. tcp_ssl_new_server_ctx n en dec key_of (Some (f, cert)) (Some (g, key)) s = Inr (r, s')
    \<and> (if certs_of [] (items (pd_init dec) cert) \<noteq> [] \<and> key_of key \<noteq> Key_none
       then r = Some \<lparr>chain_length = length (certs_of [] (items (pd_init dec) cert)), pk = Some (key_of key)\<rparr>
       else r = None \<and> hd (log s') = A_delete_ctx)"
  by (rule new_ctx_value [OF assms])

theorem new_server_ctx_result_witness:
  "\<exists>s'. tcp_ssl_new_server_ctx 10 quiet_env mini_pem (\<lambda>k. Key_RSA)
       (Some (True, [66, 1, 2, 69, 66, 3, 69, 66, 4])) (Some (False, [])) \<lparr>log = []\<rparr>
     = Inr (Some \<lparr>chain_length = 2, pk = Some Key_RSA\<rparr>, s')"
  using new_server_ctx_result [OF mini.pem_stream_axioms, of quiet_env "[66, 1, 2, 69, 66, 3, 69, 66, 4]" 10
      "\<lambda>k. Key_RSA" True False "[]" "\<lparr>log = []\<rparr>"]
  unfolding mini_items_example by (auto simp: quiet_env_def)

end
