(* ===== verification/Server.thy ===== *)
theory Server
  imports Pem ClientSecure
begin

text \<open>
  \<open>AsyncServer\<close> (ESPAsyncTCPServer.h/.cpp), built with TLS support: a listening pcb and,
  after \<open>beginSecure\<close>, a TLS context; \<open>_accept\<close> makes an \<open>AsyncClient\<close> of a new connection
  and hands it to the sketch.
\<close>

section \<open>State and operations\<close>

text \<open>\<open>on_client\<close>: \<open>_connect_cb\<close> is set.\<close>

record server = ssl_world +
  s_port :: u16
  s_addr :: ip
  s_noDelay :: bool
  s_pcb :: "pcb option"
  on_client :: bool
  s_ctx :: "ssl_ctx option"

definition new_server :: "ip \<Rightarrow> u16 \<Rightarrow> server" where
  "new_server addr port = \<lparr>log = [], ssl = [], s_port = port, s_addr = addr, s_noDelay = False,
     s_pcb = None, on_client = False, s_ctx = None\<rparr>"

definition onClient :: "bool \<Rightarrow> server \<Rightarrow> server" where
  "onClient f s = s\<lparr>on_client := f\<rparr>"

definition srv_setNoDelay :: "bool \<Rightarrow> server \<Rightarrow> server" where
  "srv_setNoDelay b s = s\<lparr>s_noDelay := b\<rparr>"

definition srv_getNoDelay :: "server \<Rightarrow> bool" where
  "srv_getNoDelay s = s_noDelay s"

definition srv_status :: "env \<Rightarrow> server \<Rightarrow> nat" where
  "srv_status en s = (case s_pcb s of None \<Rightarrow> 0 | Some p \<Rightarrow> state_num (e_state en (log s) p))"

definition srv_begin :: "env \<Rightarrow> server \<Rightarrow> server" where
  "srv_begin en s =
     (if s_pcb s \<noteq> None then s
      else let np = e_new en (log s); s = emit A_tcp_new s in
        case np of None \<Rightarrow> s
        | Some p \<Rightarrow>
           let s = emit (A_setprio p) s;
               err = e_bind en (log s);
               s = emit (A_tcp_bind p (s_addr s) (s_port s)) s
           in if err \<noteq> ERR_OK then emit (A_tcp_close p (e_close en (log s))) s
              else let lp = e_listen en (log s); s = emit (A_tcp_listen p) s in
                case lp of None \<Rightarrow> emit (A_tcp_close p (e_close en (log s))) s
                | Some q \<Rightarrow> emits [A_arg q True, A_accept_fn q True] (s\<lparr>s_pcb := Some q\<rparr>))"

definition srv_beginSecure ::
  "nat \<Rightarrow> env \<Rightarrow> 'd pem_decoder \<Rightarrow> (byte list \<Rightarrow> key_kind) \<Rightarrow> (bool \<times> byte list) option \<Rightarrow>
   (bool \<times> byte list) option \<Rightarrow> server \<Rightarrow> server res" where
  "srv_beginSecure n en dec key_of cert key s =
     (if s_ctx s \<noteq> None then Inr s
      else rbind (tcp_ssl_new_server_ctx n en dec key_of cert key s) (\<lambda>(ctx, s).
        let s = s\<lparr>s_ctx := ctx\<rparr> in Inr (if ctx \<noteq> None then srv_begin en s else s)))"

definition srv_end :: "env \<Rightarrow> server \<Rightarrow> server" where
  "srv_end en s =
     (let s = (case s_pcb s of None \<Rightarrow> s
         | Some p \<Rightarrow>
            let s = emits [A_arg p False, A_accept_fn p False] s;
                err = e_close en (log s);
                s = emit (A_tcp_close p err) s;
                s = (if err \<noteq> ERR_OK then emit (A_tcp_abort p) s else s)
            in s\<lparr>s_pcb := None\<rparr>)
      in if s_ctx s \<noteq> None then (emit A_delete_ctx s)\<lparr>s_ctx := None\<rparr> else s)"

section \<open>Accepting\<close>

text \<open>A connection that is not taken is closed, or aborted if that fails.\<close>

definition refuse :: "env \<Rightarrow> pcb \<Rightarrow> server \<Rightarrow> err_t \<times> server" where
  "refuse en p s =
     (let err = e_close en (log s); s = emit (A_tcp_close p err) s
      in if err \<noteq> ERR_OK then (ERR_ABRT, emit (A_tcp_abort p) s) else (ERR_OK, s))"

text \<open>
  The client shares the history and the TLS contexts with the server.  \<open>mem\<close> is the memory
  it is constructed in; \<open>cb CB_client\<close> is the sketch's \<open>onClient\<close> handler.
\<close>

definition srv_accept ::
  "env \<Rightarrow> user \<Rightarrow> u8 \<Rightarrow> conn \<Rightarrow> pcb option \<Rightarrow> err_t \<Rightarrow> server \<Rightarrow> (err_t \<times> conn option \<times> server) res" where
  "srv_accept en cb mode mem po err s = (case po of
     None \<Rightarrow> Inr (ERR_OK, None, s)
   | Some p \<Rightarrow>
      if err \<noteq> ERR_OK then Inr (ERR_OK, None, s)
      else if on_client s then
        let s = emit (A_nagle p (s_noDelay s \<or> s_ctx s \<noteq> None)) s in
        if e_alloc en (log s) then
          let s = emit (A_new_client p) s in
          rbind (new_client en cb mode (Some p) (s_ctx s) (mem\<lparr>log := log s, ssl := ssl s\<rparr>)) (\<lambda>c.
          rbind (invoke cb CB_client c) (\<lambda>c.
            Inr (ERR_OK, Some c, s\<lparr>log := log c, ssl := ssl c\<rparr>)))
        else let (e, s) = refuse en p s in Inr (e, None, s)
      else let (e, s) = refuse en p s in Inr (e, None, s))"

section \<open>Runs\<close>

text \<open>
  A server driven by its sketch and by lwIP, which calls \<open>_accept\<close> while a listener is
  registered, with a pcb that is not at the address of one whose TLS context was left
  behind.  The handlers of the clients it creates run the sketch \<open>usr\<close>.
\<close>

inductive server_step ::
  "nat \<Rightarrow> nat \<Rightarrow> env \<Rightarrow> 'd pem_decoder \<Rightarrow> (byte list \<Rightarrow> key_kind) \<Rightarrow> sketch \<Rightarrow> server \<Rightarrow> server \<Rightarrow> bool"
  for n d en dec key_of usr where
  begins: "server_step n d en dec key_of usr s (srv_begin en s)"
| secure: "srv_beginSecure n en dec key_of cert key s = Inr t \<Longrightarrow> server_step n d en dec key_of usr s t"
| ends: "server_step n d en dec key_of usr s (srv_end en s)"
| delay: "server_step n d en dec key_of usr s (srv_setNoDelay b s)"
| handler: "server_step n d en dec key_of usr s (onClient b s)"
| accept: "s_pcb s \<noteq> None \<Longrightarrow> \<not> tcp_ssl_has p s \<Longrightarrow> srv_accept en (run_cb d en usr) mode mem (Some p) err s = Inr (e, c, t)
    \<Longrightarrow> server_step n d en dec key_of usr s t"

inductive_cases server_stepE: "server_step n d en dec key_of usr s t"

inductive server_reach ::
  "nat \<Rightarrow> nat \<Rightarrow> env \<Rightarrow> 'd pem_decoder \<Rightarrow> (byte list \<Rightarrow> key_kind) \<Rightarrow> sketch \<Rightarrow> server \<Rightarrow> bool"
  for n d en dec key_of usr where
  start: "server_reach n d en dec key_of usr (new_server addr port)"
| more: "server_reach n d en dec key_of usr s \<Longrightarrow> server_step n d en dec key_of usr s t \<Longrightarrow>
    server_reach n d en dec key_of usr t"

section \<open>What the sketch's handlers cannot do\<close>

text \<open>
  The calls only the server makes.  No client operation makes one of them, whatever the
  sketch does in its handlers: this is another use of the contract of the client.
\<close>

fun server_act :: "act \<Rightarrow> bool" where
  "server_act (A_accept_fn p b) = True"
| "server_act A_new_ctx = True"
| "server_act A_delete_ctx = True"
| "server_act (A_tcp_listen p) = True"
| "server_act _ = False"

abbreviation server_acts :: "hist \<Rightarrow> hist" where
  "server_acts \<equiv> filter server_act"

lemma idle_server_act: "idle_act a \<Longrightarrow> \<not> server_act a"
  by (cases a) auto

lemma own_server_act: "own_act p a \<Longrightarrow> \<not> server_act a"
  by (cases a) auto

lemma engine_server_act: "engine_act a \<Longrightarrow> \<not> server_act a"
  by (cases a) auto

interpretation srv_client: client_relation en True True "\<lambda>c t h u. server_acts h = V"
  by unfold_locales (auto simp: idle_server_act own_server_act engine_server_act)

lemma run_cb_server_acts:
  "registry_wf (ssl s) \<Longrightarrow> ok (\<lambda>t. server_acts (log t) = server_acts (log s)) (run_cb d en usr ev s)"
  using client_contract.cb_K [OF srv_client.run_cb_contract, of usr s "server_acts (log s)" d en ev]
  by simp

definition srv_holds :: "hist \<Rightarrow> conn \<Rightarrow> bool" where
  "srv_holds V c \<longleftrightarrow> registry_wf (ssl c) \<and> server_acts (log c) = V"

lemma sketch_contract: "client_contract en True True (\<lambda>c t h u. server_acts h = V) (run_cb d en usr)"
  by (rule srv_client.run_cb_contract) simp_all

lemma invoke_srv: "srv_holds V c \<Longrightarrow> ok (srv_holds V) (invoke (run_cb d en usr) ev c)"
  using client_contract.invoke_holds [OF sketch_contract, of c V d en usr ev]
  by (simp add: srv_holds_def [abs_def])

lemma do_close_srv: "srv_holds V c \<Longrightarrow> ok (srv_holds V) (do_close en (run_cb d en usr) c)"
  using client_contract.do_close_holds [OF sketch_contract, of c V en d usr]
  by (simp add: srv_holds_def [abs_def])

lemma install_srv: "srv_holds V c \<Longrightarrow> srv_holds V (install_ssl_callbacks p c)"
  unfolding srv_holds_def install_ssl_callbacks_def
  by (auto simp: setter_defs intro!: ssl_reg.wf_modify)

lemma new_server_srv:
  assumes "tcp_ssl_new_server en (Some p) co c = (r, c')" "srv_holds V c" "\<not> tcp_ssl_has p c"
  shows "srv_holds V c'"
  using assms ssl_reg.wf_insert [of "ssl c" "new_ssl_pcb en p True"]
  by (auto simp: tcp_ssl_new_server_def srv_holds_def Let_def emit_def tcp_ssl_has_def new_ssl_pcb_def
      split: option.splits if_splits key_kind.splits)

lemma new_client_srv:
  assumes "srv_holds V mem" "\<not> tcp_ssl_has p mem"
  shows "ok (srv_holds V) (new_client en (run_cb d en usr) mode (Some p) ctx mem)"
proof -
  let ?s = "emits [A_setprio p, A_arg p True, A_recv_fn p True, A_sent_fn p True, A_err_fn p True,
      A_poll_fn p True] ((snd (millis en (client_init en mem mode (Some p))))
        \<lparr>rx_last_packet := fst (millis en (client_init en mem mode (Some p)))\<rparr>)"
  have s: "srv_holds V ?s" "\<not> tcp_ssl_has p ?s"
    using assms by (simp_all add: srv_holds_def client_init_def millis_def emits_def emit_def tcp_ssl_has_def)
  show ?thesis
  proof (cases ctx)
    case None
    with s(1) show ?thesis by (simp add: new_client_def Let_def split_beta)
  next
    case (Some k)
    obtain r t where new: "tcp_ssl_new_server en (Some p) (Some k) ?s = (r, t)" by fastforce
    from new_server_srv [OF new s] have t: "srv_holds V t" .
    have "new_client en (run_cb d en usr) mode (Some p) (Some k) mem
        = (if r < 0 then do_close en (run_cb d en usr) t else Inr (install_ssl_callbacks p t))"
      using new by (simp add: new_client_def Let_def split_beta)
    with t Some show ?thesis by (simp add: do_close_srv install_srv)
  qed
qed

section \<open>The invariant of the server\<close>

text \<open>Is \<open>_s_accept\<close> registered with \<open>p\<close>, and how many contexts were not deleted?\<close>

primrec accept_registered :: "pcb \<Rightarrow> hist \<Rightarrow> bool" where
  "accept_registered p [] = False"
| "accept_registered p (a # h) = (case a of
     A_accept_fn q b \<Rightarrow> if q = p then b else accept_registered p h
   | _ \<Rightarrow> accept_registered p h)"

primrec live_ctxs :: "hist \<Rightarrow> int" where
  "live_ctxs [] = 0"
| "live_ctxs (a # h) = (case a of A_new_ctx \<Rightarrow> live_ctxs h + 1 | A_delete_ctx \<Rightarrow> live_ctxs h - 1
     | _ \<Rightarrow> live_ctxs h)"

lemma server_acts_views:
  "accept_registered p (server_acts h) = accept_registered p h"
  "live_ctxs (server_acts h) = live_ctxs h"
  by (induction h) (auto split: act.split)

lemma same_views:
  assumes "server_acts h = server_acts h'"
  shows "accept_registered p h = accept_registered p h'" "live_ctxs h = live_ctxs h'"
  using server_acts_views(1) [of p h] server_acts_views(1) [of p h']
    server_acts_views(2) [of h] server_acts_views(2) [of h'] assms by simp_all

definition server_inv :: "server \<Rightarrow> bool" where
  "server_inv s \<longleftrightarrow> registry_wf (ssl s)
     \<and> (\<forall>p. accept_registered p (log s) \<longleftrightarrow> s_pcb s = Some p)
     \<and> live_ctxs (log s) = (if s_ctx s = None then 0 else 1)"

lemma begin_inv: "server_inv s \<Longrightarrow> server_inv (srv_begin en s)"
  by (auto simp: srv_begin_def server_inv_def Let_def emit_def emits_def split: option.split)

lemma end_inv: "server_inv s \<Longrightarrow> server_inv (srv_end en s)"
  by (auto simp: srv_end_def server_inv_def Let_def emit_def emits_def split: option.split)

text \<open>The parser only allocates.\<close>

definition only_allocs :: "'a world_scheme \<Rightarrow> 'a world_scheme \<Rightarrow> bool" where
  "only_allocs s t \<longleftrightarrow> (\<exists>ns. t = s\<lparr>log := map A_alloc ns @ log s\<rparr>)"

lemma only_allocs_refl [simp]: "only_allocs s s"
  unfolding only_allocs_def by (rule exI [of _ "[]"]) simp

lemma only_allocs_trans: "only_allocs s t \<Longrightarrow> only_allocs t u \<Longrightarrow> only_allocs s u"
  by (auto simp: only_allocs_def intro: exI [of _ "_ @ _"])

lemma only_allocs_emit [simp]: "only_allocs s (emit (A_alloc n) s)"
  unfolding only_allocs_def by (rule exI [of _ "[n]"]) (simp add: emit_def)

lemma append_allocs: "only_allocs s (snd (append_to_cert_vector en x (c, s)))"
  by (simp add: append_to_cert_vector_def Let_def)

lemma fold_allocs: "only_allocs (snd cs) (snd (fold (append_to_cert_vector en) xs cs))"
proof (induction xs arbitrary: cs)
  case (Cons x xs)
  have "only_allocs (snd cs) (snd (append_to_cert_vector en x cs))"
    using append_allocs [of "snd cs" en x "fst cs"] by simp
  with Cons [of "append_to_cert_vector en x cs"] show ?case
    by (auto intro: only_allocs_trans simp del: surjective_pairing)
qed simp

lemma parse_allocs: "ok (\<lambda>(m, c, t). only_allocs (snd cs) t) (parse_loop n en dec data pc cs)"
proof (induction n arbitrary: data pc cs)
  case (Suc n)
  obtain k chunks pc1 where p: "pd_push dec data pc = (k, chunks, pc1)"
    by (cases "pd_push dec data pc") auto
  obtain c s where f: "fold (append_to_cert_vector en) chunks cs = (c, s)" by fastforce
  have s: "only_allocs (snd cs) s" using fold_allocs [of cs en chunks] f by simp
  have IH: "ok (\<lambda>(m, c, t). only_allocs (snd cs) t) (parse_loop n en dec d x (c', s))" for d x c'
    using Suc [of "(c', s)" d x] s by (auto elim!: ok_mono intro: only_allocs_trans)
  show ?case
    using IH s by (auto simp: p f split: prod.split)
qed simp

lemma only_allocs_views:
  "only_allocs s t \<Longrightarrow> server_acts (log t) = server_acts (log s)"
  by (auto simp: only_allocs_def)

lemma copy_allocs: "copy_progmem en str s = (r, t) \<Longrightarrow> only_allocs s t"
  by (auto simp: copy_progmem_def split: if_splits)

text \<open>A context is returned, or it was deleted; nothing but the history changes.\<close>

lemma new_ctx_acts:
  "ok (\<lambda>(r, t). (\<exists>h. t = s\<lparr>log := h @ log s\<rparr>)
      \<and> (\<forall>p. accept_registered p (log t) = accept_registered p (log s))
      \<and> live_ctxs (log t) = live_ctxs (log s) + (if r = None then 0 else 1))
    (tcp_ssl_new_server_ctx n en dec key_of cert key s)" (is "ok ?P _")
proof -
  have fail: "?P (None, t)" if "only_allocs s t" for t
    using that same_views [OF only_allocs_views [OF that]] by (auto simp: only_allocs_def)
  have parsed: "?P (None, emit A_delete_ctx t) \<and> ?P (Some k, t)"
    if "only_allocs s u" "only_allocs (emit A_new_ctx u) t" for u t k
    using same_views [OF only_allocs_views [OF that(1)]] same_views [OF only_allocs_views [OF that(2)]] that
    by (auto simp: only_allocs_def emit_def) (metis append_Cons append_assoc)+
  have parse: "ok (\<lambda>(m, c, t). only_allocs u t) (parse_certificates n en dec str u)" for u :: "'a world_scheme" and str
    by (cases str) (simp_all add: parse_certificates_def parse_allocs [where cs = "(c, u)" for c, simplified])
  show ?thesis
  proof (cases "cert = None \<or> key = None")
    case True
    then show ?thesis using fail [of s] by (auto simp: tcp_ssl_new_server_ctx_def split: option.split)
  next
    case False
    then obtain c k where ck: "cert = Some c" "key = Some k" by auto
    obtain r1 s1 where 1: "copy_progmem en c s = (r1, s1)" by fastforce
    obtain r2 s2 where 2: "copy_progmem en k s1 = (r2, s2)" by fastforce
    from copy_allocs [OF 1] copy_allocs [OF 2] have a: "only_allocs s s1" "only_allocs s s2"
      by (auto intro: only_allocs_trans)
    have "ok ?P (rbind (parse_certificates n en dec (Some b) (emit A_new_ctx s2)) (\<lambda>(m, c, s).
        if m = 0 then Inr (None, emit A_delete_ctx s)
        else if \<not> e_alloc en (log s) then Inr (None, emit A_delete_ctx s)
        else if key_of x = Key_none then Inr (None, emit A_delete_ctx s)
        else Inr (Some \<lparr>chain_length = length (p_certs c), pk = Some (key_of x)\<rparr>, s)))" for b x
    proof (rule ok_rbind [OF parse])
      fix r :: "nat \<times> pem_ctx \<times> 'a world_scheme"
      obtain m c' t where r: "r = (m, c', t)" by (cases r) auto
      assume "case r of (m, c, t) \<Rightarrow> only_allocs (emit A_new_ctx s2) t"
      with parsed [OF a(2), of t] r show "ok ?P ((\<lambda>(m, c, s).
          if m = 0 then Inr (None, emit A_delete_ctx s)
          else if \<not> e_alloc en (log s) then Inr (None, emit A_delete_ctx s)
          else if key_of x = Key_none then Inr (None, emit A_delete_ctx s)
          else Inr (Some \<lparr>chain_length = length (p_certs c), pk = Some (key_of x)\<rparr>, s)) r)"
        by simp
    qed
    with fail [OF a(1)] fail [OF a(2)] show ?thesis
      unfolding tcp_ssl_new_server_ctx_def ck
      by (simp add: 1 2 split: option.split)
  qed
qed

lemma secure_inv:
  assumes "server_inv s"
  shows "ok server_inv (srv_beginSecure n en dec key_of cert key s)"
proof (cases "s_ctx s")
  case None
  have "ok (\<lambda>(r, t). server_inv (t\<lparr>s_ctx := r\<rparr>)) (tcp_ssl_new_server_ctx n en dec key_of cert key s)"
    using new_ctx_acts [of s n en dec key_of cert key] assms None
    by (auto elim!: ok_mono simp: server_inv_def)
  then show ?thesis
    using None by (auto simp: srv_beginSecure_def Let_def intro!: ok_rbind begin_inv)
qed (simp add: srv_beginSecure_def assms)

lemma refuse_inv: "server_inv s \<Longrightarrow> server_inv (snd (refuse en p s))"
  by (auto simp: refuse_def server_inv_def Let_def emit_def)

lemma accept_inv:
  assumes "server_inv s" "\<not> tcp_ssl_has p s"
  shows "ok (\<lambda>(e, c, t). server_inv t) (srv_accept en (run_cb d en usr) mode mem (Some p) err s)"
proof -
  let ?s = "emit (A_new_client p) (emit (A_nagle p (s_noDelay s \<or> s_ctx s \<noteq> None)) s)"
  let ?mem = "mem\<lparr>log := A_new_client p # A_nagle p (s_noDelay s \<or> s_ctx s \<noteq> None) # log s, ssl := ssl s\<rparr>"
  have mem: "srv_holds (server_acts (log s)) ?mem" "\<not> tcp_ssl_has p ?mem"
    using assms by (simp_all add: srv_holds_def server_inv_def emit_def tcp_ssl_has_def)
  have done': "server_inv (?s\<lparr>log := log c, ssl := ssl c\<rparr>)" if "srv_holds (server_acts (log s)) c" for c
    using that assms(1) same_views [of "log c" "log s"]
    by (simp add: srv_holds_def server_inv_def emit_def)
  have "server_inv (emit (A_nagle p b) s)" for b
    using assms(1) by (simp add: server_inv_def emit_def)
  then have ref: "server_inv (snd (refuse en p s))" "server_inv (snd (refuse en p (emit (A_nagle p b) s)))" for b
    using assms(1) by (auto intro: refuse_inv)
  show ?thesis
    using ref assms(1)
    by (auto simp: srv_accept_def Let_def split_beta done' simp del: not_None_eq
        intro!: ok_rbind [OF new_client_srv [OF mem]] ok_rbind [OF invoke_srv])
qed

lemma server_reach_inv: "server_reach n d en dec key_of usr s \<Longrightarrow> server_inv s"
proof (induction rule: server_reach.induct)
  case (start addr port)
  then show ?case by (simp add: new_server_def server_inv_def registry_wf_def)
next
  case (more s t)
  from more.hyps(2) show ?case
  proof (cases rule: server_step.cases)
    case (secure cert key)
    with okD [OF secure_inv [OF more.IH]] show ?thesis by blast
  next
    case (accept p mode mem err e c)
    with okD [OF accept_inv [OF more.IH]] show ?thesis by fastforce
  qed (use more.IH begin_inv end_inv in \<open>simp_all add: server_inv_def srv_setNoDelay_def onClient_def\<close>)
qed

section \<open>Properties\<close>

text \<open>
  C10: in every reachable state of a server, whatever the sketch, its handlers and lwIP did,
  \<open>_s_accept\<close> is registered with a pcb exactly if it is the server's listening pcb (so lwIP
  never calls a server that ended), and exactly one TLS context is allocated if
  \<open>_ssl_ctx\<close> is set, none if it is not: no context leaks or is deleted twice.
\<close>

theorem server_registration:
  assumes "server_reach n d en dec key_of usr s"
  shows "(\<forall>p. accept_registered p (log s) \<longleftrightarrow> s_pcb s = Some p)
    \<and> live_ctxs (log s) = (if s_ctx s = None then 0 else 1)"
  using server_reach_inv [OF assms] by (simp add: server_inv_def)

definition server0 :: server where
  "server0 = onClient True (srv_begin quiet_env (new_server 0 80))"

lemma server0_reached: "server_reach n d quiet_env dec key_of usr server0"
  unfolding server0_def by (intro server_reach.more [OF _ server_step.handler]
      server_reach.more [OF _ server_step.begins] server_reach.start)

lemma server0_facts: "s_pcb server0 = Some 8" "on_client server0" "s_ctx server0 = None" "ssl server0 = []"
    "log server0 = [A_accept_fn 8 True, A_arg 8 True, A_tcp_listen 7, A_tcp_bind 7 0 80, A_setprio 7, A_tcp_new]"
  by (simp_all add: server0_def onClient_def srv_begin_def new_server_def quiet_env_def emit_def emits_def)

theorem server_registration_witness:
  "accept_registered 8 (log (srv_setNoDelay True server0)) \<and> live_ctxs (log (srv_setNoDelay True server0)) = 0"
proof -
  have "server_reach 0 0 quiet_env mini_pem (\<lambda>k. Key_RSA) (\<lambda>ev h. []) (srv_setNoDelay True server0)"
    by (rule server_reach.more [OF server0_reached server_step.delay])
  from server_registration [OF this] show ?thesis
    by (simp add: srv_setNoDelay_def server0_facts)
qed

text \<open>
  C30: a connection that the server does not take (no handler, or no memory for the client)
  is closed, and if that fails aborted; lwIP is told ERR_ABRT exactly if the pcb was
  aborted, and no client is created.
\<close>

theorem accept_refused:
  assumes "\<not> on_client s \<or> \<not> e_alloc en (A_nagle p (s_noDelay s \<or> s_ctx s \<noteq> None) # log s)"
    and "pre = (if on_client s then [A_nagle p (s_noDelay s \<or> s_ctx s \<noteq> None)] else [])"
    and "e = e_close en (pre @ log s)"
  shows "\<exists>t. srv_accept en cb mode mem (Some p) ERR_OK s
      = Inr (if e = ERR_OK then ERR_OK else ERR_ABRT, None, t)
    \<and> log t = (if e = ERR_OK then [] else [A_tcp_abort p]) @ A_tcp_close p e # pre @ log s
    \<and> s_pcb t = s_pcb s \<and> s_ctx t = s_ctx s \<and> ssl t = ssl s"
  using assms by (auto simp: srv_accept_def refuse_def Let_def emit_def simp del: not_None_eq)

theorem accept_refused_witness:
  "\<exists>t. srv_accept quiet_env idle_user 0 mem0 (Some 9) ERR_OK (onClient False server0) = Inr (ERR_OK, None, t)
    \<and> hd (log t) = A_tcp_close 9 ERR_OK"
  using accept_refused [of "onClient False server0" quiet_env 9 "[]" ERR_OK idle_user 0 mem0]
  by (auto simp: onClient_def quiet_env_def)

text \<open>
  A client that is aborted in the \<open>onClient\<close> handler is not reported: \<open>_accept\<close> always
  returns ERR_OK after the handler, although lwIP requires ERR_ABRT once the pcb was
  aborted, and goes on to use it.
\<close>

theorem abort_in_accept_unreported:
  assumes "on_client s" "s_ctx s = None" "\<forall>h. e_alloc en h" "usr CB_client = (\<lambda>h. [Op_abort])"
  shows "\<exists>c t. srv_accept en (run_cb (Suc d) en usr) mode mem (Some p) ERR_OK s = Inr (ERR_OK, Some c, t)
    \<and> A_tcp_abort p \<in> set (log t) \<and> c_pcb c = None \<and> released p (log t)"
proof -
  let ?l = "A_new_client p # A_nagle p (s_noDelay s) # log s"
  let ?mem = "mem\<lparr>log := ?l, ssl := ssl s\<rparr>"
  let ?c = "(client_init en ?mem mode (Some p))\<lparr>rx_last_packet := e_millis en ?l,
     log := [A_poll_fn p True, A_err_fn p True, A_sent_fn p True, A_recv_fn p True, A_arg p True,
             A_setprio p, A_millis] @ ?l\<rparr>"
  have "new_client en cb mode (Some p) None ?mem = Inr ?c" for cb
    by (simp add: new_client_def client_init_def Let_def millis_def emit_def emits_def)
  moreover have "\<exists>c. invoke (run_cb (Suc d) en usr) CB_client ?c = Inr c \<and> c_pcb c = None
      \<and> A_tcp_abort p \<in> set (log c) \<and> released p (log c)"
    using assms(4)
    by (auto simp: invoke_def user_call_def abort_def s_error_def do_error_def invoke_if_def touch_def
        client_init_def emit_def set_close_error_def set_errored_def Let_def split: option.split)
  ultimately show ?thesis
    using assms(1-3) by (auto simp: srv_accept_def Let_def emit_def)
qed

theorem abort_in_accept_unreported_witness:
  "\<exists>c t. srv_accept quiet_env (run_cb 1 quiet_env (\<lambda>ev h. if ev = CB_client then [Op_abort] else []))
      0 mem0 (Some 9) ERR_OK server0 = Inr (ERR_OK, Some c, t) \<and> released 9 (log t)"
  using abort_in_accept_unreported [of server0 quiet_env "\<lambda>ev h. if ev = CB_client then [Op_abort] else []"
      0 0 mem0 9]
  by (auto simp: server0_facts quiet_env_def)

text \<open>
  The TLS context of an accepted connection is never freed: the accepted client has
  \<open>_use_tls\<close> unset, so deleting it closes the connection and leaves its context, with its
  three buffers, in the list for good.
\<close>

theorem accepted_tls_context_leaks:
  assumes "new_client en cb mode (Some p) (Some ctx) mem = Inr c" "c_pcb c = Some p" "tcp_ssl_has p c"
  shows "\<exists>c'. delete_client en cb c = Inr c' \<and> tcp_ssl_has p c' \<and> life c' = Dead \<and> c_pcb c' = None"
  using accepted_fields [OF assms(1,2)] assms(2,3)
  by (auto simp: delete_client_def do_close_def drop_tls_def clearTcpCallbacks_def abort_def Let_def
      invoke_if_def touch_def set_close_error_def emit_def emits_def tcp_ssl_has_def)

theorem accepted_tls_context_leaks_witness:
  "\<exists>c c'. new_client quiet_env idle_user 0 (Some 1) (Some rsa_ctx) mem0 = Inr c
     \<and> delete_client quiet_env idle_user c = Inr c' \<and> tcp_ssl_has 1 c'"
  using accept_example accepted_tls_context_leaks [of quiet_env idle_user 0 1 rsa_ctx mem0] by blast

text \<open>
  When \<open>beginSecure\<close> has made its context but cannot bind, the server keeps the context
  and refuses every later \<open>beginSecure\<close> without trying: it can never be started.
\<close>

lemma secure_retry_ignored:
  assumes "s_ctx s = None" "s_pcb s = None"
    and "tcp_ssl_new_server_ctx n en dec key_of cert key s = Inr (Some ctx, u)"
    and "\<forall>h. e_bind en h \<noteq> ERR_OK"
  shows "\<exists>t. srv_beginSecure n en dec key_of cert key s = Inr t \<and> s_pcb t = None
    \<and> (\<forall>en' cert' key'. srv_beginSecure n en' dec key_of cert' key' t = Inr t)"
proof -
  from okD [OF new_ctx_acts assms(3)] assms(2) have "s_pcb u = None" by auto
  then have "s_pcb (srv_begin en (u\<lparr>s_ctx := Some ctx\<rparr>)) = None"
    "s_ctx (srv_begin en (u\<lparr>s_ctx := Some ctx\<rparr>)) = Some ctx"
    using assms(4) by (auto simp: srv_begin_def Let_def emit_def split: option.split)
  with assms(1,3) show ?thesis by (auto simp: srv_beginSecure_def)
qed

definition bind_fails_env :: env where
  "bind_fails_env = quiet_env\<lparr>e_bind := (\<lambda>h. ERR_USE)\<rparr>"

lemma secure_retry_ignored_witness:
  "\<exists>t. srv_beginSecure 10 bind_fails_env mini_pem (\<lambda>k. Key_RSA)
      (Some (False, [66, 1, 2, 69, 66, 3, 69, 66, 4])) (Some (False, [])) (new_server 0 80) = Inr t
    \<and> s_pcb t = None
    \<and> srv_beginSecure 10 quiet_env mini_pem (\<lambda>k. Key_RSA) (Some (False, [66, 1, 69])) (Some (False, [])) t = Inr t"
proof -
  obtain r u where new: "tcp_ssl_new_server_ctx 10 bind_fails_env mini_pem (\<lambda>k. Key_RSA)
      (Some (False, [66, 1, 2, 69, 66, 3, 69, 66, 4])) (Some (False, [])) (new_server 0 80) = Inr (r, u)"
    and "r \<noteq> None"
    using pem_context_exists [OF mini.pem_stream_axioms, of bind_fails_env "[66, 1, 2, 69, 66, 3, 69, 66, 4]"
        10 "\<lambda>k. Key_RSA" "[]" False False "new_server 0 80"]
    unfolding mini_items_example by (auto simp: bind_fails_env_def quiet_env_def)
  then obtain k where "r = Some k" by auto
  with new secure_retry_ignored [of "new_server 0 80" 10 bind_fails_env mini_pem "\<lambda>k. Key_RSA"
      "Some (False, [66, 1, 2, 69, 66, 3, 69, 66, 4])" "Some (False, [])" k u]
  show ?thesis by (auto simp: new_server_def bind_fails_env_def)
qed

end
