(* ===== verification/ClientCopy.thy ===== *)
theory ClientCopy
  imports ClientSecure
begin

text \<open>
  Copying clients: \<open>operator=\<close> takes over the pcb and the error tracker of another client,
  which keeps them too; \<open>operator==\<close> compares peers.
\<close>

section \<open>Assignment\<close>

text \<open>
  \<open>assign en cb other s\<close>: \<open>s = other\<close>, for two different objects; of \<open>other\<close> only the pcb
  and the tracker are read.
\<close>

definition assign :: "env \<Rightarrow> user \<Rightarrow> conn \<Rightarrow> conn \<Rightarrow> conn res" where
  "assign en cb other s =
     rbind (if c_pcb s \<noteq> None then do_close en cb s else Inr s) (\<lambda>s. touch s (
       let s = s\<lparr>trk := trk other, c_pcb := c_pcb other\<rparr> in
       case c_pcb s of None \<Rightarrow> Inr s
       | Some p \<Rightarrow>
          let (now, s) = millis en s;
              s = s\<lparr>rx_last_packet := now\<rparr>;
              s = emits [A_setprio p, A_arg p True, A_recv_fn p True, A_sent_fn p True,
                         A_err_fn p True, A_poll_fn p True] s
          in if tcp_ssl_has p s
             then Inr (install_ssl_callbacks p (s\<lparr>use_tls := True, handshake_done := False\<rparr>))
             else Inr (s\<lparr>use_tls := False, handshake_done := True\<rparr>)))"

definition same_peer :: "env \<Rightarrow> conn \<Rightarrow> conn \<Rightarrow> bool" where
  "same_peer en s t = (case (c_pcb s, c_pcb t) of
     (Some p, Some q) \<Rightarrow> e_remote_ip en p = e_remote_ip en q \<and> e_remote_port en p = e_remote_port en q
   | _ \<Rightarrow> False)"

text \<open>The world one client leaves is the one the other client runs in.\<close>

definition in_world :: "conn \<Rightarrow> conn \<Rightarrow> conn" where
  "in_world w s = s\<lparr>log := log w, ssl := ssl w\<rparr>"

section \<open>Properties\<close>

lemma delete_plain:
  assumes "life s = Alive" "\<not> use_tls s" "c_pcb s = Some p" "\<not> discard_cb s"
  shows "\<exists>s'. delete_client en cb s = Inr s' \<and> released p (log s') \<and> ssl s' = ssl s"
  using assms
  by (auto simp: delete_client_def do_close_def drop_tls_def clearTcpCallbacks_def abort_def Let_def
      invoke_if_def touch_def set_close_error_def emit_def emits_def)

text \<open>
  Assignment does not transfer the connection, it shares it: after \<open>a = b\<close> on plain
  clients both have the pcb, and once \<open>b\<close> is deleted, which closes it, \<open>a\<close> still has it and
  its \<open>close(true)\<close> closes the pcb lwIP has freed.
\<close>

theorem assigned_client_dangles:
  assumes "life a = Alive" "c_pcb a = None" "\<not> discard_cb a" "\<not> tcp_ssl_has p a"
    and "life b = Alive" "c_pcb b = Some p" "\<not> use_tls b" "\<not> discard_cb b"
  shows "\<exists>a' b' a'' pre e h. assign en cb b a = Inr a' \<and> c_pcb a' = Some p
    \<and> delete_client en cb (in_world a' b) = Inr b' \<and> released p (log b')
    \<and> do_close en cb (in_world b' a') = Inr a''
    \<and> log a'' = pre @ A_tcp_close p e # h \<and> released p h"
proof -
  obtain a' where a': "assign en cb b a = Inr a'" "c_pcb a' = Some p" "\<not> use_tls a'" "\<not> discard_cb a'"
      "life a' = Alive"
    using assms by (simp add: assign_def Let_def millis_def emit_def emits_def tcp_ssl_has_def)
  obtain b' where b': "delete_client en cb (in_world a' b) = Inr b'" "released p (log b')"
    using delete_plain [of "in_world a' b" p en cb] assms by (auto simp: in_world_def)
  let ?s = "clearTcpCallbacks p (in_world b' a')"
  let ?e = "e_close en (log ?s)"
  have h: "released p (log ?s)" using b'(2) by (simp add: clearTcpCallbacks_def in_world_def emits_def)
  have "\<exists>a'' pre. do_close en cb (in_world b' a') = Inr a'' \<and> log a'' = pre @ A_tcp_close p ?e # log ?s"
    using a'(2-5)
    by (auto simp: do_close_def drop_tls_def clearTcpCallbacks_def abort_def Let_def invoke_if_def touch_def
        set_close_error_def in_world_def emit_def emits_def)
  with a' b' h show ?thesis by blast
qed

theorem assigned_client_dangles_witness:
  "\<exists>a' b'. assign quiet_env idle_user plain0 mem0 = Inr a' \<and> c_pcb a' = Some 1
    \<and> delete_client quiet_env idle_user (in_world a' plain0) = Inr b' \<and> released 1 (log b')"
  using assigned_client_dangles [of mem0 1 plain0 quiet_env idle_user]
  by (auto simp: mem0_def plain0_def tcp_ssl_has_def)

text \<open>
  Assigning an established TLS client forgets that its handshake is done: the copy is
  not \<open>connected()\<close>, reports no space, and the connection can no longer send.
\<close>

lemma assigned_tls_client_mute:
  assumes "life a = Alive" "c_pcb a = None" "c_pcb b = Some p" "tcp_ssl_has p a"
  shows "\<exists>a'. assign en cb b a = Inr a' \<and> c_pcb a' = Some p \<and> use_tls a' \<and> tcp_ssl_has p a'
    \<and> \<not> connected en a' \<and> space en a' = 0
    \<and> (\<forall>data flags. client_write en cb data flags a' = Inr (0, a'))"
proof -
  let ?s = "a\<lparr>trk := trk b, c_pcb := Some p, rx_last_packet := e_millis en (log a),
     log := [A_poll_fn p True, A_err_fn p True, A_sent_fn p True, A_recv_fn p True, A_arg p True,
             A_setprio p, A_millis] @ log a, use_tls := True, handshake_done := False\<rparr>"
  let ?a = "install_ssl_callbacks p ?s"
  have "tcp_ssl_has p ?s" using assms(4) by (simp add: tcp_ssl_has_def)
  then have eq: "assign en cb b a = Inr ?a"
    using assms(1-3) by (simp add: assign_def Let_def millis_def emit_def emits_def tcp_ssl_has_def)
  have has: "tcp_ssl_has p ?a"
    using assms(4) by (simp add: install_ssl_callbacks_def setter_defs tcp_ssl_has_def find_update)
  have f: "c_pcb ?a = Some p" "use_tls ?a" "\<not> handshake_done ?a"
    by (simp_all add: install_ssl_callbacks_def setter_defs)
  then have "\<not> connected en ?a" "space en ?a = 0" by (simp_all add: connected_def space_def)
  with eq has f show ?thesis
    by (auto simp: client_write_def add_def split: option.split)
qed

lemma assigned_tls_client_mute_witness:
  "\<exists>a'. assign quiet_env idle_user tls0 (mem0\<lparr>ssl := ssl tls0\<rparr>) = Inr a' \<and> connected quiet_env tls0
    \<and> \<not> connected quiet_env a'"
  using assigned_tls_client_mute [of "mem0\<lparr>ssl := ssl tls0\<rparr>" tls0 1 quiet_env idle_user]
  by (auto simp: mem0_def tls0_def tcp_ssl_has_def sample_ssl_pcb_def connected_def quiet_env_def)

section \<open>Trust anchors\<close>

text \<open>
  \<open>load_ca_certs_from_pem\<close>: \<open>f\<close> is \<open>None\<close> if the file cannot be opened, otherwise the number
  of certificates BearSSL's \<open>X509List\<close> finds in it; the messages on the serial line are
  left out.  A list loaded before is replaced and never deleted.
\<close>

definition load_ca_certs_from_pem :: "env \<Rightarrow> nat option \<Rightarrow> conn \<Rightarrow> conn" where
  "load_ca_certs_from_pem en f s = (case f of None \<Rightarrow> s
   | Some n \<Rightarrow> s\<lparr>ca_certs := (if e_alloc en (log s) then Some n else None)\<rparr>)"

text \<open>
  What a client in secure mode validates with: it accepts to start the handshake exactly
  when the last file that could be opened has a certificate.
\<close>

lemma secure_mode_uses_last_file:
  assumes "ssl_auth_mode s = SSL_AUTH_SECURE" "\<forall>h. e_alloc en h"
  shows "fst (initClientX509Validator en (foldl (\<lambda>s f. load_ca_certs_from_pem en f s) s fs))
    = (case filter (\<lambda>f. f \<noteq> None) (ca_certs s # fs) of [] \<Rightarrow> False
       | os \<Rightarrow> the (last os) \<noteq> 0)"
proof -
  have loaded: "ssl_auth_mode (foldl (\<lambda>s f. load_ca_certs_from_pem en f s) s fs) = ssl_auth_mode s
    \<and> ca_certs (foldl (\<lambda>s f. load_ca_certs_from_pem en f s) s fs) =
      (case filter (\<lambda>f. f \<noteq> None) (ca_certs s # fs) of [] \<Rightarrow> None | os \<Rightarrow> last os)"
    using assms(2)
    by (induction fs rule: rev_induct) (auto simp: load_ca_certs_from_pem_def split: option.split list.split)
  let ?os = "filter (\<lambda>f. f \<noteq> None) (ca_certs s # fs)"
  have "?os = [] \<or> last ?os \<noteq> None"
    using last_in_set [of ?os] by (cases "?os = []") (auto simp del: filter.simps)
  with loaded assms show ?thesis
    by (auto simp: initClientX509Validator_def insecure_modes_def SSL_AUTH_SECURE_def
        simp del: filter.simps split: list.split)
qed

section \<open>Inquiries\<close>

text \<open>
  The getters of the header.  What they read of the pcb is lwIP's: \<open>mss\<close>, \<open>lip\<close> and \<open>lport\<close>
  are the answers of \<open>tcp_mss\<close> and the members \<open>local_ip\<close> and \<open>local_port\<close>.
\<close>

definition of_pcb :: "'a \<Rightarrow> (pcb \<Rightarrow> 'a) \<Rightarrow> conn \<Rightarrow> 'a" where
  "of_pcb dflt f s = (case c_pcb s of None \<Rightarrow> dflt | Some p \<Rightarrow> f p)"

definition getMss :: "(pcb \<Rightarrow> u16) \<Rightarrow> conn \<Rightarrow> u16" where
  "getMss mss = of_pcb 0 mss"

definition getRxTimeout :: "conn \<Rightarrow> u32" where
  "getRxTimeout s = rx_since_timeout s"

definition getAckTimeout :: "conn \<Rightarrow> u32" where
  "getAckTimeout s = ack_timeout s"

text \<open>\<open>nagle_disabled p h\<close> is the answer of \<open>tcp_nagle_disabled\<close> after the calls of \<open>h\<close>.\<close>

definition getNoDelay :: "(pcb \<Rightarrow> hist \<Rightarrow> bool) \<Rightarrow> conn \<Rightarrow> bool" where
  "getNoDelay nagle_disabled s = of_pcb False (\<lambda>p. nagle_disabled p (log s)) s"

definition remoteIP :: "env \<Rightarrow> conn \<Rightarrow> ip" where
  "remoteIP en = of_pcb 0 (e_remote_ip en)"

definition localIP :: "(pcb \<Rightarrow> ip) \<Rightarrow> conn \<Rightarrow> ip" where
  "localIP lip = of_pcb 0 lip"

definition localPort :: "(pcb \<Rightarrow> u16) \<Rightarrow> conn \<Rightarrow> u16" where
  "localPort lport = of_pcb 0 lport"

definition remotePort :: "env \<Rightarrow> conn \<Rightarrow> u16" where
  "remotePort en = of_pcb 0 (e_remote_port en)"

text \<open>The deprecated synonyms, and the access to the tracker.\<close>

definition getRemotePort :: "env \<Rightarrow> conn \<Rightarrow> u16" where
  "getRemotePort en s = remotePort en s"

definition getLocalPort :: "(pcb \<Rightarrow> u16) \<Rightarrow> conn \<Rightarrow> u16" where
  "getLocalPort lport s = localPort lport s"

definition client_errorToString :: "err_t \<Rightarrow> string" where
  "client_errorToString e = errorToString e"

definition client_free :: "env \<Rightarrow> conn \<Rightarrow> bool" where
  "client_free en s = freeable en s"

definition client_stop :: "env \<Rightarrow> user \<Rightarrow> conn \<Rightarrow> conn res" where
  "client_stop en cb s = close en cb False s"

definition client_getCloseError :: "conn \<Rightarrow> err_t" where
  "client_getCloseError s = getCloseError (trk s)"

text \<open>
  \<open>stop\<close> only asks for the close: the connection and its callbacks stay until the next
  poll, whose close then happens whatever the time-outs say.
\<close>

lemma stop_closes_at_poll:
  assumes "c_pcb s = Some p" "client_stop en cb s = Inr t"
  shows "c_pcb t = Some p \<and> client_poll en cb t
    = do_close en cb (set_close_error ERR_OK t\<lparr>close_pcb := False\<rparr>)"
  using assms by (auto simp: client_stop_def close_def client_poll_def set_close_error_def emit_def Let_def)

definition PBUF_FLAG_PUSH :: u8 where
  "PBUF_FLAG_PUSH = 1"

definition isRecvPush :: "conn \<Rightarrow> bool" where
  "isRecvPush s \<longleftrightarrow> and (recv_pbuf_flags s) PBUF_FLAG_PUSH \<noteq> 0"

definition tcp_ssl_get_ssl :: "pcb \<Rightarrow> 'a ssl_world_scheme \<Rightarrow> ssl_pcb option" where
  "tcp_ssl_get_ssl p s = find_ssl_pcb p (ssl s)"

definition getSSL :: "conn \<Rightarrow> ssl_pcb option" where
  "getSSL s = of_pcb None (\<lambda>p. tcp_ssl_get_ssl p s) s"

definition other_peer :: "env \<Rightarrow> conn \<Rightarrow> conn \<Rightarrow> bool" where
  "other_peer en s t \<longleftrightarrow> \<not> same_peer en s t"

text \<open>
  The setting of \<open>setNoDelay\<close> can be read back on a client that has a pcb, if lwIP's flag is
  what was set last.
\<close>

lemma no_delay_roundtrip:
  "(\<And>p b h. nagle_disabled p (A_nagle p b # h) = b) \<Longrightarrow>
    getNoDelay nagle_disabled (setNoDelay b s) = (if c_pcb s = None then False else b)"
  by (auto simp: getNoDelay_def of_pcb_def setNoDelay_def emit_def split: option.split)

text \<open>
  A client is in exactly one of the four phases; an established one is not \<open>connected\<close>
  before the handshake of its TLS connection is done.
\<close>

lemma phases_exclusive:
  "length (filter (\<lambda>b. b) [connecting en s, client_state en s = 4, disconnecting en s, disconnected en s]) = 1
    \<and> (connected en s \<longrightarrow> client_state en s = 4)"
proof (cases "c_pcb s")
  case (Some p)
  then show ?thesis
    by (cases "e_state en (log s) p")
      (simp_all add: connecting_def client_state_def disconnecting_def disconnected_def connected_def
        less_tcp_state_def)
qed (simp add: connecting_def client_state_def disconnecting_def disconnected_def connected_def)

text \<open>
  Comparing clients is symmetric, but not an equivalence: a client without a connection
  does not equal itself.
\<close>

lemma same_peer_laws:
  "same_peer en s t = same_peer en t s"
  "same_peer en s s = (c_pcb s \<noteq> None)"
  "same_peer en s t \<Longrightarrow> same_peer en t r \<Longrightarrow> same_peer en s r"
  by (auto simp: same_peer_def split: option.splits)

end
