(* ===== verification/ClientList.thy ===== *)
theory ClientList
  imports Prelude
begin

text \<open>
  The intrusive list of clients: \<open>AsyncClient::operator+=\<close> links a client to the end of the
  list that starts at another one, through the public members \<open>prev\<close> and \<open>next\<close>.  The
  heap maps the address of a client to the two pointers; clients that were deleted are
  not in it.
\<close>

section \<open>The heap and the operator\<close>

record links =
  l_prev :: "nat option"
  l_next :: "nat option"

type_synonym link_heap = "nat \<Rightarrow> links option"

definition deref :: "link_heap \<Rightarrow> nat \<Rightarrow> (links \<Rightarrow> 'a res) \<Rightarrow> 'a res" where
  "deref h c f = (case h c of None \<Rightarrow> Inl Use_after_free | Some l \<Rightarrow> f l)"

text \<open>\<open>while (c->next != NULL) c = c->next\<close>, with fuel.\<close>

fun list_end :: "nat \<Rightarrow> link_heap \<Rightarrow> nat \<Rightarrow> nat res" where
  "list_end 0 h c = Inl No_return"
| "list_end (Suc n) h c = deref h c (\<lambda>l. case l_next l of None \<Rightarrow> Inr c | Some d \<Rightarrow> list_end n h d)"

text \<open>\<open>c->next = &other; c->next->prev = c\<close>\<close>

definition link :: "link_heap \<Rightarrow> nat \<Rightarrow> nat \<Rightarrow> link_heap res" where
  "link h c other = deref h c (\<lambda>l.
     let h = h(c \<mapsto> l\<lparr>l_next := Some other\<rparr>)
     in deref h other (\<lambda>m. Inr (h(other \<mapsto> m\<lparr>l_prev := Some c\<rparr>))))"

definition client_append :: "nat \<Rightarrow> link_heap \<Rightarrow> nat \<Rightarrow> nat \<Rightarrow> link_heap res" where
  "client_append n h this other = deref h this (\<lambda>l.
     case l_next l of
       None \<Rightarrow> link h this other
     | Some c \<Rightarrow> rbind (list_end n h c) (\<lambda>c. link h c other))"

section \<open>Lists in the heap\<close>

text \<open>\<open>chain h xs\<close>: from its first element on, the pointers in both directions are those of \<open>xs\<close>.\<close>

fun chain :: "link_heap \<Rightarrow> nat list \<Rightarrow> bool" where
  "chain h [] = True"
| "chain h [x] = (\<exists>p. h x = Some \<lparr>l_prev = p, l_next = None\<rparr>)"
| "chain h (x # y # ys) = ((\<exists>p. h x = Some \<lparr>l_prev = p, l_next = Some y\<rparr>)
     \<and> (\<exists>q. h y = Some \<lparr>l_prev = Some x, l_next = q\<rparr>) \<and> chain h (y # ys))"

lemma chain_cong: "(\<And>x. x \<in> set xs \<Longrightarrow> h' x = h x) \<Longrightarrow> chain h' xs = chain h xs"
  by (induction h xs rule: chain.induct) auto

lemma chain_upd [simp]: "c \<notin> set xs \<Longrightarrow> chain (h(c := v)) xs = chain h xs"
  by (rule chain_cong) auto

lemma chain_live: "chain h xs \<Longrightarrow> x \<in> set xs \<Longrightarrow> h x \<noteq> None"
  by (induction h xs rule: chain.induct) auto

lemma list_end_chain:
  "chain h (x # xs) \<Longrightarrow> length xs < n \<Longrightarrow> list_end n h x = Inr (last (x # xs))"
proof (induction xs arbitrary: x n)
  case Nil
  then show ?case by (cases n) (auto simp: deref_def)
next
  case (Cons y ys)
  then show ?case by (cases n) (auto simp: deref_def)
qed

text \<open>The operator links the last element, whatever the length of the list.\<close>

lemma client_append_end:
  assumes "chain h (x # xs)" "length xs \<le> n"
  shows "client_append n h x other = link h (last (x # xs)) other"
proof (cases xs)
  case (Cons y ys)
  then have "list_end n h y = Inr (last (y # ys))"
    using assms by (intro list_end_chain) auto
  with assms(1) Cons show ?thesis by (auto simp: client_append_def deref_def)
qed (use assms in \<open>auto simp: client_append_def deref_def\<close>)

lemma chain_last: "chain h (x # xs) \<Longrightarrow> \<exists>p. h (last (x # xs)) = Some \<lparr>l_prev = p, l_next = None\<rparr>"
  by (induction xs arbitrary: x) auto

text \<open>The first element of a list may get any \<open>prev\<close>.\<close>

lemma chain_prev:
  assumes "chain h (y # ys)" "h y = Some m" "y \<notin> set ys"
  shows "chain (h(y \<mapsto> m\<lparr>l_prev := q\<rparr>)) (y # ys)"
proof (cases ys)
  case (Cons z zs)
  with assms have "chain h (z # zs)" "y \<notin> set (z # zs)" by auto
  then have "chain (h(y \<mapsto> m\<lparr>l_prev := q\<rparr>)) (z # zs)" by simp
  with assms Cons show ?thesis by auto
qed (use assms in auto)

lemma chain_concat:
  assumes "h y = Some m" "chain h (y # ys)"
  shows "chain h (x # xs) \<Longrightarrow> distinct (x # xs @ y # ys) \<Longrightarrow> h (last (x # xs)) = Some l \<Longrightarrow>
    chain (h(last (x # xs) \<mapsto> l\<lparr>l_next := Some y\<rparr>, y \<mapsto> m\<lparr>l_prev := Some (last (x # xs))\<rparr>))
      (x # xs @ y # ys)"
proof (induction xs arbitrary: x)
  case Nil
  let ?h = "h(x \<mapsto> l\<lparr>l_next := Some y\<rparr>)"
  have "chain ?h (y # ys)" using assms(2) Nil.prems(2) by (simp del: chain.simps)
  then have "chain (?h(y \<mapsto> m\<lparr>l_prev := Some x\<rparr>)) (y # ys)"
    using chain_prev [of ?h y ys m] assms(1) Nil.prems(2) by auto
  moreover have "\<exists>p. (?h(y \<mapsto> m\<lparr>l_prev := Some x\<rparr>)) x = Some \<lparr>l_prev = p, l_next = Some y\<rparr>"
    using Nil.prems by auto
  moreover have "\<exists>q. (?h(y \<mapsto> m\<lparr>l_prev := Some x\<rparr>)) y = Some \<lparr>l_prev = Some x, l_next = q\<rparr>"
    by (cases m) simp
  ultimately show ?case
    unfolding append_Nil last.simps(1) chain.simps(3) by simp
next
  case (Cons a xs)
  let ?e = "last (a # xs)"
  let ?h = "h(?e \<mapsto> l\<lparr>l_next := Some y\<rparr>, y \<mapsto> m\<lparr>l_prev := Some ?e\<rparr>)"
  have e: "last (x # a # xs) = ?e" by simp
  have "chain ?h (a # xs @ y # ys)"
    by (rule Cons.IH) (use Cons.prems in auto)
  moreover have "\<exists>p. ?h x = Some \<lparr>l_prev = p, l_next = Some a\<rparr>" using Cons.prems by auto
  moreover have "\<exists>q. ?h a = Some \<lparr>l_prev = Some x, l_next = q\<rparr>"
    using Cons.prems by (cases "a = ?e") (auto split: if_splits)
  ultimately show ?case unfolding e append_Cons chain.simps(3) by simp
qed

section \<open>What the operator does\<close>

text \<open>
  C32: \<open>a += b\<close> appends the list that starts at \<open>b\<close> to the list that starts at \<open>a\<close>, of any
  length, with the pointers in both directions, and changes no client but the last of
  the first list and the first of the second.
\<close>

theorem client_append_concatenates:
  assumes "chain h (a # xs)" "chain h (b # ys)" "distinct (a # xs @ b # ys)" "length xs \<le> n"
  shows "\<exists>h'. client_append n h a b = Inr h' \<and> chain h' (a # xs @ b # ys)
    \<and> (\<forall>c. c \<notin> {last (a # xs), b} \<longrightarrow> h' c = h c)"
proof -
  let ?e = "last (a # xs)"
  obtain l m where l: "h ?e = Some l" "h b = Some m"
    using chain_last [OF assms(1)] chain_live [OF assms(2), of b] by auto
  have "?e \<noteq> b" using assms(3) by (auto split: if_splits)
  then have "link h ?e b = Inr (h(?e \<mapsto> l\<lparr>l_next := Some b\<rparr>, b \<mapsto> m\<lparr>l_prev := Some ?e\<rparr>))"
    using l by (simp add: link_def deref_def Let_def)
  with client_append_end [OF assms(1,4)] chain_concat [OF l(2) assms(2,1,3) l(1)] show ?thesis
    by auto
qed

definition two_lists :: link_heap where
  "two_lists = [1 \<mapsto> \<lparr>l_prev = None, l_next = Some 2\<rparr>, 2 \<mapsto> \<lparr>l_prev = Some 1, l_next = None\<rparr>,
     3 \<mapsto> \<lparr>l_prev = None, l_next = None\<rparr>]"

theorem client_append_concatenates_witness:
  "\<exists>h'. client_append 1 two_lists 1 3 = Inr h' \<and> chain h' [1, 2, 3]"
  using client_append_concatenates [of two_lists 1 "[2]" 3 "[]" 1] by (auto simp: two_lists_def)

text \<open>A set of clients that is closed under \<open>next\<close> has no end.\<close>

definition endless :: "link_heap \<Rightarrow> nat set \<Rightarrow> bool" where
  "endless h S \<longleftrightarrow> (\<forall>c\<in>S. \<exists>l d. h c = Some l \<and> l_next l = Some d \<and> d \<in> S)"

lemma endless_list_end: "endless h S \<Longrightarrow> c \<in> S \<Longrightarrow> list_end n h c = Inl No_return"
proof (induction n arbitrary: c)
  case (Suc n)
  then obtain l d where "h c = Some l" "l_next l = Some d" "d \<in> S" by (auto simp: endless_def)
  with Suc show ?case by (simp add: deref_def)
qed simp

lemma chain_next:
  "chain h xs \<Longrightarrow> c \<in> set xs \<Longrightarrow> c \<noteq> last xs \<Longrightarrow> \<exists>l d. h c = Some l \<and> l_next l = Some d \<and> d \<in> set xs"
  by (induction h xs rule: chain.induct) auto

text \<open>
  The operator has no guard against a client that is in the list already, \<open>a += a\<close>
  included: it makes the list circular, and every later \<open>+=\<close> to the list runs forever.
\<close>

theorem append_twice_hangs:
  assumes "chain h (a # xs)" "b \<in> set (a # xs)" "length xs \<le> n"
  shows "\<exists>h'. client_append n h a b = Inr h' \<and> client_append k h' a c = Inl No_return"
proof -
  let ?e = "last (a # xs)"
  obtain l where l: "h ?e = Some l" using chain_last [OF assms(1)] by auto
  let ?h = "h(?e \<mapsto> l\<lparr>l_next := Some b\<rparr>)"
  obtain m where m: "?h b = Some m" using chain_live [OF assms(1,2)] by (cases "b = ?e") auto
  let ?h' = "?h(b \<mapsto> m\<lparr>l_prev := Some ?e\<rparr>)"
  have step: "client_append n h a b = Inr ?h'"
    using client_append_end [OF assms(1,3)] l m by (simp add: link_def deref_def Let_def)
  have "\<exists>l d. ?h x = Some l \<and> l_next l = Some d \<and> d \<in> set (a # xs)" if "x \<in> set (a # xs)" for x
    using chain_next [OF assms(1) that] assms(2) by (cases "x = ?e") auto
  then have "endless ?h (set (a # xs))" unfolding endless_def by blast
  then have cyc: "endless ?h' (set (a # xs))"
    using m by (fastforce simp: endless_def)
  then obtain l' d where "?h' a = Some l'" "l_next l' = Some d" "d \<in> set (a # xs)"
    unfolding endless_def by (meson list.set_intros(1))
  with endless_list_end [OF cyc] have "client_append k ?h' a c = Inl No_return"
    unfolding client_append_def deref_def by simp
  with step show ?thesis by blast
qed

theorem append_twice_hangs_witness:
  "\<exists>h'. client_append 0 [1 \<mapsto> \<lparr>l_prev = None, l_next = None\<rparr>] 1 1 = Inr h'
    \<and> client_append 100 h' 1 2 = Inl No_return"
  by (rule append_twice_hangs [of _ 1 "[]"]) simp_all

text \<open>
  The destructor does not unlink the client: with one that was deleted in the middle of
  the list, the operator reads freed memory.
\<close>

lemma append_after_delete:
  "chain h (a # xs) \<Longrightarrow> distinct (a # xs) \<Longrightarrow> d \<in> set xs \<Longrightarrow> length xs \<le> n \<Longrightarrow>
    client_append n (h(d := None)) a b = Inl Use_after_free"
proof -
  have walk: "list_end k (h(d := None)) x = Inl Use_after_free"
    if "chain h (x # ys)" "distinct (x # ys)" "d \<in> set (x # ys)" "length ys < k" for k x ys
    using that
  proof (induction ys arbitrary: x k)
    case (Cons y ys)
    then obtain m where k: "k = Suc m" by (cases k) auto
    show ?case using Cons k by (cases "d = x") (auto simp: deref_def)
  qed (auto simp: deref_def elim: less_natE)
  assume *: "chain h (a # xs)" "distinct (a # xs)" "d \<in> set xs" "length xs \<le> n"
  then obtain y ys where xs: "xs = y # ys" by (cases xs) auto
  with * walk [of y ys n] show ?thesis
    by (auto simp: client_append_def deref_def)
qed

end
