(* ===== verification/CipherSuites.thy ===== *)
theory CipherSuites
  imports Prelude
begin

text \<open>
  The configuration tcp_bearssl.cpp gives the engine of a client: the table \<open>suites_P\<close> of
  cipher suites and \<open>br_ssl_client_base_init\<close>.  The comment above the table gives the
  rationale of its order; here the order is checked against it.
\<close>

section \<open>The table\<close>

text \<open>A constant \<open>BR_TLS_<kx>_WITH_<enc>_<hash>\<close>; AEAD suites without a hash in their name have none.\<close>

datatype kex = ECDHE_ECDSA | ECDHE_RSA | ECDH_ECDSA | ECDH_RSA | KX_RSA

datatype enc_mode = CHACHA20_POLY1305 | GCM | CCM | CCM_8 | CBC

datatype enc = AES nat enc_mode | CHACHA20 | DES3_CBC

datatype mac = SHA256 | SHA384 | SHA1 | NO_HASH

datatype suite = TLS kex enc mac

definition suites_P :: "bool \<Rightarrow> suite list" where
  "suites_P basic =
     (if basic then [] else
      [TLS ECDHE_ECDSA CHACHA20 SHA256, TLS ECDHE_RSA CHACHA20 SHA256,
       TLS ECDHE_ECDSA (AES 128 GCM) SHA256, TLS ECDHE_RSA (AES 128 GCM) SHA256,
       TLS ECDHE_ECDSA (AES 256 GCM) SHA384, TLS ECDHE_RSA (AES 256 GCM) SHA384,
       TLS ECDHE_ECDSA (AES 128 CCM) NO_HASH, TLS ECDHE_ECDSA (AES 256 CCM) NO_HASH,
       TLS ECDHE_ECDSA (AES 128 CCM_8) NO_HASH, TLS ECDHE_ECDSA (AES 256 CCM_8) NO_HASH,
       TLS ECDHE_ECDSA (AES 128 CBC) SHA256, TLS ECDHE_RSA (AES 128 CBC) SHA256,
       TLS ECDHE_ECDSA (AES 256 CBC) SHA384, TLS ECDHE_RSA (AES 256 CBC) SHA384,
       TLS ECDHE_ECDSA (AES 128 CBC) SHA1, TLS ECDHE_RSA (AES 128 CBC) SHA1,
       TLS ECDHE_ECDSA (AES 256 CBC) SHA1, TLS ECDHE_RSA (AES 256 CBC) SHA1,
       TLS ECDH_ECDSA (AES 128 GCM) SHA256, TLS ECDH_RSA (AES 128 GCM) SHA256,
       TLS ECDH_ECDSA (AES 256 GCM) SHA384, TLS ECDH_RSA (AES 256 GCM) SHA384,
       TLS ECDH_ECDSA (AES 128 CBC) SHA256, TLS ECDH_RSA (AES 128 CBC) SHA256,
       TLS ECDH_ECDSA (AES 256 CBC) SHA384, TLS ECDH_RSA (AES 256 CBC) SHA384,
       TLS ECDH_ECDSA (AES 128 CBC) SHA1, TLS ECDH_RSA (AES 128 CBC) SHA1,
       TLS ECDH_ECDSA (AES 256 CBC) SHA1, TLS ECDH_RSA (AES 256 CBC) SHA1,
       TLS KX_RSA (AES 128 GCM) SHA256, TLS KX_RSA (AES 256 GCM) SHA384,
       TLS KX_RSA (AES 128 CCM) NO_HASH, TLS KX_RSA (AES 256 CCM) NO_HASH,
       TLS KX_RSA (AES 128 CCM_8) NO_HASH, TLS KX_RSA (AES 256 CCM_8) NO_HASH])
    @ [TLS KX_RSA (AES 128 CBC) SHA256, TLS KX_RSA (AES 256 CBC) SHA256,
       TLS KX_RSA (AES 128 CBC) SHA1, TLS KX_RSA (AES 256 CBC) SHA1]
    @ (if basic then [] else
      [TLS ECDHE_ECDSA DES3_CBC SHA1, TLS ECDHE_RSA DES3_CBC SHA1,
       TLS ECDH_ECDSA DES3_CBC SHA1, TLS ECDH_RSA DES3_CBC SHA1, TLS KX_RSA DES3_CBC SHA1])"

section \<open>The configuration of a client engine\<close>

text \<open>The calls that configure BearSSL's client context, in order.\<close>

datatype tls_version = BR_TLS10 | BR_TLS11 | BR_TLS12

datatype hash_id = H_md5 | H_sha1 | H_sha224 | H_sha256 | H_sha384 | H_sha512

datatype config_call =
    C_zero
  | C_no_renegotiation
  | C_versions tls_version tls_version
  | C_suites "suite list"
  | C_default_rsapub
  | C_default_rsavrfy
  | C_default_ecdsa
  | C_hash hash_id
  | C_prf10
  | C_prf_sha256
  | C_prf_sha384
  | C_default_aes_cbc
  | C_default_aes_gcm
  | C_default_aes_ccm
  | C_default_des_cbc
  | C_default_chapol

definition br_ssl_client_install_hashes :: "config_call list" where
  "br_ssl_client_install_hashes = map C_hash [H_md5, H_sha1, H_sha224, H_sha256, H_sha384, H_sha512]"

definition br_ssl_client_base_init :: "bool \<Rightarrow> suite list \<Rightarrow> config_call list" where
  "br_ssl_client_base_init basic cipher_list =
     [C_zero, C_no_renegotiation, C_versions BR_TLS10 BR_TLS12, C_suites cipher_list,
      C_default_rsapub, C_default_rsavrfy]
     @ (if basic then [] else [C_default_ecdsa])
     @ br_ssl_client_install_hashes
     @ [C_prf10, C_prf_sha256, C_prf_sha384, C_default_aes_cbc]
     @ (if basic then [] else
        [C_default_aes_gcm, C_default_aes_ccm, C_default_des_cbc, C_default_chapol])"

text \<open>The suites a client offers after these calls; \<open>br_ssl_client_zero\<close> forgets all before it.\<close>

fun offered :: "suite list \<Rightarrow> config_call list \<Rightarrow> suite list" where
  "offered cs [] = cs"
| "offered cs (x # xs) = offered (case x of C_zero \<Rightarrow> [] | C_suites ys \<Rightarrow> ys | _ \<Rightarrow> cs) xs"

lemma offered_suites: "offered cs (br_ssl_client_base_init basic ys) = ys"
  by (simp add: br_ssl_client_base_init_def br_ssl_client_install_hashes_def)

section \<open>The rationale\<close>

text \<open>
  The rules of the comment, from most to least important, as numbers to be compared
  lexicographically: no 3DES; forward secrecy, then ECDH before RSA; ChaCha20, GCM, CCM,
  CCM_8, CBC (a CCM_8 suite counts as CCM against CBC); AES-128 before AES-256.  The comment
  has no rule about the hash.
\<close>

definition kex_class :: "kex \<Rightarrow> nat" where
  "kex_class k = (case k of ECDHE_ECDSA \<Rightarrow> 0 | ECDHE_RSA \<Rightarrow> 0 | ECDH_ECDSA \<Rightarrow> 1 | ECDH_RSA \<Rightarrow> 1 | KX_RSA \<Rightarrow> 2)"

fun rank :: "suite \<Rightarrow> nat list" where
  "rank (TLS k e m) =
     [if e = DES3_CBC then 1 else 0,
      kex_class k,
      case e of CHACHA20 \<Rightarrow> 0 | DES3_CBC \<Rightarrow> 4 | AES n md \<Rightarrow>
        (case md of CHACHA20_POLY1305 \<Rightarrow> 0 | GCM \<Rightarrow> 1 | CCM \<Rightarrow> 2 | CCM_8 \<Rightarrow> 3 | CBC \<Rightarrow> 4),
      case e of AES n md \<Rightarrow> n | _ \<Rightarrow> 0]"

fun lex_le :: "nat list \<Rightarrow> nat list \<Rightarrow> bool" where
  "lex_le [] ys = True"
| "lex_le (x # xs) [] = False"
| "lex_le (x # xs) (y # ys) = (x < y \<or> x = y \<and> lex_le xs ys)"

definition at_least_as_good :: "suite \<Rightarrow> suite \<Rightarrow> bool" where
  "at_least_as_good s t = lex_le (rank s) (rank t)"

text \<open>
  The table departs from the last rule where the hash differs: among the CBC suites of a
  key exchange it lists AES-256 with a SHA-2 hash before AES-128 with SHA-1.
\<close>

fun sha2_first :: "suite \<Rightarrow> suite \<Rightarrow> bool" where
  "sha2_first (TLS k (AES n CBC) m) (TLS k' (AES n' CBC) m') =
     (kex_class k = kex_class k' \<and> n = 256 \<and> n' = 128 \<and> m \<in> {SHA256, SHA384} \<and> m' = SHA1)"
| "sha2_first _ _ = False"

definition ordered :: "suite \<Rightarrow> suite \<Rightarrow> bool" where
  "ordered s t = (at_least_as_good s t = (\<not> sha2_first s t))"

lemma suites_sorted: "sorted_wrt ordered (suites_P basic)"
  by (simp add: suites_P_def ordered_def at_least_as_good_def kex_class_def)

text \<open>A peer that honours the order of the offer takes the first suite it supports.\<close>

definition negotiated :: "suite list \<Rightarrow> (suite \<Rightarrow> bool) \<Rightarrow> suite option" where
  "negotiated offer supports = find supports offer"

lemma ordered_refl: "ordered s s"
proof -
  have "lex_le xs xs" for xs by (induction xs) simp_all
  moreover have "\<not> sha2_first s s" by (cases "(s, s)" rule: sha2_first.cases) auto
  ultimately show ?thesis by (simp add: ordered_def at_least_as_good_def)
qed

lemma find_best:
  "sorted_wrt R xs \<Longrightarrow> (\<And>x. R x x) \<Longrightarrow> find P xs = Some x \<Longrightarrow> y \<in> set xs \<Longrightarrow> P y \<Longrightarrow> R x y"
  by (induction xs) (auto split: if_splits)

lemma negotiated_best:
  "negotiated (suites_P basic) supports = Some s \<Longrightarrow> t \<in> set (suites_P basic) \<Longrightarrow> supports t
    \<Longrightarrow> at_least_as_good s t = (\<not> sha2_first s t)"
  unfolding negotiated_def
  using find_best [of ordered "suites_P basic" supports s t] suites_sorted ordered_refl
  by (simp add: ordered_def)

text \<open>
  C33: how far the order of \<open>suites_P\<close> follows the rationale in its comment.  Whatever set of
  suites a peer supports: the first suite \<open>s\<close> it supports of those a client offers is at
  least as good, by the rules of the comment in their order of importance, as any other
  suite \<open>t\<close> it supports, except exactly when \<open>s\<close> is an AES-256 CBC suite with SHA-256 or
  SHA-384 and \<open>t\<close> an AES-128 CBC suite with SHA-1 of the same class of key exchange; then
  the last rule, AES-128 before AES-256, is violated.
\<close>

theorem best_common_suite:
  assumes "negotiated (offered cs (br_ssl_client_base_init basic (suites_P basic))) supports = Some s"
    and "t \<in> set (suites_P basic)" "supports t"
  shows "at_least_as_good s t \<longleftrightarrow> \<not> sha2_first s t"
  using negotiated_best [of basic supports s t] assms by (simp add: offered_suites)

theorem best_common_suite_witness:
  "at_least_as_good (TLS ECDHE_RSA (AES 128 GCM) SHA256) (TLS KX_RSA (AES 128 CBC) SHA1)
   \<and> \<not> at_least_as_good (TLS KX_RSA (AES 256 CBC) SHA256) (TLS KX_RSA (AES 128 CBC) SHA1)"
proof
  show "at_least_as_good (TLS ECDHE_RSA (AES 128 GCM) SHA256) (TLS KX_RSA (AES 128 CBC) SHA1)"
    using best_common_suite [of "[]" False
        "\<lambda>s. s \<in> {TLS ECDHE_RSA (AES 128 GCM) SHA256, TLS KX_RSA (AES 128 CBC) SHA1}"]
    by (simp add: negotiated_def offered_suites suites_P_def)
  show "\<not> at_least_as_good (TLS KX_RSA (AES 256 CBC) SHA256) (TLS KX_RSA (AES 128 CBC) SHA1)"
    using best_common_suite [of "[]" False
        "\<lambda>s. s \<in> {TLS KX_RSA (AES 256 CBC) SHA256, TLS KX_RSA (AES 128 CBC) SHA1}"]
    by (simp add: negotiated_def offered_suites suites_P_def kex_class_def)
qed

text \<open>
  Forward secrecy is given up only when the peer leaves no choice: if the suite taken has
  no ephemeral key exchange and is not 3DES, then the peer supports no suite with one,
  except for 3DES.
\<close>

lemma forward_secrecy_preferred:
  assumes "negotiated (suites_P basic) supports = Some (TLS k e m)" "k \<notin> {ECDHE_ECDSA, ECDHE_RSA}"
    and "TLS k' e' m' \<in> set (suites_P basic)" "k' \<in> {ECDHE_ECDSA, ECDHE_RSA}" "e' \<noteq> DES3_CBC"
  shows "\<not> supports (TLS k' e' m')"
  using negotiated_best [OF assms(1,3)] assms(2,4,5)
  by (cases "(TLS k e m, TLS k' e' m')" rule: sha2_first.cases)
    (auto simp: at_least_as_good_def kex_class_def split: if_splits kex.splits)

text \<open>3DES is taken only when the peer supports nothing else.\<close>

lemma no_3des_unless_alone:
  assumes "negotiated (suites_P basic) supports = Some (TLS k DES3_CBC m)"
    and "TLS k' e' m' \<in> set (suites_P basic)" "e' \<noteq> DES3_CBC"
  shows "\<not> supports (TLS k' e' m')"
  using negotiated_best [OF assms(1,2)] assms(3) by (auto simp: at_least_as_good_def)

end
