(* ===== verification/ClientIsolation.thy ===== *)
theory ClientIsolation
  imports ClientSecure
begin

text \<open>
  Several clients share lwIP.  Whatever one of them and its sketch do, they make no call on
  the pcb of another connection, as long as lwIP does not hand out that pcb again: a
  further instance of \<open>client_contract\<close>.
\<close>

section \<open>Calls on a foreign pcb\<close>

text \<open>The events that concern \<open>q\<close>: the calls on it, and that it was handed out or freed.\<close>

definition concerns :: "pcb \<Rightarrow> act \<Rightarrow> bool" where
  "concerns q a \<longleftrightarrow> used_pcb a = Some q \<or> a = A_setprio q \<or> a = A_lwip_freed q"

definition calls_on :: "pcb \<Rightarrow> hist \<Rightarrow> hist" where
  "calls_on q h = filter (concerns q) h"

text \<open>How often lwIP handed out \<open>q\<close>: the library calls \<open>tcp_setprio\<close> on every pcb it gets.\<close>

definition handed_out :: "pcb \<Rightarrow> hist \<Rightarrow> nat" where
  "handed_out q h = length (filter (\<lambda>a. a = A_setprio q) h)"

definition K_foreign :: "pcb \<Rightarrow> nat \<Rightarrow> hist \<Rightarrow> pcb option \<Rightarrow> tracker \<Rightarrow> hist \<Rightarrow> bool \<Rightarrow> bool" where
  "K_foreign q n V c t h u \<longleftrightarrow>
     \<not> u \<and> (n < handed_out q h \<or> n = handed_out q h \<and> c \<noteq> Some q \<and> calls_on q h = V)"

lemma calls_on_Cons [simp]: "calls_on q (a # h) = (if used_pcb a = Some q \<or> a = A_setprio q \<or> a = A_lwip_freed q
    then a # calls_on q h else calls_on q h)"
  by (simp add: calls_on_def concerns_def)

text \<open>Whether a pcb is released depends on the events that concern it.\<close>

lemma released_calls_on: "released q h = released q (calls_on q h)"
proof (induction h)
  case (Cons a h)
  then show ?case by (cases a) auto
qed (simp add: calls_on_def)

lemma handed_out_Cons [simp]: "handed_out q (a # h) = (if a = A_setprio q then Suc (handed_out q h) else handed_out q h)"
  by (simp add: handed_out_def)

lemma idle_foreign: "idle_act a \<Longrightarrow> used_pcb a = None \<and> a \<noteq> A_setprio q \<and> a \<noteq> A_lwip_freed q"
  by (cases a rule: idle_act.cases) auto

lemma own_foreign: "own_act p a \<Longrightarrow> used_pcb a \<in> {None, Some p} \<and> (a = A_setprio q \<longrightarrow> q = p) \<and> a \<noteq> A_lwip_freed q"
  by (cases a) auto

interpretation foreign: client_relation en False True "K_foreign q n V" for en q n V
proof unfold_locales
  fix a c t h u
  assume "idle_act a" "K_foreign q n V c t h u"
  then show "K_foreign q n V c t (a # h) u"
    using idle_foreign [of a q] by (auto simp: K_foreign_def)
next
  fix p a t h u
  assume "own_act p a" "K_foreign q n V (Some p) t h u"
  then show "K_foreign q n V (Some p) t (a # h) u"
    using own_foreign [of p a q] by (auto simp: K_foreign_def)
qed (auto simp: K_foreign_def)

definition no_tls_sketch :: "sketch \<Rightarrow> bool" where
  "no_tls_sketch usr \<longleftrightarrow> (\<forall>ev h. \<forall>x\<in>set (usr ev h). \<not> tls_op x)"

lemma foreign_contract:
  "no_tls_sketch usr \<Longrightarrow> client_contract en False True (K_foreign q n V) (run_cb d en usr)"
  by (rule foreign.run_cb_contract) (auto simp: no_tls_sketch_def)

abbreviation foreign_state :: "pcb \<Rightarrow> nat \<Rightarrow> hist \<Rightarrow> conn \<Rightarrow> bool" where
  "foreign_state q n V s \<equiv> registry_wf (ssl s) \<and> K_foreign q n V (c_pcb s) (trk s) (log s) (use_tls s)"

lemma K_foreign_tracker: "K_foreign q n V c t h u = K_foreign q n V c t' h u"
  by (simp add: K_foreign_def)

lemma foreign_recv:
  assumes C: "client_contract en False True (K_foreign q n V) cb" and s: "foreign_state q n V s"
    and "c_pcb s = Some p" "p \<noteq> q"
  shows "ok (foreign_state q n V) (client_recv en cb (Some p) pb err s)"
proof -
  have s': "foreign_state q n V (set_close_error ERR_OK s)"
    using s by (simp add: set_close_error_def K_foreign_def)
  consider "err \<noteq> ERR_OK" | "err = ERR_OK" "pb = []" | "err = ERR_OK" "pb \<noteq> []" by blast
  then show ?thesis
  proof cases
    case 1
    let ?t = "set_errored EE_RECV_CB (set_close_error err s)"
    have "foreign_state q n V ?t" "c_pcb ?t = Some p"
      using s assms(3) by (simp_all add: set_errored_def set_close_error_def K_foreign_def)
    then have "foreign_state q n V ((clearTcpCallbacks p ?t)\<lparr>c_pcb := None\<rparr>)"
      using assms(4) by (auto simp: clearTcpCallbacks_def emits_def K_foreign_def)
    from client_contract.do_error_holds [OF C this, where e = err] 1 show ?thesis
      by (simp add: client_recv_def fail_pcb_def)
  next
    case 2
    with client_contract.do_close_holds [OF C s] show ?thesis by (simp add: client_recv_def)
  next
    case 3
    have data: "ok (\<lambda>s. foreign_state q n V s \<and> True) (invoke cb ev s)" if "foreign_state q n V s" for ev s
      using client_contract.invoke_holds [OF C that] by (rule ok_mono) simp
    have window: "K_foreign q n V c t (A_tcp_recved (Some p) k # h) u" if "K_foreign q n V c t h u" for c t h u k
      using that assms(4) by (simp add: K_foreign_def)
    from client_contract.client_recv_holds [OF C s' assms(3) 3(2), where Q = "\<lambda>c. True"] data window 3(1)
    show ?thesis by simp
  qed
qed

lemma foreign_result:
  "ok (foreign_state q n V) r \<Longrightarrow> rbind r (\<lambda>s. Inr (callback_result s)) = Inr (e, t) \<Longrightarrow> foreign_state q n V t"
  by (cases r) (auto simp: callback_result_def K_foreign_def split: prod.splits)

text \<open>One step keeps \<open>K_foreign\<close>, as long as it leaves the client a plain one.\<close>

lemma foreign_step:
  assumes "client_step d en usr s t" "no_tls_sketch usr" "foreign_state q n V s"
    and "c_pcb s = Some p" "p \<noteq> q" "\<not> use_tls t"
  shows "foreign_state q n V t"
proof -
  let ?cb = "run_cb d en usr"
  let ?H = "foreign_state q n V"
  have C: "client_contract en False True (K_foreign q n V) ?cb" by (rule foreign_contract [OF assms(2)])
  have s: "?H s" "\<not> use_tls s" using assms(3) by (simp_all add: K_foreign_def)
  from s(1) have s': "?H (set_close_error ERR_OK s)" by (simp add: set_close_error_def K_foreign_def)
  note result = foreign_result [where q = q and n = n and V = V]
  from assms(1) show ?thesis
  proof (cases rule: client_step.cases)
    case (poll p' e)
    with result [OF client_contract.client_poll_holds [OF C s']] show ?thesis
      by (auto simp: s_poll_def)
  next
    case (recv p' pb err e)
    have "ok ?H (client_recv en ?cb (Some p) pb err s)"
      by (rule foreign_recv [OF C s(1) assms(4,5)])
    moreover have "p' = p" using recv(2) assms(4) by simp
    ultimately show ?thesis using recv(3) by (intro result [where e = e]) (auto simp: s_recv_def)
  next
    case (sent p' len e)
    with result [OF client_contract.client_sent_holds [OF C s(1) s']] show ?thesis
      by (auto simp: s_sent_def)
  next
    case (error p' err)
    let ?s = "set_errored EE_ERROR_CB (set_close_error err (emit (A_lwip_freed p) s))"
    have "?H (?s\<lparr>c_pcb := None\<rparr>)" "c_pcb ?s = Some p" "\<not> use_tls ?s"
      using assms(4,5) s by (simp_all add: set_errored_def set_close_error_def log_defs K_foreign_def)
    then have "ok ?H (s_error ?cb err (emit (A_lwip_freed p) s))"
      using client_contract.do_error_holds [OF C, of "?s\<lparr>c_pcb := None\<rparr>" err]
      by (simp add: s_error_def do_error_def touch_def)
    moreover have "p' = p" using error(2) assms(4) by simp
    ultimately show ?thesis using error(3) by simp
  next
    case (connected po err e)
    with assms(4) show ?thesis by simp
  next
    case (failed p' err)
    with assms(4) show ?thesis by simp
  next
    case (dns addr)
    with client_contract.dns_found_holds [OF C s(1), where addr = addr] show ?thesis by simp
  next
    case (user x)
    have "\<not> tls_op x" using tls_op_sets user assms(6) by blast
    with client_contract.user_call_holds [OF C s(1), where x = x] user show ?thesis by simp
  qed
qed

text \<open>
  Connections do not disturb each other.  One step of a plain client with its own
  connection, a callback of lwIP or a call of its sketch, with handlers that do what they
  like (close, abort, delete, connect again), makes no call on any other pcb \<open>q\<close> and does
  not take it over, unless lwIP hands out \<open>q\<close> itself.
\<close>

theorem other_connections_untouched:
  assumes "client_step d en usr s t" "no_tls_sketch usr" "registry_wf (ssl s)"
    and "c_pcb s = Some p" "p \<noteq> q" "\<not> use_tls s" "\<not> use_tls t"
    and "handed_out q (log t) = handed_out q (log s)"
  shows "calls_on q (log t) = calls_on q (log s) \<and> c_pcb t \<noteq> Some q"
proof -
  have "foreign_state q (handed_out q (log s)) (calls_on q (log s)) s"
    using assms(3-6) by (simp add: K_foreign_def)
  from foreign_step [OF assms(1,2) this assms(4,5,7)] assms(8) show ?thesis
    by (simp add: K_foreign_def)
qed

theorem other_connections_untouched_witness:
  "\<exists>t. client_step 1 quiet_env (\<lambda>ev h. []) plain0 t \<and> c_pcb t = None
     \<and> A_tcp_close 1 ERR_OK \<in> set (log t) \<and> calls_on 2 (log t) = []"
proof -
  have "\<exists>t. user_call quiet_env (run_cb 1 quiet_env (\<lambda>ev h. [])) (Op_close True) plain0 = Inr t
      \<and> c_pcb t = None \<and> \<not> use_tls t \<and> A_tcp_close 1 ERR_OK \<in> set (log t) \<and> handed_out 2 (log t) = 0"
    by (simp add: user_call_def close_def do_close_def drop_tls_def clearTcpCallbacks_def invoke_if_def
        set_close_error_def log_defs quiet_env_def plain0_def mem0_def handed_out_def)
  then obtain t where t: "user_call quiet_env (run_cb 1 quiet_env (\<lambda>ev h. [])) (Op_close True) plain0 = Inr t"
    "c_pcb t = None" "\<not> use_tls t" "A_tcp_close 1 ERR_OK \<in> set (log t)" "handed_out 2 (log t) = 0" by blast
  have p: "life plain0 = Alive" "registry_wf (ssl plain0)" "c_pcb plain0 = Some 1" "\<not> use_tls plain0"
    "log plain0 = []" "no_tls_sketch (\<lambda>ev h. [])"
    by (simp_all add: plain0_def mem0_def registry_wf_def no_tls_sketch_def)
  have step: "client_step 1 quiet_env (\<lambda>ev h. []) plain0 t" by (rule client_step.user [OF p(1) t(1)])
  from other_connections_untouched [OF step p(6,2,3) _ p(4) t(3), of 2] t p(5)
  have "calls_on 2 (log t) = []" by (simp add: calls_on_def handed_out_def)
  with step t show ?thesis by blast
qed

end
