(* ===== verification/ClientSystem.thy ===== *)
theory ClientSystem
  imports ClientIsolation ClientCopy
begin

text \<open>
  Several clients at once.  They share lwIP, whose answers depend on the calls of all of
  them, and the list of TLS contexts; lwIP and the sketches let any one of them make the
  next step.
\<close>

section \<open>Steps of a system\<close>

text \<open>\<open>log\<close> and \<open>ssl\<close> are shared, so those of the clients' own records do not count.\<close>

record system = ssl_world +
  clients :: "nat \<Rightarrow> conn option"

definition sharing :: "system \<Rightarrow> conn \<Rightarrow> conn" where
  "sharing w s = s\<lparr>log := log w, ssl := ssl w\<rparr>"

definition put :: "nat \<Rightarrow> conn \<Rightarrow> system \<Rightarrow> system" where
  "put i s w = w\<lparr>log := log s, ssl := ssl s, clients := (clients w)(i \<mapsto> s)\<rparr>"

definition holds_pcb :: "system \<Rightarrow> nat \<Rightarrow> pcb \<Rightarrow> bool" where
  "holds_pcb w i q \<longleftrightarrow> (\<exists>s. clients w i = Some s \<and> c_pcb s = Some q)"

text \<open>
  What a step of client \<open>i\<close> into \<open>t\<close> takes for granted: lwIP hands out no pcb that another
  client holds, and client \<open>i\<close> does not use TLS.
\<close>

definition fair :: "system \<Rightarrow> nat \<Rightarrow> conn \<Rightarrow> bool" where
  "fair w i t \<longleftrightarrow> \<not> use_tls t
     \<and> (\<forall>j q. j \<noteq> i \<longrightarrow> holds_pcb w j q \<longrightarrow> handed_out q (log t) = handed_out q (log w))"

text \<open>
  Steps of the client \<open>i\<close>: with a connection, any of \<open>client_step\<close>; without one, an API call,
  the answer of the name server, or the \<open>connected\<close> callback, or the error callback of a
  connection that failed, for a pcb that was not released and belongs to no other client
  (lwIP calls it with the \<open>arg\<close> of the pcb).  \<open>create\<close> is the constructor, of the sketch
  (\<open>po = None\<close>) or of the server, at an address where no client lives.  \<open>assign\<close> is
  \<open>operator=\<close> with another client on the right that has no connection.  From then on the two
  share their error tracker, which the model does not: a step of one changes that of the
  other, and \<open>tracker\<close> lets it change arbitrarily.  \<open>copy\<close> is \<open>operator=\<close> with a
  connected client on the right; it is a step only if \<open>copies\<close>.
\<close>

inductive sys_step ::
  "bool \<Rightarrow> nat \<Rightarrow> env \<Rightarrow> (nat \<Rightarrow> sketch) \<Rightarrow> nat \<Rightarrow> system \<Rightarrow> system \<Rightarrow> bool" for copies d en usr i where
  running: "\<lbrakk>clients w i = Some s; c_pcb s \<noteq> None; client_step d en (usr i) (sharing w s) t; fair w i t\<rbrakk>
    \<Longrightarrow> sys_step copies d en usr i w (put i t w)"
| connected: "\<lbrakk>clients w i = Some s; life s = Alive; c_pcb s = None;
      \<forall>p. po = Some p \<longrightarrow> \<not> released p (log w) \<and> (\<forall>j. j \<noteq> i \<longrightarrow> \<not> holds_pcb w j p);
      s_connected en (run_cb d en (usr i)) po err (sharing w s) = Inr (e, t); fair w i t\<rbrakk>
    \<Longrightarrow> sys_step copies d en usr i w (put i t w)"
| failed: "\<lbrakk>clients w i = Some s; life s = Alive; c_pcb s = None;
      \<not> released p (log w); \<forall>j. j \<noteq> i \<longrightarrow> \<not> holds_pcb w j p;
      s_error (run_cb d en (usr i)) err (emit (A_lwip_freed p) (sharing w s)) = Inr t; fair w i t\<rbrakk>
    \<Longrightarrow> sys_step copies d en usr i w (put i t w)"
| call: "\<lbrakk>clients w i = Some s; life s = Alive;
      user_call en (run_cb d en (usr i)) x (sharing w s) = Inr t; fair w i t\<rbrakk>
    \<Longrightarrow> sys_step copies d en usr i w (put i t w)"
| dns: "\<lbrakk>clients w i = Some s; life s = Alive;
      dns_found en (run_cb d en (usr i)) addr (sharing w s) = Inr t; fair w i t\<rbrakk>
    \<Longrightarrow> sys_step copies d en usr i w (put i t w)"
| create: "\<lbrakk>\<forall>s. clients w i = Some s \<longrightarrow> life s = Dead;
      new_client en (run_cb d en (usr i)) mode po None (sharing w mem) = Inr t; fair w i t\<rbrakk>
    \<Longrightarrow> sys_step copies d en usr i w (put i t w)"
| assign: "\<lbrakk>clients w i = Some s; life s = Alive; j \<noteq> i; clients w j = Some r; life r = Alive; c_pcb r = None;
      assign en (run_cb d en (usr i)) r (sharing w s) = Inr t; fair w i t\<rbrakk>
    \<Longrightarrow> sys_step copies d en usr i w (put i t w)"
| tracker: "clients w i = Some s
    \<Longrightarrow> sys_step copies d en usr i w (put i ((sharing w s)\<lparr>trk := tr\<rparr>) w)"
| copy: "\<lbrakk>copies; clients w i = Some s; life s = Alive; j \<noteq> i; clients w j = Some r; life r = Alive;
      c_pcb r = Some p; assign en (run_cb d en (usr i)) r (sharing w s) = Inr t; \<not> use_tls t\<rbrakk>
    \<Longrightarrow> sys_step copies d en usr i w (put i t w)"

inductive sys_reach :: "bool \<Rightarrow> nat \<Rightarrow> env \<Rightarrow> (nat \<Rightarrow> sketch) \<Rightarrow> system \<Rightarrow> bool" for copies d en usr where
  start: "\<lbrakk>\<forall>i. clients w i = None; registry_wf (ssl w); log w = []\<rbrakk> \<Longrightarrow> sys_reach copies d en usr w"
| step: "\<lbrakk>sys_reach copies d en usr w; sys_step copies d en usr i w w'\<rbrakk> \<Longrightarrow> sys_reach copies d en usr w'"

section \<open>No interference\<close>

lemma sharing_simps [simp]:
  "log (sharing w s) = log w" "ssl (sharing w s) = ssl w" "c_pcb (sharing w s) = c_pcb s"
  "use_tls (sharing w s) = use_tls s" "life (sharing w s) = life s"
  by (simp_all add: sharing_def)

lemma put_simps [simp]:
  "log (put i s w) = log s" "ssl (put i s w) = ssl s"
  "clients (put i s w) = (clients w)(i \<mapsto> s)"
  "holds_pcb (put i s w) j q = (if j = i then c_pcb s = Some q else holds_pcb w j q)"
  by (simp_all add: put_def holds_pcb_def)

lemma foreign_connected:
  assumes C: "client_contract en False True (K_foreign q n V) cb" and s: "foreign_state q n V s"
    and "po \<noteq> Some q"
  shows "ok (foreign_state q n V) (client_connected en cb po err s)"
proof (cases "po = None \<or> err \<noteq> ERR_OK")
  case True
  let ?t = "set_errored EE_CONNECTED_CB (set_close_error err s)"
  have "foreign_state q n V ((case po of None \<Rightarrow> ?t | Some p \<Rightarrow> clearTcpCallbacks p ?t)\<lparr>c_pcb := None\<rparr>)"
    using s assms(3)
    by (auto simp: set_errored_def set_close_error_def clearTcpCallbacks_def emits_def K_foreign_def
        split: option.split)
  from client_contract.do_error_holds [OF C this, where e = err] True show ?thesis
    by (auto simp: client_connected_def fail_pcb_def split: option.split)
next
  case False
  then obtain p where po: "po = Some p" "err = ERR_OK" by auto
  let ?s = "emits [A_setprio p, A_recv_fn p True, A_sent_fn p True, A_poll_fn p True]
      ((snd (millis en (s\<lparr>c_pcb := Some p, pcb_busy := False\<rparr>)))\<lparr>rx_last_packet := e_millis en (log s)\<rparr>)"
  have "foreign_state q n V ?s" "use_tls ?s = use_tls s"
    using s po assms(3) by (auto simp: log_defs K_foreign_def)
  with client_contract.invoke_if_holds [OF C this(1)] s po show ?thesis
    by (simp add: client_connected_def Let_def millis_def K_foreign_def)
qed

lemma failed_state:
  assumes "foreign_state q n V s" "p \<noteq> q"
  shows "foreign_state q n V (set_errored EE_ERROR_CB (set_close_error err (emit (A_lwip_freed p) s)))"
  using assms by (auto simp: set_errored_def set_close_error_def log_defs K_foreign_def)

lemma foreign_new:
  assumes "new_client en cb mode po None mem = Inr t" "registry_wf (ssl mem)"
  shows "foreign_state q (handed_out q (log mem)) (calls_on q (log mem)) t"
  using assms by (cases po) (auto simp: new_client_def client_init_def Let_def log_defs K_foreign_def)

definition separate :: "system \<Rightarrow> bool" where
  "separate w \<longleftrightarrow> registry_wf (ssl w) \<and> (\<forall>i s. clients w i = Some s \<longrightarrow> \<not> use_tls s)
     \<and> (\<forall>i j q. i \<noteq> j \<longrightarrow> holds_pcb w i q \<longrightarrow> \<not> holds_pcb w j q)"

abbreviation untouched :: "pcb \<Rightarrow> system \<Rightarrow> conn \<Rightarrow> bool" where
  "untouched q w t \<equiv> foreign_state q (handed_out q (log w)) (calls_on q (log w)) t"

lemma separateD:
  "separate w \<Longrightarrow> clients w i = Some s \<Longrightarrow> \<not> holds_pcb w i q \<Longrightarrow> untouched q w (sharing w s)"
  by (auto simp: separate_def K_foreign_def holds_pcb_def)

text \<open>Assignment from a client without a connection closes the own one, and no more.\<close>

lemma foreign_assign:
  assumes C: "client_contract en False True (K_foreign q n V) cb" and "foreign_state q n V s" "c_pcb r = None"
    and "assign en cb r s = Inr t"
  shows "foreign_state q n V t"
proof -
  have "ok (foreign_state q n V) (if c_pcb s \<noteq> None then do_close en cb s else Inr s)"
    using client_contract.do_close_holds [OF C assms(2)] assms(2) by (cases "c_pcb s") auto
  with assms(3,4) show ?thesis
    by (auto simp: assign_def rbind_eq_Inr K_foreign_def Let_def)
qed

lemma step_foreign:
  assumes "sys_step False d en usr i w w'" "no_tls_sketch (usr i)" "separate w"
  shows "\<exists>t po. w' = put i t w \<and> fair w i t \<and> (\<forall>p j. po = Some p \<longrightarrow> j \<noteq> i \<longrightarrow> \<not> holds_pcb w j p)
    \<and> (\<forall>q. \<not> holds_pcb w i q \<longrightarrow> po \<noteq> Some q \<longrightarrow> untouched q w t)"
proof -
  note C = foreign_contract [OF assms(2), of en _ _ _ d]
  note s = separateD [OF assms(3)]
  from assms(1) show ?thesis
  proof (cases rule: sys_step.cases)
    case (running s t)
    then obtain p where p: "c_pcb s = Some p" by auto
    have "untouched q w t" if "\<not> holds_pcb w i q" for q
      using foreign_step [OF running(4) assms(2) s [OF running(2) that]] p running(2,5) that
      by (simp add: fair_def holds_pcb_def)
    with running show ?thesis by (intro exI [of _ t] exI [of _ None]) auto
  next
    case (connected s po err e t)
    have "untouched q w t" if "\<not> holds_pcb w i q" "po \<noteq> Some q" for q
      using foreign_result [OF foreign_connected [OF C s [OF connected(2) that(1)] that(2), of err]] connected(6)
      by (auto simp: s_connected_def)
    with connected show ?thesis by (intro exI [of _ t] exI [of _ po]) auto
  next
    case (failed s p err t)
    have "untouched q w t" if "\<not> holds_pcb w i q" "p \<noteq> q" for q
      using client_contract.do_error_holds [OF C failed_state [OF s [OF failed(2) that(1)] that(2)], of err err] failed(7)
      by (auto simp: s_error_def)
    with failed show ?thesis by (intro exI [of _ t] exI [of _ "Some p"]) auto
  next
    case (call s x t)
    have "\<not> tls_op x" using tls_op_sets call(4,5) by (auto simp: fair_def)
    then have "untouched q w t" if "\<not> holds_pcb w i q" for q
      using client_contract.user_call_holds [OF C s [OF call(2) that], where x = x] call(4) by simp
    with call show ?thesis by (intro exI [of _ t] exI [of _ None]) auto
  next
    case (dns s addr t)
    have "untouched q w t" if "\<not> holds_pcb w i q" for q
      using client_contract.dns_found_holds [OF C s [OF dns(2) that], where addr = addr] dns(4) by simp
    with dns show ?thesis by (intro exI [of _ t] exI [of _ None]) auto
  next
    case (create mode po mem t)
    have "untouched q w t" for q
      using foreign_new [OF create(3), of q] assms(3) by (simp add: separate_def)
    with create show ?thesis by (intro exI [of _ t] exI [of _ None]) auto
  next
    case (assign s j r t)
    have "untouched q w t" if "\<not> holds_pcb w i q" for q
      using foreign_assign [OF C s [OF assign(2) that] assign(7,8)] .
    with assign show ?thesis by (intro exI [of _ t] exI [of _ None]) auto
  next
    case (tracker s tr)
    let ?t = "(sharing w s)\<lparr>trk := tr\<rparr>"
    have "untouched q w ?t" if "\<not> holds_pcb w i q" for q
      using s [OF tracker(2) that] by (simp add: K_foreign_def)
    moreover have "fair w i ?t" using tracker(2) assms(3) by (simp add: fair_def separate_def)
    ultimately show ?thesis using tracker(1) by (intro exI [of _ ?t] exI [of _ None]) simp
  qed simp
qed

lemma ex_other: "\<exists>q :: nat. a \<noteq> Some q \<and> b \<noteq> Some q"
proof -
  have "finite (set_option a \<union> set_option b)" by simp
  from ex_new_if_finite [OF infinite_UNIV_nat this] show ?thesis by auto
qed

lemma held_untouched:
  assumes "separate w" "fair w i t" "holds_pcb w j q" "j \<noteq> i" "untouched q w t"
  shows "calls_on q (log t) = calls_on q (log w)" "c_pcb t \<noteq> Some q"
  using assms by (auto simp: fair_def K_foreign_def)

text \<open>The step keeps the clients separate and leaves the pcbs of the others alone.\<close>

lemma sys_step_separate:
  assumes "sys_step False d en usr i w w'" "no_tls_sketch (usr i)" "separate w"
  shows "separate w' \<and> (\<forall>j q. j \<noteq> i \<longrightarrow> holds_pcb w j q \<longrightarrow>
    holds_pcb w' j q \<and> calls_on q (log w') = calls_on q (log w))"
proof -
  obtain t po where t: "w' = put i t w" "fair w i t"
    "\<And>p j. po = Some p \<Longrightarrow> j \<noteq> i \<Longrightarrow> \<not> holds_pcb w j p"
    "\<And>q. \<not> holds_pcb w i q \<Longrightarrow> po \<noteq> Some q \<Longrightarrow> untouched q w t"
    using step_foreign [OF assms] by blast
  obtain q where "po \<noteq> Some q" "(case clients w i of None \<Rightarrow> None | Some s \<Rightarrow> c_pcb s) \<noteq> Some q"
    using ex_other by blast
  then have "registry_wf (ssl t)" using t(4) [of q] by (auto simp: holds_pcb_def split: option.splits)
  moreover have "calls_on q (log t) = calls_on q (log w) \<and> c_pcb t \<noteq> Some q"
    if "holds_pcb w j q" "j \<noteq> i" for j q
  proof -
    have "untouched q w t"
      by (rule t(4)) (use t(3) [of q j] assms(3) that in \<open>auto simp: separate_def\<close>)
    then show ?thesis using held_untouched [OF assms(3) t(2) that] by blast
  qed
  ultimately show ?thesis
    using t(1,2) assms(3) by (auto simp: separate_def fair_def)
qed

lemma separate_start: "\<forall>i. clients w i = None \<Longrightarrow> registry_wf (ssl w) \<Longrightarrow> separate w"
  by (simp add: separate_def holds_pcb_def)

lemma sys_reach_separate:
  assumes "sys_reach False d en usr w" "\<forall>i. no_tls_sketch (usr i)"
  shows "separate w"
  using assms(1)
proof (induction rule: sys_reach.induct)
  case (start w)
  from start(1,2) show ?case by (rule separate_start)
next
  case (step w i w')
  from sys_step_separate [OF step.hyps(2) spec [OF assms(2)] step.IH] show ?case by (rule conjunct1)
qed


definition no_clients :: system where
  "no_clients = \<lparr>log = [], ssl = [], clients = \<lambda>i. None\<rparr>"

lemma new_plain:
  "\<exists>t. new_client en cb mode (Some p) None mem = Inr t \<and> c_pcb t = Some p \<and> life t = Alive
    \<and> \<not> use_tls t \<and> \<not> discard_cb t \<and> rx_ack_len t = 0 \<and> ssl t = ssl mem
    \<and> log t = [A_poll_fn p True, A_err_fn p True, A_sent_fn p True, A_recv_fn p True, A_arg p True,
        A_setprio p, A_millis] @ log mem"
  by (simp add: new_client_def client_init_def Let_def log_defs)

lemma close_plain:
  assumes "c_pcb s = Some p" "life s = Alive" "\<not> use_tls s" "\<not> discard_cb s" "rx_ack_len s = 0"
  shows "\<exists>t. user_call quiet_env cb (Op_close True) s = Inr t \<and> \<not> use_tls t
    \<and> A_tcp_close p ERR_OK \<in> set (log t) \<and> (\<forall>q. handed_out q (log t) = handed_out q (log s))"
  using assms
  by (simp add: user_call_def close_def do_close_def drop_tls_def clearTcpCallbacks_def invoke_if_def
      set_close_error_def log_defs quiet_env_def handed_out_def)

lemma two_clients:
  "\<exists>w w'. sys_reach False 1 quiet_env (\<lambda>i ev h. []) w \<and> sys_step False 1 quiet_env (\<lambda>i ev h. []) 0 w w'
    \<and> A_tcp_close 1 ERR_OK \<in> set (log w') \<and> holds_pcb w 0 1 \<and> holds_pcb w 1 2"
proof -
  let ?usr = "\<lambda>i ev h. []" and ?cb = "run_cb 1 quiet_env (\<lambda>ev h. [])"
  obtain t0 where t0: "new_client quiet_env ?cb 0 (Some 1) None (sharing no_clients mem0) = Inr t0"
    "c_pcb t0 = Some 1" "life t0 = Alive" "\<not> use_tls t0" "\<not> discard_cb t0" "rx_ack_len t0 = 0"
    using new_plain by blast
  let ?w1 = "put 0 t0 no_clients"
  obtain t1 where t1: "new_client quiet_env ?cb 0 (Some 2) None (sharing ?w1 mem0) = Inr t1"
    "c_pcb t1 = Some 2" "\<not> use_tls t1" "handed_out 1 (log t1) = handed_out 1 (log ?w1)"
    using new_plain [of quiet_env ?cb 0 2 "sharing ?w1 mem0"] by auto
  let ?w2 = "put 1 t1 ?w1"
  obtain t2 where t2: "user_call quiet_env ?cb (Op_close True) (sharing ?w2 t0) = Inr t2" "\<not> use_tls t2"
    "A_tcp_close 1 ERR_OK \<in> set (log t2)" "\<forall>q. handed_out q (log t2) = handed_out q (log ?w2)"
    using close_plain [of "sharing ?w2 t0" 1 ?cb] t0 by (auto simp: sharing_def)
  have "sys_reach False 1 quiet_env ?usr no_clients"
    by (rule sys_reach.start) (simp_all add: no_clients_def registry_wf_def)
  moreover have "sys_step False 1 quiet_env ?usr 0 no_clients ?w1"
    by (rule sys_step.create [OF _ t0(1)]) (simp_all add: t0 fair_def no_clients_def holds_pcb_def)
  moreover have "sys_step False 1 quiet_env ?usr 1 ?w1 ?w2"
    by (rule sys_step.create [OF _ t1(1)]) (use t0 t1 in \<open>auto simp: fair_def no_clients_def holds_pcb_def\<close>)
  ultimately have reach: "sys_reach False 1 quiet_env ?usr ?w2" by (blast intro: sys_reach.step)
  have step: "sys_step False 1 quiet_env ?usr 0 ?w2 (put 0 t2 ?w2)"
    by (rule sys_step.call [OF _ t0(3) t2(1)]) (use t2 in \<open>simp_all add: fair_def\<close>)
  have "holds_pcb ?w2 0 1" "holds_pcb ?w2 1 2" "A_tcp_close 1 ERR_OK \<in> set (log (put 0 t2 ?w2))"
    using t0(2) t1(2) t2(3) by simp_all
  with reach step show ?thesis by blast
qed


text \<open>
  The assignments left out are those that break it: \<open>b = a\<close> for a client \<open>a\<close> with a
  connection makes both hold its pcb.
\<close>

lemma copying_shares_connection:
  "\<exists>w. sys_reach True 1 quiet_env (\<lambda>i ev h. []) w \<and> holds_pcb w 0 1 \<and> holds_pcb w 1 1"
proof -
  let ?usr = "\<lambda>i ev h. []" and ?cb = "run_cb 1 quiet_env (\<lambda>ev h. [])"
  obtain t0 where t0: "new_client quiet_env ?cb 0 (Some 1) None (sharing no_clients mem0) = Inr t0"
    "c_pcb t0 = Some 1" "life t0 = Alive" "\<not> use_tls t0" "ssl t0 = []"
    using new_plain [of quiet_env ?cb 0 1 "sharing no_clients mem0"] by (auto simp: no_clients_def)
  let ?w1 = "put 0 t0 no_clients"
  obtain t1 where t1: "new_client quiet_env ?cb 0 None None (sharing ?w1 mem0) = Inr t1"
    "c_pcb t1 = None" "life t1 = Alive" "\<not> use_tls t1" "ssl t1 = []" "handed_out 1 (log t1) = handed_out 1 (log t0)"
    by (simp add: new_client_def client_init_def Let_def log_defs t0(5))
  let ?w2 = "put 1 t1 ?w1"
  obtain t2 where t2: "assign quiet_env ?cb t0 (sharing ?w2 t1) = Inr t2" "c_pcb t2 = Some 1" "\<not> use_tls t2"
    using t0 t1 by (simp add: assign_def Let_def millis_def log_defs tcp_ssl_has_def)
  have "sys_reach True 1 quiet_env ?usr no_clients"
    by (rule sys_reach.start) (simp_all add: no_clients_def registry_wf_def)
  moreover have "sys_step True 1 quiet_env ?usr 0 no_clients ?w1"
    by (rule sys_step.create [OF _ t0(1)]) (simp_all add: t0 fair_def no_clients_def holds_pcb_def)
  moreover have "sys_step True 1 quiet_env ?usr 1 ?w1 ?w2"
    by (rule sys_step.create [OF _ t1(1)]) (use t0 t1 in \<open>auto simp: fair_def no_clients_def holds_pcb_def\<close>)
  moreover have "sys_step True 1 quiet_env ?usr 1 ?w2 (put 1 t2 ?w2)"
    by (rule sys_step.copy [OF _ _ t1(3) _ _ t0(3,2) t2(1,3), where j = 0]) simp_all
  ultimately have "sys_reach True 1 quiet_env ?usr (put 1 t2 ?w2)" by (blast intro: sys_reach.step)
  moreover have "holds_pcb (put 1 t2 ?w2) 0 1" "holds_pcb (put 1 t2 ?w2) 1 1" using t0(2) t2(2) by simp_all
  ultimately show ?thesis by blast
qed

section \<open>No use of released pcbs\<close>

text \<open>
  The invariant of ClientSafety for one client, for all of them: the history is clean and
  every pcb a client holds is one that was not released.
\<close>

definition system_clean :: "system \<Rightarrow> bool" where
  "system_clean w \<longleftrightarrow> clean (log w) \<and> (\<forall>i q. holds_pcb w i q \<longrightarrow> \<not> released q (log w))"

lemma sharing_clean:
  "separate w \<Longrightarrow> system_clean w \<Longrightarrow> clients w i = Some s \<Longrightarrow> clean_state (sharing w s)"
  by (auto simp: separate_def system_clean_def K_clean_def holds_pcb_def)

lemma plain_no_tls: "plain_sketch usr \<Longrightarrow> no_tls_sketch usr"
  by (auto simp: plain_sketch_def no_tls_sketch_def dest: allowed_op_plain)

lemma created_clean:
  assumes "new_client en cb mode po None mem = Inr t" "registry_wf (ssl mem)" "clean (log mem)"
  shows "clean_state t"
  using assms by (cases po) (auto simp: new_client_def client_init_def Let_def log_defs K_clean_def)

lemma assigned_clean:
  assumes "plain_sketch usr" "clean_state s" "c_pcb r = None"
    and "assign en (run_cb d en usr) r s = Inr t"
  shows "clean_state t"
proof -
  have "ok clean_state (if c_pcb s \<noteq> None then do_close en (run_cb d en usr) s else Inr s)"
    using no_tls.do_close_holds [OF assms(2), of en d usr] plain_part_id [OF assms(1)] assms(2) by (cases "c_pcb s") auto
  with assms(3,4) show ?thesis
    by (auto simp: assign_def rbind_eq_Inr K_clean_def Let_def)
qed

lemma own_step_clean:
  assumes "sys_step False d en usr i w w'" "plain_sketch (usr i)" "separate w" "system_clean w"
  shows "\<exists>t. w' = put i t w \<and> clean_state t"
proof -
  have s: "clean_state (sharing w s)" if "clients w i = Some s" for s
    using sharing_clean [OF assms(3,4) that] .
  have cstep: "clean_state t" if "client_step d en (usr i) (sharing w s) t" "clients w i = Some s" "fair w i t" for s t
    using client_step_clean [OF that(1) assms(2) s [OF that(2)]] that(3) by (simp add: fair_def)
  from assms(1) show ?thesis
  proof (cases rule: sys_step.cases)
    case (running s t)
    with cstep show ?thesis by blast
  next
    case (connected s po err e t)
    have "client_step d en (usr i) (sharing w s) t"
      by (rule client_step.connected [OF _ _ _ connected(6)]) (use connected in auto)
    with cstep connected show ?thesis by blast
  next
    case (failed s p err t)
    have "client_step d en (usr i) (sharing w s) t"
      by (rule client_step.failed [OF _ _ _ failed(7)]) (use failed in auto)
    with cstep failed show ?thesis by blast
  next
    case (call s x t)
    have "client_step d en (usr i) (sharing w s) t"
      by (rule client_step.user [OF _ call(4)]) (use call in auto)
    with cstep call show ?thesis by blast
  next
    case (dns s addr t)
    have "client_step d en (usr i) (sharing w s) t"
      by (rule client_step.dns [OF _ dns(4)]) (use dns in auto)
    with cstep dns show ?thesis by blast
  next
    case (create mode po mem t)
    with created_clean [OF create(3)] assms(3,4) show ?thesis
      by (auto simp: separate_def system_clean_def)
  next
    case (assign s' j r t)
    with assigned_clean [OF assms(2) s [OF assign(2)] assign(7,8)] show ?thesis by blast
  next
    case (tracker s' tr)
    with s [OF tracker(2)] show ?thesis by (auto simp: K_clean_def)
  qed simp
qed

lemma sys_step_clean:
  assumes "sys_step False d en usr i w w'" "plain_sketch (usr i)" "separate w" "system_clean w"
  shows "system_clean w'"
proof -
  obtain t where t: "w' = put i t w" "clean_state t" using own_step_clean [OF assms] by blast
  have "\<not> released q (log w')" if "holds_pcb w j q" "j \<noteq> i" for j q
    using sys_step_separate [OF assms(1) plain_no_tls [OF assms(2)] assms(3)] that assms(4)
    by (metis released_calls_on system_clean_def)
  with t show ?thesis by (auto simp: system_clean_def K_clean_def)
qed

text \<open>
  C16: no use after release, for any number of plain clients whose handlers for received
  data write, acknowledge and set options but do not close, abort, delete or reconnect the
  client.  The clients take steps in any interleaving, as for C15: none uses TLS, no
  assignment copies a client that has a connection, and lwIP hands out no pcb that another
  client still holds.  Then, from an empty history on, no client makes a lwIP call on a pcb
  that it or another client closed or aborted, or that lwIP freed, and a pcb that a client
  holds is not released.
\<close>

theorem no_client_uses_released:
  assumes "sys_reach False d en usr w" "\<forall>i. plain_sketch (usr i)"
  shows "clean (log w) \<and> (\<forall>i q. holds_pcb w i q \<longrightarrow> \<not> released q (log w))"
proof -
  from assms(1) have "system_clean w"
  proof (induction rule: sys_reach.induct)
    case (start w)
    then show ?case by (simp add: system_clean_def holds_pcb_def)
  next
    case (step w i w')
    have "separate w"
      by (rule sys_reach_separate [OF step.hyps(1)]) (use assms(2) plain_no_tls in blast)
    from sys_step_clean [OF step.hyps(2) spec [OF assms(2)] this step.IH] show ?case .
  qed
  then show ?thesis by (simp add: system_clean_def)
qed

theorem no_client_uses_released_witness:
  "\<exists>w. A_tcp_close 1 ERR_OK \<in> set (log (w :: system)) \<and> clean (log w) \<and> holds_pcb w 1 2"
proof -
  obtain w w' where w: "sys_reach False 1 quiet_env (\<lambda>i ev h. []) w" "sys_step False 1 quiet_env (\<lambda>i ev h. []) 0 w w'"
    "A_tcp_close 1 ERR_OK \<in> set (log w')" "holds_pcb w 1 2"
    using two_clients by blast
  have "holds_pcb w' 1 2" using w(2,4) by (cases rule: sys_step.cases) auto
  moreover have "\<forall>i :: nat. plain_sketch (\<lambda>ev h. [])" by (simp add: plain_sketch_def)
  ultimately show ?thesis
    using no_client_uses_released [OF sys_reach.step [OF w(1,2)]] w(3) by blast
qed

end
