(* ===== verification/ClientConnect.thy ===== *)
theory ClientConnect
  imports ClientSystem
begin

text \<open>
  Making a connection, from \<open>connect(host, port)\<close> over the answer of the name server to
  the \<open>connected\<close> callback, with what the sketch does in between; and what the code
  does not handle: until that callback comes only lwIP knows the pcb.
\<close>

section \<open>The calls of \<open>connect\<close>\<close>

text \<open>What \<open>connect\<close> does with the pcb it gets, newest first.\<close>

definition connect_calls :: "pcb \<Rightarrow> ip \<Rightarrow> u16 \<Rightarrow> hist" where
  "connect_calls p addr port = [A_tcp_connect p addr port, A_err_fn p True, A_arg p True, A_setprio p]"

text \<open>What \<open>_connected\<close> does with it, after it looked at the clock.\<close>

definition connected_calls :: "pcb \<Rightarrow> hist" where
  "connected_calls p = [A_poll_fn p True, A_sent_fn p True, A_recv_fn p True, A_setprio p]"

lemma connect_ip_idle:
  assumes "c_pcb s = None"
  shows "connect_ip en addr port tls s = (case e_new en (log s) of
     None \<Rightarrow> (False, s\<lparr>log := A_tcp_new # log s, use_tls := tls\<rparr>)
   | Some p \<Rightarrow> (e_connect en (tl (connect_calls p addr port) @ A_tcp_new # log s) = ERR_OK,
       s\<lparr>log := connect_calls p addr port @ A_tcp_new # log s, use_tls := tls, handshake_done := False\<rparr>))"
  using assms by (auto simp: connect_ip_def connected_def connect_calls_def Let_def log_defs split: option.split)

lemma calls_on_append: "calls_on p (g @ h) = calls_on p g @ calls_on p h"
  by (simp add: calls_on_def)

lemma connect_calls_on [simp]:
  "calls_on p (connect_calls p addr port) = connect_calls p addr port"
  "calls_on p (connected_calls p) = connected_calls p"
  by (simp_all add: connect_calls_def connected_calls_def calls_on_def concerns_def)

text \<open>Which slots of a pcb are set depends on the calls on it.\<close>

lemma slot_on_calls_on: "slot_on k p h = slot_on k p (calls_on p h)"
proof (induction h)
  case (Cons a h)
  then show ?case by (cases a; cases k; auto simp: slot_set_def)
qed (simp add: calls_on_def)

section \<open>While the connection is pending\<close>

text \<open>
  The client has no pcb, and unless lwIP hands out \<open>p\<close> once more the calls on \<open>p\<close> are \<open>V\<close>.
\<close>

definition pending_conn :: "pcb \<Rightarrow> nat \<Rightarrow> hist \<Rightarrow> conn \<Rightarrow> bool" where
  "pending_conn p n V s \<longleftrightarrow> c_pcb s = None
     \<and> (n < handed_out p (log s) \<or> n = handed_out p (log s) \<and> calls_on p (log s) = V)"

lemma pending_connI: "c_pcb s = None \<Longrightarrow> pending_conn p (handed_out p (log s)) (calls_on p (log s)) s"
  by (simp add: pending_conn_def)

lemma pending_same:
  "pending_conn p n V s \<Longrightarrow> c_pcb t = None \<Longrightarrow> log t = log s \<Longrightarrow> pending_conn p n V t"
  by (simp add: pending_conn_def)

lemma pending_emit:
  "pending_conn p n V s \<Longrightarrow> \<not> concerns p a \<Longrightarrow> pending_conn p n V (emit a s)"
  by (auto simp: pending_conn_def concerns_def log_defs)

lemma pending_connect_ip:
  "pending_conn p n V s \<Longrightarrow> pending_conn p n V (snd (connect_ip en addr port tls s))"
  by (auto simp: pending_conn_def connect_ip_idle connect_calls_def calls_on_append split: option.split)

lemma pending_connect_host:
  assumes "pending_conn p n V s"
  shows "pending_conn p n V (snd (connect_host en host port tls s))"
proof -
  let ?s = "emit (A_gethostbyname host)
    (s\<lparr>handshake_done := False, c_host := host, connect_port := port, use_tls := tls\<rparr>)"
  have "pending_conn p n V ?s"
    using assms by (simp add: pending_conn_def log_defs)
  from this pending_connect_ip [OF this] show ?thesis
    by (simp add: connect_host_def Let_def log_defs split: prod.split)
qed

text \<open>
  Without a pcb the client makes no call on any pcb and runs no handler, whichever of its
  methods is called.
\<close>

lemma pending_call:
  assumes "pending_conn p n V s"
  shows "ok (pending_conn p n V) (user_call en cb x s)"
proof -
  have c: "c_pcb s = None" using assms by (simp add: pending_conn_def)
  note same = pending_same [OF assms]
  show ?thesis
  proof (cases x)
    case (Op_connect a q t)
    with pending_connect_ip [OF assms] show ?thesis by (simp add: user_call_def)
  next
    case (Op_connect_host h q t)
    with pending_connect_host [OF assms] show ?thesis by (simp add: user_call_def)
  next
    case (Op_on h b)
    with same [of "set_handler h b s"] c show ?thesis by (cases h) (auto simp: user_call_def)
  next
    case Op_delete
    with assms c show ?thesis
      by (simp add: user_call_def delete_client_def do_close_def pending_conn_def log_defs)
  qed (use assms c in \<open>auto simp: user_call_def close_def do_close_def abort_def add_def send_def
    client_write_def write_cstr_def touch_def ack_def ackLater_def ackPacket_def setNoDelay_def
    setRxTimeout_def setAckTimeout_def setInsecure_def setKnownKey_def allowSelfSignedCerts_def
    clearAuthenticationSettings_def setFingerprint_def pending_conn_def Let_def log_defs
    split: option.split\<close>)
qed

lemma pending_script: "pending_conn p n V s \<Longrightarrow> ok (pending_conn p n V) (run_script en cb xs s)"
proof (induction xs arbitrary: s)
  case (Cons x xs)
  from ok_rbind [OF pending_call [OF Cons.prems] Cons.IH] show ?case by simp
qed simp

lemma pending_after:
  assumes "c_pcb s = None" "run_script en cb xs s = Inr t" "handed_out p (log t) = handed_out p (log s)"
  shows "c_pcb t = None" "calls_on p (log t) = calls_on p (log s)"
  using pending_script [OF pending_connI [OF assms(1)], of p en cb xs] assms(2,3)
  by (simp_all add: pending_conn_def)


text \<open>
  C39: a connection attempt cannot be stopped.  From the moment \<open>connect\<close> has called
  \<open>tcp_connect\<close>, with or without success, no sequence of calls of the client's methods,
  \<open>close(true)\<close>, \<open>abort\<close> and \<open>delete\<close> among them, makes any call on the new pcb (unless
  lwIP hands it out again): it is not given back, not when \<open>tcp_connect\<close> failed either, and
  its argument and its error callback still point to the client, also after the client was
  deleted.  Meanwhile the client says that it is not connecting.
\<close>

theorem pending_connect_out_of_reach:
  assumes "c_pcb s = None" "e_new en (log s) = Some p" "connect_ip en addr port tls s = (r, s1)"
    and "run_script en cb xs s1 = Inr s2" "handed_out p (log s2) = handed_out p (log s1)"
  shows "calls_on p (log s2) = connect_calls p addr port @ calls_on p (log s)
    \<and> slot_on Slot_arg p (log s2) \<and> slot_on Slot_err p (log s2) \<and> \<not> released p (log s2)
    \<and> c_pcb s2 = None \<and> \<not> connecting en s2"
proof -
  have s1: "c_pcb s1 = None" "calls_on p (log s1) = connect_calls p addr port @ calls_on p (log s)"
    using assms(1-3) by (auto simp: connect_ip_idle calls_on_append)
  note s2 = pending_after [OF s1(1) assms(4,5)]
  have "slot_on k p (connect_calls p addr port @ h) = (k = Slot_arg \<or> k = Slot_err \<or> slot_on k p h)"
    "\<not> released p (connect_calls p addr port @ h)" for k h
    by (cases k; simp add: connect_calls_def slot_set_def)+
  with s1 s2 show ?thesis
    by (simp add: slot_on_calls_on [of _ p "log s2"] released_calls_on [of p "log s2"] connecting_def)
qed

theorem pending_connect_out_of_reach_witness:
  "\<exists>s1 s2. connect_ip quiet_env 5 80 False mem0 = (True, s1)
     \<and> run_script quiet_env (\<lambda>ev s. Inr s) [Op_close True, Op_abort, Op_delete] s1 = Inr s2
     \<and> life s2 = Dead \<and> slot_on Slot_err 7 (log s2) \<and> \<not> released 7 (log s2)"
proof -
  have "\<exists>s1 s2. connect_ip quiet_env 5 80 False mem0 = (True, s1)
     \<and> run_script quiet_env (\<lambda>ev s. Inr s) [Op_close True, Op_abort, Op_delete] s1 = Inr s2
     \<and> life s2 = Dead \<and> handed_out 7 (log s2) = handed_out 7 (log s1)"
    by (simp add: connect_ip_idle user_call_def close_def do_close_def abort_def delete_client_def
        log_defs mem0_def quiet_env_def)
  then obtain s1 s2 where s: "connect_ip quiet_env 5 80 False mem0 = (True, s1)"
    "run_script quiet_env (\<lambda>ev s. Inr s) [Op_close True, Op_abort, Op_delete] s1 = Inr s2"
    "life s2 = Dead" "handed_out 7 (log s2) = handed_out 7 (log s1)" by blast
  have "c_pcb mem0 = None" "e_new quiet_env (log mem0) = Some 7" by (simp_all add: mem0_def quiet_env_def)
  from pending_connect_out_of_reach [OF this s(1,2,4)] s show ?thesis by blast
qed

section \<open>A connection to a host\<close>

text \<open>
  What the sketch may do while it waits for the name or the connection: call any method,
  \<open>close\<close>, \<open>abort\<close>, the setters and those that send among them, but not make another
  attempt and not delete the client.  These calls return, and they neither change what the
  attempt needs (the member for the port, TLS off) nor touch any pcb.
\<close>

fun waiting_op :: "api_op \<Rightarrow> bool" where
  "waiting_op (Op_connect _ _ _) = False"
| "waiting_op (Op_connect_host _ _ _) = False"
| "waiting_op Op_delete = False"
| "waiting_op _ = True"

definition awaiting :: "u16 \<Rightarrow> (pcb \<Rightarrow> hist) \<Rightarrow> conn \<Rightarrow> bool" where
  "awaiting port V s \<longleftrightarrow> life s = Alive \<and> c_pcb s = None \<and> \<not> use_tls s \<and> connect_port s = port
     \<and> (\<forall>q. calls_on q (log s) = V q)"

lemma waiting_call:
  assumes "waiting_op x" "awaiting port V s"
  shows "\<exists>t. user_call en cb x s = Inr t \<and> awaiting port V t"
proof (cases x)
  case (Op_on h b)
  with assms(2) show ?thesis by (cases h) (simp_all add: user_call_def awaiting_def)
qed (use assms in \<open>auto simp: awaiting_def user_call_def close_def do_close_def abort_def add_def send_def
    client_write_def write_cstr_def ack_def ackLater_def ackPacket_def setNoDelay_def
    setRxTimeout_def setAckTimeout_def setInsecure_def setKnownKey_def allowSelfSignedCerts_def
    clearAuthenticationSettings_def setFingerprint_def Let_def log_defs
    split: option.split\<close>)

lemma waiting_script:
  "\<forall>x\<in>set xs. waiting_op x \<Longrightarrow> awaiting port V s \<Longrightarrow> \<exists>t. run_script en cb xs s = Inr t \<and> awaiting port V t"
proof (induction xs arbitrary: s)
  case (Cons x xs)
  then obtain t where "user_call en cb x s = Inr t" "awaiting port V t"
    using waiting_call [of x port V s en cb] by auto
  with Cons show ?case by simp
qed simp

lemma waiting_scriptD:
  "run_script en cb xs s = Inr t \<Longrightarrow> \<forall>x\<in>set xs. waiting_op x \<Longrightarrow> awaiting port V s \<Longrightarrow> awaiting port V t"
  using waiting_script [of xs port V s en cb] by auto

text \<open>
  \<open>connect_host\<close> is called in \<open>s\<close> and the name is resolved to \<open>addr\<close>, at once, or by the
  callback that follows the \<open>ERR_INPROGRESS\<close> after the sketch made the calls \<open>xs\<close>; lwIP
  hands out \<open>p\<close> for the attempt, and \<open>s2\<close> is the state when \<open>tcp_connect\<close> was called.
\<close>

definition resolved ::
  "env \<Rightarrow> user \<Rightarrow> string \<Rightarrow> u16 \<Rightarrow> conn \<Rightarrow> api_op list \<Rightarrow> ip \<Rightarrow> pcb \<Rightarrow> conn \<Rightarrow> bool" where
  "resolved en cb host port s xs addr p s2 \<longleftrightarrow> (\<exists>s1. connect_host en host port False s = (True, s1)
     \<and> (e_dns en (log s) = (ERR_OK, addr) \<and> e_new en (A_gethostbyname host # log s) = Some p \<and> s2 = s1
      \<or> fst (e_dns en (log s)) = ERR_INPROGRESS \<and> (\<exists>t. run_script en cb xs s1 = Inr t
          \<and> e_new en (log t) = Some p \<and> dns_found en cb (Some addr) t = Inr s2)))"

lemma connect_ip_awaiting:
  assumes "awaiting port V s" "e_new en (log s) = Some p"
  shows "awaiting port (V(p := connect_calls p addr port @ V p)) (snd (connect_ip en addr port False s))"
  using assms by (auto simp: awaiting_def connect_ip_idle connect_calls_def)

lemma resolved_awaiting:
  assumes "life s = Alive" "c_pcb s = None" "\<forall>x\<in>set xs. waiting_op x"
    and "resolved en cb host port s xs addr p s2"
  shows "awaiting port ((\<lambda>q. calls_on q (log s))(p := connect_calls p addr port @ calls_on p (log s))) s2"
proof -
  let ?V = "\<lambda>q. calls_on q (log s)"
  let ?s0 = "emit (A_gethostbyname host)
    (s\<lparr>handshake_done := False, c_host := host, connect_port := port, use_tls := False\<rparr>)"
  have s0: "awaiting port ?V ?s0" "log ?s0 = A_gethostbyname host # log s"
    using assms(1,2) by (simp_all add: awaiting_def log_defs)
  obtain s1 where s1: "connect_host en host port False s = (True, s1)"
    "e_dns en (log s) = (ERR_OK, addr) \<and> e_new en (A_gethostbyname host # log s) = Some p \<and> s2 = s1
      \<or> fst (e_dns en (log s)) = ERR_INPROGRESS \<and> (\<exists>t. run_script en cb xs s1 = Inr t
          \<and> e_new en (log t) = Some p \<and> dns_found en cb (Some addr) t = Inr s2)"
    using assms(4) by (auto simp: resolved_def)
  from s1(2) show ?thesis
  proof (elim disjE conjE exE)
    assume "e_dns en (log s) = (ERR_OK, addr)" "e_new en (A_gethostbyname host # log s) = Some p" "s2 = s1"
    with s1(1) connect_ip_awaiting [OF s0(1), of en p addr] s0(2) show ?thesis
      by (simp add: connect_host_def Let_def log_defs)
  next
    fix t
    assume later: "fst (e_dns en (log s)) = ERR_INPROGRESS" and t: "run_script en cb xs s1 = Inr t"
      "e_new en (log t) = Some p" "dns_found en cb (Some addr) t = Inr s2"
    have "s1 = ?s0" using s1(1) later by (auto simp: connect_host_def Let_def log_defs split: prod.splits)
    with waiting_scriptD [OF t(1) assms(3)] s0(1) have "awaiting port ?V t" by simp
    from connect_ip_awaiting [OF this t(2), of addr] this t(3) show ?thesis
      by (simp add: dns_found_def awaiting_def)
  qed
qed

text \<open>
  C8: connecting works.  \<open>connect(host, port)\<close>, without TLS, is called on a client that
  exists and has no connection, the name is resolved at once or later, and lwIP reports the
  connection with the pcb it handed out for it.  Before the answer of the name server and
  before the report the sketch may call any methods of the client, \<open>close\<close> and \<open>abort\<close>
  among them, except \<open>connect\<close> and \<open>delete\<close>.  Then the client still exists, and the
  \<open>connected\<close> callback runs \<open>onConnect\<close>, if it is set by then, exactly once, in a state in
  which the client counts as connected to the address found, at the port asked for, has the
  pcb, and all five callback slots of the pcb are set; and these are all the calls that were
  made on it.
\<close>

theorem host_connection_established:
  assumes "life s = Alive" "c_pcb s = None"
    and "\<forall>x\<in>set xs. waiting_op x" "resolved en cb host port s xs addr p s2"
    and "\<forall>x\<in>set ys. waiting_op x" "run_script en cb ys s2 = Inr s3"
    and "e_state en (connected_calls p @ A_millis # log s3) p = ESTABLISHED"
  shows "\<exists>t. s_connected en cb (Some p) ERR_OK s3
       = rbind (invoke_if (connect_cb s3) cb CB_connect t) (\<lambda>u. Inr (callback_result u))
     \<and> life s3 = Alive \<and> life t = Alive
     \<and> connected en t \<and> c_pcb t = Some p \<and> (\<forall>k. slot_on k p (log t)) \<and> \<not> released p (log t)
     \<and> calls_on p (log t) = connected_calls p @ connect_calls p addr port @ calls_on p (log s)"
proof -
  have s3: "life s3 = Alive" "c_pcb s3 = None" "\<not> use_tls s3"
    "calls_on p (log s3) = connect_calls p addr port @ calls_on p (log s)"
    using waiting_scriptD [OF assms(6,5) resolved_awaiting [OF assms(1-4)]] by (simp_all add: awaiting_def)
  define t where "t = s3\<lparr>c_pcb := Some p, pcb_busy := False, rx_last_packet := e_millis en (log s3),
    log := connected_calls p @ A_millis # log s3\<rparr>"
  have "s_connected en cb (Some p) ERR_OK s3
       = rbind (invoke_if (connect_cb s3) cb CB_connect t) (\<lambda>u. Inr (callback_result u))"
    using assms(7) s3
    by (simp add: s_connected_def client_connected_def connected_def Let_def log_defs t_def connected_calls_def)
  moreover have calls: "calls_on p (log t) = connected_calls p @ connect_calls p addr port @ calls_on p (log s)"
    using s3(4) by (simp add: t_def calls_on_append)
  moreover have "slot_on k p (log t)" for k
    by (subst slot_on_calls_on, subst calls, cases k)
      (simp_all add: connected_calls_def connect_calls_def slot_set_def)
  moreover have "connected en t" "c_pcb t = Some p" "\<not> released p (log t)" "life t = Alive"
    using assms(7) s3 by (simp_all add: t_def connected_def connected_calls_def)
  ultimately show ?thesis using s3(1) by blast
qed

definition slow_dns_env :: env where
  "slow_dns_env = quiet_env\<lparr>e_dns := (\<lambda>h. (ERR_INPROGRESS, 0))\<rparr>"

theorem host_connection_established_witness:
  "\<exists>s3 t. s_connected slow_dns_env (\<lambda>ev s. Inr s) (Some 7) ERR_OK s3
       = rbind (invoke (\<lambda>ev s. Inr s) CB_connect t) (\<lambda>u. Inr (callback_result u))
     \<and> connected slow_dns_env t \<and> (\<forall>k. slot_on k 7 (log t))
     \<and> calls_on 7 (log t) = connected_calls 7 @ connect_calls 7 5 80"
proof -
  let ?cb = "\<lambda>ev s. Inr s :: conn res" and ?en = slow_dns_env
  let ?xs = "[Op_on H_connect True, Op_abort]" and ?ys = "[Op_setNoDelay True, Op_close False]"
  have "\<exists>s2 s3. resolved ?en ?cb ''host'' 80 mem0 ?xs 5 7 s2
     \<and> run_script ?en ?cb ?ys s2 = Inr s3 \<and> connect_cb s3"
    by (simp add: connect_host_def resolved_def dns_found_def connect_ip_idle user_call_def abort_def
        setNoDelay_def close_def log_defs mem0_def slow_dns_env_def quiet_env_def)
  then obtain s2 s3 where s: "resolved ?en ?cb ''host'' 80 mem0 ?xs 5 7 s2"
    "run_script ?en ?cb ?ys s2 = Inr s3" "connect_cb s3" by blast
  have "life mem0 = Alive" "c_pcb mem0 = None" "\<forall>x\<in>set ?xs. waiting_op x" "\<forall>x\<in>set ?ys. waiting_op x"
    "calls_on 7 (log mem0) = []" "e_state ?en h 7 = ESTABLISHED" for h
    by (simp_all add: mem0_def slow_dns_env_def quiet_env_def calls_on_def)
  from host_connection_established [OF this(1-3) s(1) this(4) s(2) this(6)] s(3) this(5) show ?thesis
    by (simp add: invoke_if_def) blast
qed

text \<open>
  When the name is resolved later, the failure of the attempt that follows is reported
  nowhere: \<open>connect(host, port)\<close> has returned \<open>true\<close>, \<open>_dns_found\<close> ignores the result of
  the second \<open>connect\<close>, and no handler runs.
\<close>

lemma failed_attempt_after_lookup_unreported:
  assumes "life s = Alive" "c_pcb s = None" "\<not> fst (connect_ip en addr (connect_port s) (use_tls s) s)"
  shows "\<exists>t. dns_found en cb (Some addr) s = Inr t \<and> cbs (log t) = cbs (log s) \<and> c_pcb t = None"
  using assms by (auto simp: dns_found_def connect_ip_idle connect_calls_def split: option.split)

section \<open>Overlapping attempts\<close>

text \<open>
  Two lookups at the same time share the members for port and TLS: the answer to the first
  one connects the address of the first host to the port of the second, with the TLS
  setting and, for the check of the certificate, the name of the second.
\<close>

lemma second_lookup_redirects_first:
  assumes "life s = Alive" "c_pcb s = None" "connect_host en host1 port1 b1 s = (True, s1)"
    and "connect_host en host2 port2 b2 s1 = (True, s2)"
    and "fst (e_dns en (log s)) = ERR_INPROGRESS" "fst (e_dns en (log s1)) = ERR_INPROGRESS"
    and "e_new en (log s2) = Some p"
  shows "\<exists>s3. dns_found en cb (Some addr1) s2 = Inr s3 \<and> hd (log s3) = A_tcp_connect p addr1 port2
    \<and> use_tls s3 = b2 \<and> c_host s3 = host2"
proof -
  have s1: "c_pcb s1 = None" "life s1 = Alive" using assms(1-3,5) by (auto simp: connect_host_def Let_def log_defs split: prod.splits)
  then have "c_pcb s2 = None \<and> life s2 = Alive \<and> connect_port s2 = port2 \<and> use_tls s2 = b2 \<and> c_host s2 = host2"
    using assms(4,6) by (auto simp: connect_host_def Let_def log_defs split: prod.splits)
  with assms(7) show ?thesis by (simp add: dns_found_def connect_ip_idle connect_calls_def)
qed

text \<open>
  An attempt that succeeds while the client has a pcb \<open>q\<close>, of an earlier attempt or of a
  connection its peer is closing: \<open>_connected\<close> overwrites the member and makes no call on
  \<open>q\<close>, whose callbacks stay registered.  When the peer of \<open>q\<close> then ends that connection,
  \<open>_recv\<close> closes the new one instead, and \<open>q\<close> is never given back.
\<close>

lemma overlapping_connections:
  assumes "c_pcb s = Some q" "q \<noteq> p" "life s = Alive" "\<not> use_tls s" "\<not> connect_cb s" "\<not> discard_cb s"
  shows "\<exists>t u e. client_connected en cb (Some p) ERR_OK s = Inr t \<and> c_pcb t = Some p
    \<and> client_recv en cb (Some q) [] ERR_OK t = Inr u \<and> c_pcb u = None
    \<and> A_tcp_close p e \<in> set (log u) \<and> calls_on q (log u) = calls_on q (log s)"
proof -
  define t where "t = s\<lparr>c_pcb := Some p, pcb_busy := False, rx_last_packet := e_millis en (log s),
    log := connected_calls p @ A_millis # log s\<rparr>"
  have "client_connected en cb (Some p) ERR_OK s = Inr t"
    using assms by (simp add: client_connected_def Let_def log_defs t_def connected_calls_def invoke_if_def)
  moreover have t: "c_pcb t = Some p" "life t = Alive" "\<not> use_tls t" "\<not> discard_cb t"
    "calls_on q (log t) = calls_on q (log s)"
    using assms by (simp_all add: t_def connected_calls_def)
  define u where "u = closed_state en p t"
  have "client_recv en cb (Some q) [] ERR_OK t = Inr u" "c_pcb u = None"
    using do_close_closed_state [OF t(1)] closed_state(1) [OF t(1)] t(2,4)
    by (simp_all add: client_recv_def invoke_if_def u_def)
  moreover have "\<exists>e. A_tcp_close p e \<in> set (log u)" "calls_on q (log u) = calls_on q (log t)"
    using assms(2) t(3) by (auto simp: u_def closed_state_def Let_def set_close_error_def closing_defs)
  ultimately show ?thesis using t by metis
qed

end
