(* ===== verification/TlsRelay.thy ===== *)
theory TlsRelay
  imports ClientIsolation BufferTx
begin

text \<open>
  A TLS connection as a relay: what the engine decrypts reaches the data handler, what it
  wants to send reaches lwIP, in order and once, and the end of the handshake is reported
  once.  For handlers that write, acknowledge and set options, and for every nesting of
  the writes they make.
\<close>

section \<open>The streams at the four ends\<close>

text \<open>
  Application data taken from the engine, and records taken from it, at the moment it was
  told so (\<open>recvapp_ack\<close>, \<open>sendrec_ack\<close>).  A record is fetched before the \<open>tcp_write\<close> that
  precedes its acknowledgement in the history.
\<close>

primrec app_in :: "env \<Rightarrow> pcb \<Rightarrow> hist \<Rightarrow> byte list" where
  "app_in en p [] = []"
| "app_in en p (a # h) = (case a of
     A_br_recvapp_ack q n \<Rightarrow> app_in en p h @ (if q = p then take n (b_recvapp_buf en h p) else [])
   | _ \<Rightarrow> app_in en p h)"

primrec records :: "env \<Rightarrow> pcb \<Rightarrow> hist \<Rightarrow> byte list" where
  "records en p [] = []"
| "records en p (a # h) = (case a of
     A_br_sendrec_ack q n \<Rightarrow> records en p h @ (if q = p then take n (b_sendrec_buf en (tl h) p) else [])
   | _ \<Rightarrow> records en p h)"

text \<open>What the data handler got, what the engine got to encrypt, and how often \<open>onConnect\<close> ran.\<close>

primrec delivered :: "hist \<Rightarrow> byte list" where
  "delivered [] = []"
| "delivered (a # h) = (case a of A_cb (CB_data bs) \<Rightarrow> delivered h @ bs | _ \<Rightarrow> delivered h)"

primrec app_out :: "pcb \<Rightarrow> hist \<Rightarrow> byte list" where
  "app_out p [] = []"
| "app_out p (a # h) = (case a of
     A_br_sendapp q bs \<Rightarrow> app_out p h @ (if q = p then bs else []) | _ \<Rightarrow> app_out p h)"

primrec connects :: "hist \<Rightarrow> nat" where
  "connects [] = 0"
| "connects (a # h) = (if a = A_cb CB_connect then Suc (connects h) else connects h)"

definition hs_done :: "pcb \<Rightarrow> ssl_pcb list \<Rightarrow> bool" where
  "hs_done p l \<longleftrightarrow> (case find_ssl_pcb p l of None \<Rightarrow> False | Some sp \<Rightarrow> sp_handshake_done sp)"

text \<open>The calls on the pcbs of other connections.\<close>

definition others :: "pcb \<Rightarrow> hist \<Rightarrow> pcb \<Rightarrow> hist" where
  "others p h = (\<lambda>q. if q = p then [] else calls_on q h)"

lemma others_Cons [simp]:
  assumes "used_pcb a = None \<or> used_pcb a = Some p" "\<forall>q. q \<noteq> p \<longrightarrow> a \<noteq> A_setprio q \<and> a \<noteq> A_lwip_freed q"
  shows "others p (a # h) = others p h"
  using assms by (auto simp: others_def fun_eq_iff)

text \<open>No call was made on a released pcb, and \<open>p\<close> is not released.\<close>

definition tidy :: "pcb \<Rightarrow> hist \<Rightarrow> bool" where
  "tidy p h \<longleftrightarrow> clean h \<and> \<not> released p h"

lemma tidy_Cons [simp]:
  assumes "used_pcb a = None \<or> used_pcb a = Some p" "released p (a # h) = released p h"
  shows "tidy p (a # h) = tidy p h"
  using assms by (auto simp: tidy_def simp del: released.simps)

section \<open>The relation between two states\<close>

definition listening :: "pcb \<Rightarrow> conn \<Rightarrow> bool" where
  "listening p s \<longleftrightarrow> life s = Alive \<and> use_tls s \<and> c_pcb s = Some p \<and> recv_cb s \<and> connect_cb s
     \<and> (\<exists>sp. find_ssl_pcb p (ssl s) = Some sp \<and> sp_on_data sp \<and> sp_on_handshake sp)"

definition relay :: "env \<Rightarrow> pcb \<Rightarrow> conn \<Rightarrow> conn \<Rightarrow> bool" where
  "relay en p s s' \<longleftrightarrow> listening p s'
     \<and> (\<exists>xs. app_in en p (log s') = app_in en p (log s) @ xs \<and> delivered (log s') = delivered (log s) @ xs)
     \<and> (\<exists>ys. records en p (log s') = records en p (log s) @ ys \<and> written p (log s') = written p (log s) @ ys)
     \<and> (\<exists>zs. app_out p (log s') = app_out p (log s) @ zs)
     \<and> (hs_done p (ssl s) \<longrightarrow> hs_done p (ssl s'))
     \<and> connects (log s') + of_bool (hs_done p (ssl s)) = connects (log s) + of_bool (hs_done p (ssl s'))
     \<and> others p (log s') = others p (log s) \<and> tidy p (log s') = tidy p (log s)"

lemma relay_refl: "listening p s \<Longrightarrow> relay en p s s"
  by (simp add: relay_def)

lemma relay_trans: "relay en p s t \<Longrightarrow> relay en p t u \<Longrightarrow> relay en p s u"
  unfolding relay_def by (elim conjE exE) (intro conjI exI; simp)

lemma relay_listening: "relay en p s t \<Longrightarrow> listening p t"
  by (simp add: relay_def)

text \<open>Steps that touch none of the streams.\<close>

definition view :: "env \<Rightarrow> pcb \<Rightarrow> conn \<Rightarrow> (byte list \<times> byte list) \<times> (byte list \<times> byte list) \<times> byte list \<times> nat \<times> bool \<times> (pcb \<Rightarrow> hist) \<times> bool" where
  "view en p s = ((app_in en p (log s), delivered (log s)), (records en p (log s), written p (log s)),
     app_out p (log s), connects (log s), hs_done p (ssl s), others p (log s),
     tidy p (log s))"

lemma relay_view: "relay en p s t \<Longrightarrow> listening p u \<Longrightarrow> view en p u = view en p t \<Longrightarrow> relay en p s u"
  by (auto simp: relay_def view_def)

lemma relay_same: "listening p u \<Longrightarrow> view en p u = view en p s \<Longrightarrow> relay en p s u"
  by (auto simp: relay_def view_def)

lemma listening_update:
  assumes "\<And>sp. sp_tcp (f sp) = sp_tcp sp" "\<And>sp. sp_on_data (f sp) = sp_on_data sp"
    "\<And>sp. sp_on_handshake (f sp) = sp_on_handshake sp" "\<And>sp. sp_handshake_done (f sp) = sp_handshake_done sp"
  shows "listening p s \<Longrightarrow> listening p (s\<lparr>ssl := update_ssl_pcb q f (ssl s)\<rparr>)"
    and "view en p (s\<lparr>ssl := update_ssl_pcb q f (ssl s)\<rparr>) = view en p s"
  using assms by (auto simp: listening_def view_def hs_done_def find_update split: option.split)

lemma listening_emit [simp]: "listening p (emit a s) = listening p s"
  by (simp add: listening_def emit_def)

lemma listening_emits [simp]: "listening p (emits as s) = listening p s"
  by (simp add: listening_def emits_def)

lemma listening_lens [simp]:
  "listening p (set_in_len q n s) = listening p s" "listening p (set_out_len q n s) = listening p s"
  "view en p (set_in_len q n s) = view en p s" "view en p (set_out_len q n s) = view en p s"
  "log (set_in_len q n s) = log s" "log (set_out_len q n s) = log s"
  by (auto simp: listening_def set_in_len_def set_out_len_def find_update view_def hs_done_def
      split: option.split)

lemma ssl_of_lens [simp]:
  "hs_done p (ssl (set_in_len q n s)) = hs_done p (ssl s)"
  "hs_done p (ssl (set_out_len q n s)) = hs_done p (ssl s)"
  by (auto simp: set_in_len_def set_out_len_def find_update hs_done_def split: option.split)

text \<open>
  \<open>sound P r\<close>: the call returns a result with \<open>P\<close>, or it runs out of fuel (nesting of
  handlers, rounds of the engine); every other fault is excluded.
\<close>

definition sound :: "('a \<Rightarrow> bool) \<Rightarrow> 'a res \<Rightarrow> bool" where
  "sound P r \<longleftrightarrow> (case r of Inl e \<Rightarrow> e = No_return | Inr a \<Rightarrow> P a)"

lemma sound_simps [simp]: "sound P (Inl e) \<longleftrightarrow> e = No_return" "sound P (Inr a) \<longleftrightarrow> P a"
  by (simp_all add: sound_def)

lemma sound_rbind: "sound Q r \<Longrightarrow> (\<And>a. Q a \<Longrightarrow> sound P (f a)) \<Longrightarrow> sound P (rbind r f)"
  by (cases r) auto

lemma sound_mono: "sound P r \<Longrightarrow> (\<And>a. P a \<Longrightarrow> Q a) \<Longrightarrow> sound Q r"
  by (cases r) auto

section \<open>The engine and its listener\<close>

locale tls_listener =
  fixes en :: env and p :: pcb and cb :: user
  assumes cb_relays: "listening p s \<Longrightarrow> sound (relay en p s) (cb ev s)"
begin

abbreviation scb :: "ssl_ev \<Rightarrow> conn \<Rightarrow> conn res" where
  "scb \<equiv> client_ssl_cb cb"

lemma cb_after: "relay en p s t \<Longrightarrow> sound (relay en p s) (cb ev t)"
  by (rule sound_mono [OF cb_relays [OF relay_listening]]) (auto intro: relay_trans)

lemma data_relays:
  assumes "listening p s" "b_recvapp_buf en (log s) p = buf"
  shows "sound (relay en p s) (scb (S_data p buf) (emit (A_br_recvapp_ack p (length buf)) (set_in_len p n s)))"
proof -
  let ?t = "emit (A_cb (CB_data buf)) (emit (A_br_recvapp_ack p (length buf)) (set_in_len p n s))"
  have "relay en p s ?t"
    using assms by (auto simp: relay_def)
  from cb_after [OF this, of "CB_data buf"] assms(1) show ?thesis
    by (simp add: client_ssl_cb_def invoke_if_def invoke_def touch_def listening_def set_in_len_def emit_def)
qed

lemma error_relays:
  assumes "relay en p s t"
  shows "sound (relay en p s) (scb (S_error p e) t)"
proof -
  have "relay en p s (emit (A_cb (CB_error (Err_num (e + 64)))) t)"
    by (rule relay_view [OF assms]) (use assms in \<open>simp_all add: relay_def view_def\<close>)
  from cb_after [OF this, of "CB_error (Err_num (e + 64))"] assms show ?thesis
    by (auto simp: client_ssl_cb_def invoke_if_def invoke_def touch_def relay_def [of en p s t] listening_def)
qed

lemma send_relays:
  assumes "relay en p s t"
  shows "relay en p s (snd (engine_send en p t))"
proof -
  have "relay en p t (snd (engine_send en p t))"
    using assms by (auto simp: relay_def [of en p s t] engine_send_def Let_def relay_def)
  with assms show ?thesis by (rule relay_trans)
qed

lemma step_relays:
  assumes "listening p s"
  shows "sound (\<lambda>(x, s'). relay en p s s') (engine_step en scb p s)"
proof -
  obtain sp where sp: "find_ssl_pcb p (ssl s) = Some sp" "sp_on_data sp"
    using assms by (auto simp: listening_def)
  have r: "relay en p s s" "relay en p s (set_in_len p n s)" for n
    using assms by (auto intro: relay_refl relay_same)
  have data: "sound (\<lambda>(x, s'). relay en p s s') (rbind (scb (S_data p buf)
      (emit (A_br_recvapp_ack p (length buf)) (set_in_len p (length buf) s))) (\<lambda>s. Inr (None, s)))"
    if "b_recvapp_buf en (log s) p = buf" for buf
    by (rule sound_rbind [OF data_relays [OF assms that]]) simp
  have err: "sound (\<lambda>(x, s'). relay en p s s')
      (rbind (scb (S_error p e) s) (\<lambda>s. Inr (Some Closed, s)))" for e
    by (rule sound_rbind [OF error_relays [OF r(1)]]) simp
  show ?thesis
    using sp r data err send_relays
    by (auto simp: engine_step_def Let_def split_beta)
qed

lemma loop_relays: "listening p s \<Longrightarrow> sound (\<lambda>(x, s'). relay en p s s') (engine_loop n en scb p s)"
proof (induction n arbitrary: s)
  case (Suc n)
  have "sound (\<lambda>(x, s'). relay en p s s') (case x of Some e \<Rightarrow> Inr (e, t) | None \<Rightarrow> engine_loop n en scb p t)"
    if "relay en p s t" for x t
    using that Suc.IH [OF relay_listening [OF that]] by (cases x) (auto intro: sound_mono relay_trans)
  then show ?case by (auto intro!: sound_rbind [OF step_relays [OF Suc.prems]])
qed simp

lemma finish_relays:
  assumes "listening p s"
  shows "sound (relay en p s) (finish_handshake en scb p s)"
proof -
  obtain sp where sp: "find_ssl_pcb p (ssl s) = Some sp" "sp_on_handshake sp"
    using assms by (auto simp: listening_def)
  let ?s = "s\<lparr>ssl := update_ssl_pcb p (\<lambda>sp. sp\<lparr>sp_handshake_done := True\<rparr>) (ssl s)\<rparr>"
  let ?t = "emit (A_cb CB_connect) (?s\<lparr>handshake_done := True\<rparr>)"
  have "listening p ?t" using assms by (auto simp: listening_def find_update emit_def)
  then have "relay en p s ?t" if "\<not> sp_handshake_done sp"
    using that sp by (simp add: relay_def hs_done_def find_update)
  from cb_after [OF this, of CB_connect] assms sp show ?thesis
    by (auto simp: finish_handshake_def Let_def client_ssl_cb_def invoke_if_def invoke_def touch_def
        listening_def intro: relay_refl)
qed

lemma process_relays:
  assumes "listening p s"
  shows "sound (relay en p s) (process_ssl_engine en scb p s)"
proof -
  have "sound (relay en p s) (case x of Closed \<Rightarrow> Inr t | Idle \<Rightarrow> finish_handshake en scb p t)"
    if "relay en p s t" for x t
    using that finish_relays [OF relay_listening [OF that]] by (cases x) (auto intro: sound_mono relay_trans)
  then show ?thesis
    unfolding process_ssl_engine_def by (auto intro!: sound_rbind [OF loop_relays [OF assms]])
qed

lemma process_after: "relay en p s t \<Longrightarrow> sound (relay en p s) (process_ssl_engine en scb p t)"
  by (rule sound_mono [OF process_relays [OF relay_listening]]) (auto intro: relay_trans)

text \<open>Changes of the reassembly buffer.\<close>

lemma update_after:
  assumes "relay en p s t" "\<And>sp. sp_tcp (f sp) = sp_tcp sp" "\<And>sp. sp_on_data (f sp) = sp_on_data sp"
    "\<And>sp. sp_on_handshake (f sp) = sp_on_handshake sp" "\<And>sp. sp_handshake_done (f sp) = sp_handshake_done sp"
  shows "relay en p s (t\<lparr>ssl := update_ssl_pcb q f (ssl t)\<rparr>)"
  by (rule relay_view [OF assms(1)])
    (use listening_update [OF assms(2-5), where p = p and s = t] relay_listening [OF assms(1)] in auto)

lemma accum_flags [simp]:
  "sp_on_data (accum_copy bs sp) = sp_on_data sp" "sp_on_handshake (accum_copy bs sp) = sp_on_handshake sp"
  "sp_handshake_done (accum_copy bs sp) = sp_handshake_done sp"
  "sp_on_data (accum_shift en l c sp) = sp_on_data sp" "sp_on_handshake (accum_shift en l c sp) = sp_on_handshake sp"
  "sp_handshake_done (accum_shift en l c sp) = sp_handshake_done sp"
  by (simp_all add: accum_copy_def accum_shift_def Let_def)

lemma found: "relay en p s t \<Longrightarrow> \<exists>sp. find_ssl_pcb p (ssl t) = Some sp"
  by (auto simp: relay_def listening_def)

lemma accum_relays:
  "relay en p s t \<Longrightarrow> sound (\<lambda>(r, s'). relay en p s s') (accum_loop en scb p rest t)"
proof (induction rest arbitrary: t rule: length_induct)
  case (1 rest)
  obtain sp where sp: "find_ssl_pcb p (ssl t) = Some sp" using found [OF "1.prems"] by blast
  have body: "sound (\<lambda>(r, s'). relay en p s s')
      (case find_ssl_pcb p (ssl u) of None \<Rightarrow> Inl Ssl_use_after_free
       | Some sp \<Rightarrow>
          if sp_accum_pos sp = 0 then Inr (rest, u)
          else let n = min (length rest) (sp_accum_pos sp)
               in accum_loop en scb p (drop n rest)
                    (u\<lparr>ssl := update_ssl_pcb p (accum_copy (take n rest)) (ssl u)\<rparr>))"
    if u: "rest \<noteq> []" "relay en p s u" for u
  proof -
    obtain sp where sp: "find_ssl_pcb p (ssl u) = Some sp" using found [OF u(2)] by blast
    let ?n = "min (length rest) (sp_accum_pos sp)"
    have "relay en p s (u\<lparr>ssl := update_ssl_pcb p (accum_copy (take ?n rest)) (ssl u)\<rparr>)"
      by (rule update_after [OF u(2)]) simp_all
    moreover have "length (drop ?n rest) < length rest" if "sp_accum_pos sp \<noteq> 0"
      using that u(1) by simp
    ultimately show ?thesis using "1.IH" u(2) sp by (auto simp: Let_def)
  qed
  have "sound (relay en p s) (if sp_accum_pos sp = 0 then process_ssl_engine en scb p t else Inr t)"
    using "1.prems" by (simp add: process_after)
  from sound_rbind [OF this body] sp "1.prems" show ?case
    by (subst accum_loop.simps) (simp del: Let_def)
qed

lemma feed_relays:
  "relay en p s t \<Longrightarrow> sound (\<lambda>(r, s'). relay en p s s') (feed_loop k en scb p l c t)"
proof (induction k arbitrary: c t)
  case (Suc k)
  have body: "sound (\<lambda>(r, s'). relay en p s s')
      (case find_ssl_pcb p (ssl u) of None \<Rightarrow> Inl Ssl_use_after_free
       | Some sp \<Rightarrow>
          let available = b_recvrec_room en (log u) p in
          if available = 0 then Inr (c, u)
          else let to_feed = (if l - c < available then l - c else available);
                   bs = take to_feed (drop (sp_accum_pos sp + c) (sp_accum sp))
               in feed_loop k en scb p l (c + to_feed) (emit (A_br_recvrec p bs) u))"
    if "relay en p s u" for u
  proof -
    have "relay en p s (emit (A_br_recvrec p bs) u)" for bs
      by (rule relay_view [OF that]) (use relay_listening [OF that] in \<open>simp_all add: view_def\<close>)
    with that found [OF that] Suc.IH show ?thesis by (auto simp: Let_def)
  qed
  show ?case
    using Suc.prems by (auto intro!: sound_rbind [where Q = "relay en p s"] body process_after)
qed simp

lemma feeding_relays:
  assumes "relay en p s t"
  shows "sound (relay en p s) (ssl_feed en scb p t)"
proof -
  have "sound (relay en p s) (case find_ssl_pcb p (ssl u) of None \<Rightarrow> Inl Ssl_use_after_free
      | Some _ \<Rightarrow> Inr (u\<lparr>ssl := update_ssl_pcb p (accum_shift en l c) (ssl u)\<rparr>))"
    if "relay en p s u" for u l c
    using found [OF that] update_after [OF that, of "accum_shift en l c" p] by auto
  with found [OF assms] show ?thesis
    by (auto simp: ssl_feed_def Let_def intro!: sound_rbind [OF feed_relays [OF assms]])
qed

lemma read_relays:
  assumes "listening p s"
  shows "sound (\<lambda>(r, s'). relay en p s s') (tcp_ssl_read en scb p pb s)"
proof -
  note r = relay_refl [OF assms]
  have emit: "relay en p s (emit a u)" if "relay en p s u" "a = A_pbuf_free ids \<or> a = A_tcp_recved (Some p) n" for u a ids n
    by (rule relay_view [OF that(1)]) (use relay_listening [OF that(1)] that(2) in \<open>auto simp: view_def\<close>)
  have two: "relay en p s (emits [A_tcp_recved (Some p) n, A_pbuf_free ids] u)" if "relay en p s u" for u ids n
    by (rule relay_view [OF that]) (use relay_listening [OF that] in \<open>simp_all add: view_def\<close>)
  have fin: "sound (\<lambda>(r, s'). relay en p s s') (rbind (process_ssl_engine en scb p u) (\<lambda>s.
      case find_ssl_pcb p (ssl s) of None \<Rightarrow> Inl Ssl_use_after_free
      | Some _ \<Rightarrow> if br_closed (b_state en (log s) p) then Inr (-1, s) else Inr (0 :: int, s)))"
    if "relay en p s u" for u
    by (rule sound_rbind [OF process_after [OF that]]) (frule found, auto)
  have rest: "sound (\<lambda>(r, s'). relay en p s s') (rbind (ssl_feed en scb p (emits [A_tcp_recved (Some p)
        (of_nat (tot_len pb)), A_pbuf_free (map pb_id pb)] u)) (\<lambda>s. rbind (process_ssl_engine en scb p s) (\<lambda>s.
          case find_ssl_pcb p (ssl s) of None \<Rightarrow> Inl Ssl_use_after_free
          | Some _ \<Rightarrow> if br_closed (b_state en (log s) p) then Inr (-1, s) else Inr (0 :: int, s))))"
    if "relay en p s u" for u
    by (rule sound_rbind [OF feeding_relays [OF two [OF that]] fin])
  with found [OF r] emit show ?thesis
    by (auto simp: tcp_ssl_read_def intro!: sound_rbind [OF accum_relays [OF r]] rest)
qed

text \<open>
  A write: the bytes accepted are a prefix of the data, and come first in what the engine
  is given; what follows was written by handlers that ran meanwhile.
\<close>

definition accepted :: "byte list \<Rightarrow> conn \<Rightarrow> int \<times> conn \<Rightarrow> bool" where
  "accepted data s = (\<lambda>(r, s'). 0 \<le> r \<and> nat r \<le> length data
     \<and> (\<exists>zs. app_out p (log s') = app_out p (log s) @ take (nat r) data @ zs))"

lemma write_relays:
  assumes "listening p s"
  shows "sound (\<lambda>(r, s'). relay en p s s' \<and> accepted data s (r, s')) (tcp_ssl_write en scb p data s)"
proof -
  note r = relay_refl [OF assms]
  have none: "accepted data s (0, t)" if "relay en p s t" for t
    using that by (auto simp: accepted_def relay_def)
  let ?t = "\<lambda>n. emits [A_br_sendapp p (take n data), A_br_flush p] s"
  have t: "relay en p s (?t n)" for n
    using assms by (simp add: relay_def)
  have some: "accepted data s (int n, u)" if "n \<le> length data" "relay en p (?t n) u" for n u
    using that by (auto simp: accepted_def relay_def)
  have send: "sound (\<lambda>(r, s'). relay en p s s' \<and> accepted data s (r, s'))
      (rbind (process_ssl_engine en scb p (?t n)) (\<lambda>s. Inr (int n, s)))" if "n \<le> length data" for n
    by (rule sound_rbind [OF process_relays [OF relay_listening [OF t]]])
      (use some [OF that] relay_trans [OF t] in auto)
  have idle: "sound (\<lambda>(r, s'). relay en p s s' \<and> accepted data s (r, s'))
      (rbind (process_ssl_engine en scb p s) (\<lambda>s. Inr (0, s)))"
    by (rule sound_rbind [OF process_relays [OF assms]]) (auto intro: none)
  show ?thesis
    using found [OF r] none [OF r] r idle send
    by (auto simp: tcp_ssl_write_def Let_def)
qed

text \<open>API calls that do not close, delete or reconnect.\<close>

lemma updated:
  assumes "relay en p s t" "log u = log t" "ssl u = ssl t" "life u = life t" "use_tls u = use_tls t"
    "c_pcb u = c_pcb t" "recv_cb u = recv_cb t" "connect_cb u = connect_cb t"
  shows "relay en p s u"
  by (rule relay_view [OF assms(1)])
    (use assms relay_listening [OF assms(1)] in \<open>auto simp: listening_def view_def\<close>)

lemma add_relays:
  assumes "listening p s"
  shows "sound (\<lambda>(n, s'). relay en p s s') (add en cb data f s)"
proof -
  note r = relay_refl [OF assms]
  have fin: "sound (\<lambda>(n, s'). relay en p s s') (touch t (if sent \<ge> 0
      then Inr (nat sent, t\<lparr>tx_unacked_len := tx_unacked_len t + of_int sent\<rparr>)
      else rbind (do_close en cb t) (\<lambda>s. Inr (0, s))))"
    if "relay en p s t" "accepted bs s (sent, t)" for t sent bs
    using that updated [OF that(1)] by (simp add: accepted_def touch_def relay_def [of en p s t] listening_def)
  have wr: "sound (\<lambda>(n, s'). relay en p s s') (rbind (tcp_ssl_write en scb p bs s) (\<lambda>(sent, s). touch s
      (if sent \<ge> 0 then Inr (nat sent, s\<lparr>tx_unacked_len := tx_unacked_len s + of_int sent\<rparr>)
       else rbind (do_close en cb s) (\<lambda>s. Inr (0, s)))))" for bs
    by (rule sound_rbind [OF write_relays [OF assms, where data = bs]]) (use fin in auto)
  show ?thesis
    using assms r wr by (auto simp: add_def Let_def listening_def split: option.split)
qed

lemma client_write_relays:
  assumes "listening p s"
  shows "sound (\<lambda>(n, s'). relay en p s s') (client_write en cb data f s)"
  unfolding client_write_def
  by (rule sound_rbind [OF add_relays [OF assms]])
    (auto simp: send_def touch_def relay_def listening_def split: prod.split)

lemma call_relays:
  assumes "calm_op x" "listening p s"
  shows "sound (relay en p s) (user_call en cb x s)"
proof -
  note r = relay_refl [OF assms(2)]
  have alive: "life s = Alive" using assms(2) by (simp add: listening_def)
  have pair: "sound (relay en p s) (rbind q (\<lambda>(_, s). Inr s))"
    if "sound (\<lambda>(n :: nat, s'). relay en p s s') q" for q
    by (rule sound_rbind [OF that]) auto
  show ?thesis
  proof (cases x)
    case (Op_add d f)
    with alive pair [OF add_relays [OF assms(2)]] show ?thesis by (simp add: user_call_def)
  next
    case (Op_write d f)
    with alive pair [OF client_write_relays [OF assms(2)]] show ?thesis by (simp add: user_call_def)
  next
    case (Op_write_cstr d)
    with alive r pair [OF client_write_relays [OF assms(2)]] pair [of "Inr (0, s)"] show ?thesis
      by (auto simp: user_call_def write_cstr_def split: option.split)
  qed (use assms in \<open>auto simp: user_call_def send_def ack_def ackLater_def setNoDelay_def
        setRxTimeout_def setAckTimeout_def Let_def listening_def view_def hs_done_def emit_def
        split: option.split intro!: relay_same\<close>)
qed

lemma script_relays:
  "\<forall>x\<in>set xs. calm_op x \<Longrightarrow> listening p s \<Longrightarrow> sound (relay en p s) (run_script en cb xs s)"
proof (induction xs arbitrary: s)
  case (Cons x xs)
  have "sound (relay en p s) (run_script en cb xs t)" if "relay en p s t" for t
    using Cons.IH [OF _ relay_listening [OF that]] Cons.prems(1) that
    by (auto intro: sound_mono relay_trans)
  with call_relays [of x s] Cons.prems show ?case by (auto intro!: sound_rbind [where Q = "relay en p s"])
qed (simp add: relay_refl)

end

section \<open>Calm sketches listen\<close>

definition calm_part :: "sketch \<Rightarrow> sketch" where
  "calm_part usr = (\<lambda>ev h. filter calm_op (usr ev h))"

lemma calm_listener: "tls_listener en p (run_cb d en (calm_part usr))"
proof (induction d)
  case 0
  show ?case by unfold_locales simp
next
  case (Suc d)
  show ?case
    by unfold_locales (use tls_listener.script_relays [OF Suc.IH] in \<open>simp add: calm_part_def\<close>)
qed

interpretation calm: tls_listener en p "run_cb d en (calm_part usr)" for en p d usr
  by (rule calm_listener)

lemma calm_part_id: "\<forall>ev h. \<forall>x\<in>set (usr ev h). calm_op x \<Longrightarrow> calm_part usr = usr"
  by (auto simp: calm_part_def fun_eq_iff filter_id_conv)

section \<open>Sessions\<close>

text \<open>Packets that arrive and data the sketch writes, in any order.\<close>

datatype tls_io = T_read "pbuf list" | T_write "byte list option" u8

fun tls_session :: "env \<Rightarrow> user \<Rightarrow> pcb \<Rightarrow> tls_io list \<Rightarrow> conn \<Rightarrow> conn res" where
  "tls_session en cb p [] s = Inr s"
| "tls_session en cb p (T_read pb # ios) s =
     rbind (tcp_ssl_read en (client_ssl_cb cb) p pb s) (\<lambda>(r, s). tls_session en cb p ios s)"
| "tls_session en cb p (T_write d f # ios) s =
     rbind (client_write en cb d f s) (\<lambda>(n, s). tls_session en cb p ios s)"

text \<open>
  The connection is in step: the handler got what came out of the engine, lwIP got the
  records, and \<open>onConnect\<close> ran once if the handshake is done and not before.
\<close>

definition in_step :: "env \<Rightarrow> pcb \<Rightarrow> conn \<Rightarrow> bool" where
  "in_step en p s \<longleftrightarrow> delivered (log s) = app_in en p (log s) \<and> written p (log s) = records en p (log s)
     \<and> connects (log s) = of_bool (hs_done p (ssl s))"

lemma relay_in_step: "relay en p s t \<Longrightarrow> in_step en p s \<Longrightarrow> in_step en p t"
  by (auto simp: relay_def in_step_def)

context tls_listener
begin

lemma session_relays:
  "listening p s \<Longrightarrow> sound (relay en p s) (tls_session en cb p ios s)"
proof (induction ios arbitrary: s)
  case (Cons io ios)
  have rest: "sound (relay en p s) (tls_session en cb p ios t)" if "relay en p s t" for t
    by (rule sound_mono [OF Cons.IH [OF relay_listening [OF that]] relay_trans [OF that]])
  show ?case
  proof (cases io)
    case (T_read pb)
    with rest show ?thesis by (auto intro!: sound_rbind [OF read_relays [OF Cons.prems]])
  next
    case (T_write d f)
    with rest show ?thesis by (auto intro!: sound_rbind [OF client_write_relays [OF Cons.prems]])
  qed
qed (simp add: relay_refl)

lemma session_in_step:
  "listening p s \<Longrightarrow> in_step en p s \<Longrightarrow>
    sound (\<lambda>s'. listening p s' \<and> in_step en p s') (tls_session en cb p ios s)"
  by (rule sound_mono [OF session_relays]) (auto intro: relay_in_step relay_listening)

end

text \<open>
  A TLS connection relays faithfully.  Over any sequence of received packets and
  writes, with handlers that write, acknowledge and set options, and with every nesting
  of those writes: all that the engine decrypts reaches \<open>onData\<close>, in order and once; all
  records it produces reach \<open>tcp_write\<close>, in order and once; \<open>onConnect\<close> runs exactly once,
  when the handshake is done; and no deleted context, client or handler is used.  The
  only way not to return is an engine that never comes to rest, or endless nesting.
\<close>

theorem tls_session_relays:
  assumes "\<forall>ev h. \<forall>x\<in>set (usr ev h). calm_op x" "listening p s" "in_step en p s"
  shows "sound (\<lambda>s'. listening p s' \<and> in_step en p s') (tls_session en (run_cb d en usr) p ios s)"
  using calm.session_in_step [OF assms(2,3), of d usr ios] by (simp add: calm_part_id [OF assms(1)])

definition relay_env :: env where
  "relay_env = quiet_env\<lparr>
     b_state := (\<lambda>h p. \<lparr>br_closed = False, br_sendapp = True, br_recvapp = True\<rparr>),
     b_recvapp_buf := (\<lambda>h p. if A_br_recvapp_ack p 2 \<in> set h then [] else [104, 105]),
     b_sendrec_buf := (\<lambda>h p. if A_br_sendrec_ack p 3 \<in> set h then [] else [1, 2, 3])\<rparr>"

definition relay0 :: conn where
  "relay0 = tls0\<lparr>ssl := [(sample_ssl_pcb 1 8)\<lparr>sp_handshake_done := False\<rparr>], connect_cb := True\<rparr>"

lemma relay_env_eval:
  "b_state relay_env h p = \<lparr>br_closed = False, br_sendapp = True, br_recvapp = True\<rparr>"
  "b_recvapp_buf relay_env h p = (if A_br_recvapp_ack p 2 \<in> set h then [] else [104, 105])"
  "b_sendrec_buf relay_env h p = (if A_br_sendrec_ack p 3 \<in> set h then [] else [1, 2, 3])"
  "unat (e_sndbuf relay_env h p) = 512" "in_size relay_env = 8" "out_size relay_env = 8"
  "loop_fuel relay_env = 5" "b_recvrec_room relay_env h p = 64" "b_sendapp_room relay_env h p = 64"
  by (simp_all add: relay_env_def quiet_env_def)

lemma relay_env_space:
  "c_pcb s = Some 1 \<Longrightarrow> use_tls s \<Longrightarrow> handshake_done s \<Longrightarrow> (space relay_env s = 0) = False"
  by (simp add: space_def connected_def relay_env_def quiet_env_def)

lemma session_example:
  "case tls_session relay_env (run_cb 1 relay_env (\<lambda>ev h. [])) 1
      [T_read (packet [5, 6, 7]), T_write (Some [9]) 0] relay0 of
     Inl e \<Rightarrow> False
   | Inr s' \<Rightarrow> delivered (log s') = [104, 105] \<and> records relay_env 1 (log s') = [1, 2, 3] \<and> hs_done 1 (ssl s')"
  by (simp add: relay0_def relay_env_eval relay_env_space tls0_def mem0_def sample_ssl_pcb_def packet_def
      chain_bytes_def tot_len_def tcp_ssl_read_def ssl_feed_def accum_copy_def accum_shift_def
      process_ssl_engine_def engine_step_def engine_send_def finish_handshake_def set_out_len_def set_in_len_def
      emits_def emit_def Let_def ASYNC_TCP_SSL_MAX_FEED_LOOPS_def accum_loop.simps eval_nat_numeral
      client_ssl_cb_def invoke_if_def invoke_def touch_def client_write_def add_def tcp_ssl_write_def send_def
      hs_done_def)

lemma relay0_start: "listening 1 relay0" "in_step relay_env 1 relay0"
  by (simp_all add: listening_def in_step_def hs_done_def relay0_def tls0_def mem0_def sample_ssl_pcb_def)

theorem tls_session_relays_witness:
  "\<exists>s'. tls_session relay_env (run_cb 1 relay_env (\<lambda>ev h. [])) 1
      [T_read (packet [5, 6, 7]), T_write (Some [9]) 0] relay0 = Inr s'
    \<and> delivered (log s') = [104, 105] \<and> written 1 (log s') = [1, 2, 3] \<and> connects (log s') = 1"
proof -
  have "\<forall>ev h. \<forall>x\<in>set ((\<lambda>ev h. []) (ev :: cb_ev) (h :: hist)). calm_op x" by simp
  note relays = tls_session_relays [OF this relay0_start, of 1 "[T_read (packet [5, 6, 7]), T_write (Some [9]) 0]"]
  obtain s' where s': "tls_session relay_env (run_cb 1 relay_env (\<lambda>ev h. [])) 1
      [T_read (packet [5, 6, 7]), T_write (Some [9]) 0] relay0 = Inr s'"
    "delivered (log s') = [104, 105]" "records relay_env 1 (log s') = [1, 2, 3]" "hs_done 1 (ssl s')"
    using session_example by (auto split: sum.splits simp del: tls_session.simps)
  then show ?thesis using relays unfolding s'(1) by (auto simp: in_step_def)
qed

end
