(* ===== verification/TlsConnection.thy ===== *)
theory TlsConnection
  imports TlsRelay ClientConnect
begin

text \<open>
  A TLS connection of a client from the \<open>connected\<close> callback on, driven by the callbacks of
  lwIP and the writes of the sketch, to its end: what TlsRelay shows of single reads and
  writes holds over the whole life of the connection, and the connection completes every
  callback, if the engine comes to rest.
\<close>

section \<open>Events of a connection\<close>

datatype tls_event = E_recv "pbuf list" | E_sent u16 | E_poll | E_error err_t | E_call api_op

definition tls_event :: "env \<Rightarrow> user \<Rightarrow> pcb \<Rightarrow> tls_event \<Rightarrow> conn \<Rightarrow> conn res" where
  "tls_event en cb p ev s = (case ev of
     E_recv pb \<Rightarrow> rbind (s_recv en cb (Some p) pb ERR_OK s) (\<lambda>(e, s). Inr s)
   | E_sent n \<Rightarrow> rbind (s_sent en cb n s) (\<lambda>(e, s). Inr s)
   | E_poll \<Rightarrow> rbind (s_poll en cb s) (\<lambda>(e, s). Inr s)
   | E_error err \<Rightarrow> s_error cb err (emit (A_lwip_freed p) s)
   | E_call x \<Rightarrow> user_call en cb x s)"

text \<open>The sketch's own calls are of the kind its handlers make.\<close>

definition calm_events :: "tls_event list \<Rightarrow> bool" where
  "calm_events evs \<longleftrightarrow> (\<forall>x. E_call x \<in> set evs \<longrightarrow> calm_op x)"

lemma calm_events_Cons [simp]: "calm_events (ev # evs) \<longleftrightarrow> (\<forall>x. ev = E_call x \<longrightarrow> calm_op x) \<and> calm_events evs"
  by (auto simp: calm_events_def)

lemma calm_events_Nil [simp]: "calm_events []"
  by (simp add: calm_events_def)

fun tls_events :: "env \<Rightarrow> user \<Rightarrow> pcb \<Rightarrow> tls_event list \<Rightarrow> conn \<Rightarrow> conn res" where
  "tls_events en cb p [] s = Inr s"
| "tls_events en cb p (ev # evs) s =
     (if c_pcb s = None then Inr s else rbind (tls_event en cb p ev s) (tls_events en cb p evs))"

text \<open>From the \<open>connected\<close> callback to the last event, or to the end of the connection.\<close>

definition tls_connection :: "env \<Rightarrow> user \<Rightarrow> pcb \<Rightarrow> tls_event list \<Rightarrow> conn \<Rightarrow> conn res" where
  "tls_connection en cb p evs s =
     rbind (s_connected en cb (Some p) ERR_OK s) (\<lambda>(e, s). tls_events en cb p evs s)"

section \<open>States of a connection\<close>

text \<open>
  The streams agree, \<open>onConnect\<close> ran at most once, the calls on the pcbs of other connections
  are \<open>V\<close>, and no call was made on a pcb after it was given back.
\<close>

definition streams :: "env \<Rightarrow> pcb \<Rightarrow> (pcb \<Rightarrow> hist) \<Rightarrow> conn \<Rightarrow> bool" where
  "streams en p V s \<longleftrightarrow> delivered (log s) = app_in en p (log s) \<and> written p (log s) = records en p (log s)
     \<and> connects (log s) \<le> 1 \<and> others p (log s) = V \<and> clean (log s)"

definition running :: "env \<Rightarrow> pcb \<Rightarrow> (pcb \<Rightarrow> hist) \<Rightarrow> conn \<Rightarrow> bool" where
  "running en p V s \<longleftrightarrow> listening p s \<and> in_step en p s \<and> others p (log s) = V \<and> tidy p (log s)"

definition over :: "env \<Rightarrow> pcb \<Rightarrow> (pcb \<Rightarrow> hist) \<Rightarrow> conn \<Rightarrow> bool" where
  "over en p V s \<longleftrightarrow> c_pcb s = None \<and> life s = Alive \<and> streams en p V s"

lemma running_streams: "running en p V s \<Longrightarrow> streams en p V s"
  by (auto simp: running_def streams_def in_step_def tidy_def)

lemma running_simps:
  assumes "running en p V s"
  shows "c_pcb s = Some p" "life s = Alive" "use_tls s"
  using assms by (auto simp: running_def listening_def)

lemma relay_others: "relay en p s t \<Longrightarrow> others p (log t) = others p (log s) \<and> tidy p (log t) = tidy p (log s)"
  by (simp add: relay_def)

lemma running_relay: "running en p V s \<Longrightarrow> relay en p s t \<Longrightarrow> running en p V t"
  by (auto simp: running_def relay_others dest: relay_in_step relay_listening)

lemma running_same:
  assumes "running en p V s" "log t = log s" "ssl t = ssl s" "life t = life s" "use_tls t = use_tls s"
    "c_pcb t = c_pcb s" "recv_cb t = recv_cb s" "connect_cb t = connect_cb s"
  shows "running en p V t"
  using assms by (auto simp: running_def listening_def in_step_def)

lemma running_millis: "running en p V s \<Longrightarrow> running en p V (emit A_millis s)"
  by (simp add: running_def in_step_def)

text \<open>The events of handlers that are not told of data or of the connection.\<close>

definition notice :: "cb_ev \<Rightarrow> bool" where
  "notice ev \<longleftrightarrow> ev \<noteq> CB_connect \<and> (\<forall>d. ev \<noteq> CB_data d)"

lemma notice_simps [simp]:
  "notice CB_disconnect" "notice (CB_ack n t)" "notice (CB_error e)" "notice (CB_timeout t)" "notice CB_poll"
  by (simp_all add: notice_def)

lemma notice_streams:
  assumes "notice ev"
  shows "delivered (A_cb ev # h) = delivered h" "connects (A_cb ev # h) = connects h"
  using assms by (auto simp: notice_def split: cb_ev.split)

lemma running_notice: "running en p V s \<Longrightarrow> notice ev \<Longrightarrow> running en p V (emit (A_cb ev) s)"
  by (simp add: running_def in_step_def notice_streams del: delivered.simps connects.simps)

lemma over_notice: "over en p V s \<Longrightarrow> notice ev \<Longrightarrow> over en p V (emit (A_cb ev) s)"
  by (simp add: over_def streams_def emit_def notice_streams del: delivered.simps connects.simps)

lemma over_same:
  "over en p V s \<Longrightarrow> log t = log s \<Longrightarrow> life t = life s \<Longrightarrow> c_pcb t = c_pcb s \<Longrightarrow> over en p V t"
  by (simp add: over_def streams_def)

section \<open>After the end\<close>

lemma over_call:
  assumes "calm_op x" "over en p V s"
  shows "sound (over en p V) (user_call en cb x s)"
proof (cases x)
  case (Op_write_cstr d)
  with assms show ?thesis
    by (cases d) (simp_all add: over_def user_call_def write_cstr_def client_write_def add_def)
qed (use assms in \<open>auto simp: over_def streams_def user_call_def add_def client_write_def send_def
    ack_def ackLater_def setNoDelay_def setRxTimeout_def setAckTimeout_def Let_def log_defs
    split: option.split\<close>)

lemma over_script:
  "\<forall>x\<in>set xs. calm_op x \<Longrightarrow> over en p V s \<Longrightarrow> sound (over en p V) (run_script en cb xs s)"
proof (induction xs arbitrary: s)
  case (Cons x xs)
  then show ?case by (auto intro!: sound_rbind [OF over_call])
qed simp


lemma over_invoke:
  assumes "over en p V s" "notice ev"
  shows "sound (over en p V) (invoke_if b (run_cb d en (calm_part usr)) ev s)"
proof (cases d)
  case (Suc k)
  let ?s = "emit (A_cb ev) s"
  have "\<forall>x\<in>set (calm_part usr ev (log ?s)). calm_op x" by (simp add: calm_part_def)
  from over_script [OF this over_notice [OF assms]] assms(1) Suc show ?thesis
    by (simp add: invoke_if_def invoke_def)
qed (use assms(1) in \<open>simp add: invoke_if_def invoke_def\<close>)

section \<open>Closing\<close>

text \<open>All that closing needs: the client has the pcb, not released yet, and the streams agree.\<close>

definition linked :: "env \<Rightarrow> pcb \<Rightarrow> (pcb \<Rightarrow> hist) \<Rightarrow> conn \<Rightarrow> bool" where
  "linked en p V s \<longleftrightarrow> c_pcb s = Some p \<and> life s = Alive \<and> streams en p V s \<and> \<not> released p (log s)"

lemma running_linked: "running en p V s \<Longrightarrow> linked en p V s"
  using running_streams running_simps by (auto simp: linked_def running_def tidy_def)

lemma closed_over:
  assumes "linked en p V s"
  shows "over en p V (closed_state en p s)"
  using assms
  by (auto simp: linked_def over_def streams_def closed_state_def Let_def set_close_error_def closing_defs
      split: option.split)

lemma close_over:
  assumes "linked en p V s"
  shows "sound (over en p V) (do_close en (run_cb d en (calm_part usr)) s)"
  using over_invoke [OF closed_over [OF assms]] assms
  by (simp add: do_close_closed_state linked_def)

lemma close_again: "over en p V s \<Longrightarrow> do_close en cb s = Inr s"
  by (simp add: over_def do_close_def)

section \<open>Every event\<close>

lemma running_update:
  assumes "running en p V s"
  shows "running en p V (set_close_error e s)" "running en p V (s\<lparr>rx_last_packet := n\<rparr>)"
    "running en p V (s\<lparr>pcb_busy := b\<rparr>)" "running en p V (s\<lparr>tx_unacked_len := n, tx_acked_len := m\<rparr>)"
    "running en p V (s\<lparr>tx_acked_len := m\<rparr>)" "running en p V (s\<lparr>trk := t\<rparr>)" "running en p V (s\<lparr>close_pcb := b\<rparr>)"
  by (rule running_same [OF assms]; simp add: set_close_error_def)+

definition alive :: "env \<Rightarrow> pcb \<Rightarrow> (pcb \<Rightarrow> hist) \<Rightarrow> conn \<Rightarrow> bool" where
  "alive en p V s \<longleftrightarrow> running en p V s \<or> over en p V s"

lemma aliveI: "running en p V s \<Longrightarrow> alive en p V s" "over en p V s \<Longrightarrow> alive en p V s"
  by (simp_all add: alive_def)

lemma running_invoke:
  assumes "running en p V s" "notice ev"
  shows "sound (running en p V) (invoke_if b (run_cb d en (calm_part usr)) ev s)"
proof -
  have s: "running en p V (emit (A_cb ev) s)" by (rule running_notice [OF assms])
  then have "listening p (emit (A_cb ev) s)" by (simp add: running_def)
  from sound_mono [OF calm.cb_relays [OF this] running_relay [OF s]] assms(1) show ?thesis
    by (simp add: invoke_if_def invoke_def)
qed

lemma close_alive:
  "running en p V s \<Longrightarrow> sound (alive en p V) (do_close en (run_cb d en (calm_part usr)) s)"
  by (rule sound_mono [OF close_over [OF running_linked]]) (auto intro: aliveI)

lemma invoke_alive:
  "running en p V s \<Longrightarrow> notice ev \<Longrightarrow> sound (alive en p V) (invoke_if b (run_cb d en (calm_part usr)) ev s)"
  by (rule sound_mono [OF running_invoke]) (auto intro: aliveI)

lemma recv_alive:
  assumes "running en p V s"
  shows "sound (alive en p V) (client_recv en (run_cb d en (calm_part usr)) (Some p) pb ERR_OK s)"
proof (cases "pb = []")
  case True
  with close_alive [OF assms] show ?thesis by (simp add: client_recv_def)
next
  case False
  let ?cb = "run_cb d en (calm_part usr)"
  let ?s = "set_close_error ERR_OK ((emit A_millis s)\<lparr>rx_last_packet := e_millis en (log s)\<rparr>)"
  have s: "running en p V ?s" by (intro running_update running_millis assms)
  then have "listening p ?s" by (simp add: running_def)
  note read = calm.read_relays [OF this, of en d usr pb]
  have "sound (alive en p V) (if r < 0 then touch t (do_close en ?cb t) else Inr t)"
    if "relay en p ?s t" for r :: int and t
    using close_alive running_relay [OF s that] running_simps [of en p V t] by (auto simp: touch_def alive_def)
  then have "sound (alive en p V) (rbind (tcp_ssl_read en (client_ssl_cb ?cb) p pb ?s) (\<lambda>(r, s).
      if r < 0 then touch s (do_close en ?cb s) else Inr s))"
    by (intro sound_rbind [OF read]) auto
  with False running_simps [OF s] show ?thesis by (simp add: client_recv_def millis_def Let_def)
qed

lemma sent_alive:
  assumes "running en p V s"
  shows "sound (alive en p V) (client_sent en (run_cb d en (calm_part usr)) n s)"
proof -
  let ?cb = "run_cb d en (calm_part usr)"
  have inv: "sound (alive en p V) (rbind (invoke ?cb (CB_ack m k) t) (\<lambda>s.
      if \<not> hasClient (trk s) then Inr s else touch s (Inr (s\<lparr>tx_acked_len := 0\<rparr>))))"
    if "running en p V t" for t m k
    using running_invoke [OF that, of "CB_ack m k" True d usr] running_update(5) running_simps(2)
    by (auto simp: invoke_if_def touch_def alive_def intro!: sound_rbind)
  have "running en p V ((emit A_millis s)\<lparr>rx_last_packet := a, tx_unacked_len := b, tx_acked_len := c\<rparr>)" for a b c
    by (rule running_same [OF running_millis [OF assms]]) simp_all
  note t = this running_update(3,5) [OF this] running_update(1) [OF running_update(3) [OF this]]
  show ?thesis
    using t inv [OF running_millis [OF t(4)]] running_update(5) [OF t(4)] aliveI(1) [OF assms]
    by (auto simp: client_sent_def Let_def millis_def alive_def)
qed


lemma poll_alive:
  assumes "running en p V s"
  shows "sound (alive en p V) (client_poll en (run_cb d en (calm_part usr)) s)"
proof -
  note t = running_update(1) [OF assms, of ERR_OK]
  note m = running_millis [OF t]
  have busy: "running en p V ((emit A_millis (set_close_error ERR_OK s))\<lparr>pcb_busy := False\<rparr>)"
    by (rule running_update [OF m])
  show ?thesis
    using close_alive [OF running_update(7) [OF t]] close_alive [OF m] invoke_alive [OF busy]
      invoke_alive [OF m]
    by (simp add: client_poll_def Let_def millis_def)
qed

lemma error_alive:
  assumes "running en p V s"
  shows "sound (alive en p V) (s_error (run_cb d en (calm_part usr)) e (emit (A_lwip_freed p) s))"
proof -
  let ?s = "set_errored EE_ERROR_CB (set_close_error e (emit (A_lwip_freed p) s))"
  define t where "t = (snd (tcp_ssl_free p ?s))\<lparr>c_pcb := None\<rparr>"
  have t: "over en p V t"
    using running_linked [OF assms]
    by (auto simp: t_def linked_def over_def streams_def tcp_ssl_free_def set_errored_def
        set_close_error_def log_defs split: option.split)
  have "life (emit (A_lwip_freed p) s) = Alive" "c_pcb ?s = Some p" "use_tls ?s" "discard_cb t = discard_cb s" "error_cb t = error_cb s"
    using running_simps [OF assms]
    by (auto simp: t_def tcp_ssl_free_def set_errored_def set_close_error_def log_defs split: option.split)
  moreover have "sound (alive en p V) (touch u (invoke_if b (run_cb d en (calm_part usr)) CB_disconnect u))"
    if "over en p V u" for u b
    using sound_mono [OF over_invoke [OF that, of CB_disconnect b d usr] aliveI(2)] that
    by (simp add: touch_def over_def)
  ultimately show ?thesis
    by (auto simp: s_error_def do_error_def t_def [symmetric] Let_def intro!: sound_rbind [OF over_invoke [OF t]])
qed

lemma result_alive:
  "sound (alive en p V) r \<Longrightarrow> sound (alive en p V) (rbind (rbind r (\<lambda>s. Inr (callback_result s))) (\<lambda>(e, s). Inr s))"
  by (cases r) (auto simp: callback_result_def alive_def over_def streams_def split: prod.splits
      intro: running_update)

lemma event_alive:
  assumes "running en p V s" "\<forall>x. ev = E_call x \<longrightarrow> calm_op x"
  shows "sound (alive en p V) (tls_event en (run_cb d en (calm_part usr)) p ev s)"
proof (cases ev)
  case (E_call x)
  have "listening p s" using assms(1) by (simp add: running_def)
  have "sound (alive en p V) (user_call en (run_cb d en (calm_part usr)) x s)"
    by (rule sound_mono [OF calm.call_relays [OF _ \<open>listening p s\<close>]])
      (use assms(2) E_call running_relay [OF assms(1)] aliveI(1) in auto)
  with E_call show ?thesis by (simp add: tls_event_def)
qed (simp_all add: tls_event_def s_recv_def s_sent_def s_poll_def result_alive recv_alive sent_alive
    poll_alive error_alive assms running_simps(2) [OF assms(1)])

lemma events_alive:
  "alive en p V s \<Longrightarrow> calm_events evs \<Longrightarrow>
    sound (alive en p V) (tls_events en (run_cb d en (calm_part usr)) p evs s)"
proof (induction evs arbitrary: s)
  case (Cons ev evs)
  have "running en p V s" if "c_pcb s \<noteq> None"
    using Cons.prems(1) that by (auto simp: alive_def over_def)
  from sound_rbind [OF event_alive [OF this] Cons.IH] Cons.prems show ?case by simp
qed simp

section \<open>The start\<close>

text \<open>
  An engine that was given nothing by the peer since it was set up has not completed its
  handshake: there is no application data to take and none is accepted.
\<close>

primrec unfed :: "pcb \<Rightarrow> hist \<Rightarrow> bool" where
  "unfed p [] = False"
| "unfed p (a # h) = (case a of
     A_br_client_init q k \<Rightarrow> q = p \<or> unfed p h
   | A_br_recvrec q bs \<Rightarrow> q \<noteq> p \<and> unfed p h
   | _ \<Rightarrow> unfed p h)"

definition silent_engine :: "env \<Rightarrow> pcb \<Rightarrow> bool" where
  "silent_engine en p \<longleftrightarrow> (\<forall>h. unfed p h \<longrightarrow>
     \<not> br_sendapp (b_state en h p) \<and> \<not> br_recvapp (b_state en h p))"

text \<open>A TLS client about to be connected, and a client whose context has no callbacks yet.\<close>

definition unconnected :: "env \<Rightarrow> pcb \<Rightarrow> (pcb \<Rightarrow> hist) \<Rightarrow> conn \<Rightarrow> bool" where
  "unconnected en p V s \<longleftrightarrow> life s = Alive \<and> use_tls s \<and> \<not> handshake_done s \<and> recv_cb s \<and> connect_cb s
     \<and> streams en p V s \<and> connects (log s) = 0"

definition starting :: "env \<Rightarrow> pcb \<Rightarrow> (pcb \<Rightarrow> hist) \<Rightarrow> conn \<Rightarrow> bool" where
  "starting en p V s \<longleftrightarrow> unconnected en p V s \<and> c_pcb s = Some p \<and> \<not> released p (log s) \<and> unfed p (log s)
     \<and> (\<exists>sp. find_ssl_pcb p (ssl s) = Some sp \<and> \<not> sp_is_server sp \<and> \<not> sp_handshake_done sp
          \<and> \<not> sp_on_data sp \<and> \<not> sp_on_handshake sp \<and> \<not> sp_on_error sp)"

lemma starting_send: "starting en p V s \<Longrightarrow> starting en p V (snd (engine_send en p s))"
  by (auto simp: starting_def unconnected_def streams_def engine_send_def set_out_len_def emits_def
      Let_def find_update)

lemma starting_step:
  "starting en p V s \<Longrightarrow> silent_engine en p \<Longrightarrow> sound (\<lambda>(x, s'). starting en p V s') (engine_step en cb p s)"
  using starting_send [of en p V s]
  by (auto simp: engine_step_def Let_def split_beta starting_def [of en p V s] silent_engine_def
      split: option.split)

lemma starting_loop:
  assumes "silent_engine en p"
  shows "starting en p V s \<Longrightarrow> sound (\<lambda>(x, s'). starting en p V s') (engine_loop n en cb p s)"
proof (induction n arbitrary: s)
  case (Suc n)
  have "sound (\<lambda>(x, s'). starting en p V s') (case x of Some e \<Rightarrow> Inr (e, t) | None \<Rightarrow> engine_loop n en cb p t)"
    if "starting en p V t" for x t
    using that Suc.IH [OF that] by (cases x) auto
  then show ?case by (auto intro!: sound_rbind [OF starting_step [OF Suc.prems assms]])
qed simp

lemma starting_process:
  assumes "silent_engine en p" "starting en p V s"
  shows "sound (starting en p V) (process_ssl_engine en cb p s)"
proof -
  have "sound (starting en p V) (case x of Closed \<Rightarrow> Inr t | Idle \<Rightarrow> finish_handshake en cb p t)"
    if "starting en p V t" for x t
    using that assms(1)
    by (cases x) (auto simp: finish_handshake_def Let_def starting_def silent_engine_def)
  then show ?thesis
    unfolding process_ssl_engine_def by (auto intro!: sound_rbind [OF starting_loop [OF assms]])
qed


lemma x509_keeps:
  "unconnected en p V (snd (initClientX509Validator en s)) = unconnected en p V s"
  "c_pcb (snd (initClientX509Validator en s)) = c_pcb s" "ssl (snd (initClientX509Validator en s)) = ssl s"
  "log (snd (initClientX509Validator en s)) = log s"
  by (simp_all add: initClientX509Validator_def unconnected_def streams_def split: option.split)

lemma unconnected_linked:
  "unconnected en p V s \<Longrightarrow> c_pcb s = Some p \<Longrightarrow> \<not> released p (log s) \<Longrightarrow> linked en p V s"
  by (simp add: linked_def unconnected_def)

text \<open>The context of a new client: made and started, or not made at all.\<close>

definition made :: "env \<Rightarrow> pcb \<Rightarrow> (pcb \<Rightarrow> hist) \<Rightarrow> int \<times> conn \<Rightarrow> bool" where
  "made en p V = (\<lambda>(r, s). if r = 0 then starting en p V s else linked en p V s)"

lemma new_context:
  assumes "silent_engine en p" "unconnected en p V s" "c_pcb s = Some p" "\<not> released p (log s)"
  shows "sound (made en p V) (tcp_ssl_new_client en cb (Some p) k s)"
proof -
  let ?t = "emit (A_br_client_init p k) (emit (A_new_ssl p) s)"
  let ?u = "?t\<lparr>ssl := new_ssl_pcb en p False # ssl ?t\<rparr>"
  have "starting en p V ?u"
    using assms(2-4)
    by (simp add: starting_def unconnected_def streams_def new_ssl_pcb_def emit_def)
  then have "sound (made en p V) (rbind (process_ssl_engine en cb p ?u) (\<lambda>s. Inr (0, s)))"
    by (rule sound_rbind [OF starting_process [OF assms(1)]]) (simp add: made_def)
  moreover have "made en p V (-1, s)" "made en p V (-1, emit (A_delete_ssl p) (emit (A_new_ssl p) s))"
    "made en p V (-1, emit (A_delete_ssl p) ?t)"
    using assms(2-4) by (simp_all add: made_def linked_def unconnected_def streams_def emit_def)
  ultimately show ?thesis by (simp add: tcp_ssl_new_client_def Let_def)
qed

lemma installed:
  assumes "starting en p V s"
  shows "running en p V (install_ssl_callbacks p s)" "\<not> connected en (install_ssl_callbacks p s)"
  using assms
  by (auto simp: starting_def unconnected_def running_def listening_def in_step_def streams_def hs_done_def tidy_def
      install_ssl_callbacks_def tcp_ssl_arg_def tcp_ssl_data_def tcp_ssl_handshake_def tcp_ssl_err_def
      connected_def find_update split: option.split)


definition opened :: "env \<Rightarrow> pcb \<Rightarrow> (pcb \<Rightarrow> hist) \<Rightarrow> bool \<times> conn \<Rightarrow> bool" where
  "opened en p V = (\<lambda>(go, s). if go then running en p V s \<and> \<not> connected en s else over en p V s)"

lemma start_tls_opened:
  assumes "silent_engine en p" "unconnected en p V s" "c_pcb s = Some p" "\<not> released p (log s)"
  shows "sound (opened en p V) (start_tls en (run_cb d en (calm_part usr)) s)"
proof -
  let ?cb = "run_cb d en (calm_part usr)"
  obtain valid t where t: "initClientX509Validator en s = (valid, t)" by fastforce
  then have u: "unconnected en p V t" "c_pcb t = Some p" "\<not> released p (log t)"
    using x509_keeps(1) [of en p V s] x509_keeps(2,4) [of en s] assms(2-4) by simp_all
  let ?rest = "\<lambda>(err :: int, s). if err \<noteq> 0 then rbind (do_close en ?cb s) (\<lambda>s. Inr (False, s))
      else Inr (True, case c_pcb s of None \<Rightarrow> s | Some p \<Rightarrow> install_ssl_callbacks p s)"
  have closed: "sound (opened en p V) (rbind (do_close en ?cb v) (\<lambda>s. Inr (False, s)))" if "linked en p V v" for v
    by (rule sound_rbind [OF close_over [OF that]]) (simp add: opened_def)
  show ?thesis
  proof (cases valid)
    case True
    have "sound (opened en p V) (?rest r)" if "made en p V r" for r
    proof (cases "fst r = 0")
      case True
      with that have "starting en p V (snd r)" by (simp add: made_def split_beta)
      with True installed [OF this] show ?thesis
        by (simp add: split_beta opened_def) (simp add: starting_def)
    next
      case False
      with that closed [of "snd r"] show ?thesis by (simp add: made_def split_beta)
    qed
    then have "sound (opened en p V) (rbind (tcp_ssl_new_client en (client_ssl_cb ?cb) (Some p) (x509_choice t) t) ?rest)"
      by (rule sound_rbind [OF new_context [OF assms(1) u]])
    with True t u show ?thesis by (simp add: start_tls_def touch_def unconnected_def)
  next
    case False
    have "sound (opened en p V) (touch v (rbind (tcp_ssl_new_client en (client_ssl_cb ?cb) (c_pcb v) k v) ?rest))"
      if "over en p V v" for v k
      using that by (simp add: over_def touch_def tcp_ssl_new_client_def do_close_def opened_def)
    with False t show ?thesis
      by (auto simp: start_tls_def intro!: sound_rbind [OF close_over [OF unconnected_linked [OF u]]])
  qed
qed

lemma connected_alive:
  assumes "silent_engine en p" "unconnected en p (others p h) s" "log s = h"
  shows "sound (alive en p (others p h)) (client_connected en (run_cb d en (calm_part usr)) (Some p) ERR_OK s)"
proof -
  let ?V = "others p h"
  let ?s = "emits [A_setprio p, A_recv_fn p True, A_sent_fn p True, A_poll_fn p True]
    ((emit A_millis (s\<lparr>c_pcb := Some p, pcb_busy := False\<rparr>))\<lparr>rx_last_packet := e_millis en (log s)\<rparr>)"
  have s: "unconnected en p ?V ?s" "c_pcb ?s = Some p" "\<not> released p (log ?s)" "use_tls ?s"
    using assms(2) by (simp_all add: unconnected_def streams_def log_defs)
  have "sound (alive en p ?V) (if go then invoke_if (connect_cb t \<and> connected en t)
      (run_cb d en (calm_part usr)) CB_connect t else Inr t)" if "opened en p ?V (go, t)" for go t
    using that by (auto simp: opened_def alive_def invoke_if_def split: if_splits)
  with s(4) show ?thesis
    by (auto simp: client_connected_def Let_def millis_def intro!: sound_rbind [OF start_tls_opened [OF assms(1) s(1-3)]])
qed


lemma connection_alive:
  assumes "silent_engine en p" "unconnected en p (others p (log s)) s" "calm_events evs"
  shows "sound (alive en p (others p (log s))) (tls_connection en (run_cb d en (calm_part usr)) p evs s)"
proof -
  have "sound (alive en p (others p (log s)))
      (case callback_result t of (e, t) \<Rightarrow> tls_events en (run_cb d en (calm_part usr)) p evs t)"
    if "alive en p (others p (log s)) t" for t
    using result_alive [of en p "others p (log s)" "Inr t"] that events_alive [of en p "others p (log s)" _ evs d usr] assms(3)
    by (simp split: prod.splits)
  moreover have "life s = Alive" using assms(2) by (simp add: unconnected_def)
  ultimately show ?thesis
    by (simp add: tls_connection_def s_connected_def)
      (rule sound_rbind [OF sound_rbind [OF connected_alive [OF assms(1,2) refl]]], auto)
qed

lemma connection_sound:
  assumes "\<forall>ev h. \<forall>x\<in>set (usr ev h). calm_op x" "silent_engine en p"
    and "c_pcb s = None" "life s = Alive" "recv_cb s" "connect_cb s"
    and "streams en p (others p (log s)) s" "connects (log s) = 0"
    and "e_new en (log s) = Some p" "connect_ip en addr port True s = (True, s1)" "calm_events evs"
  shows "sound (\<lambda>s'. streams en p (others p (log s)) s'
      \<and> (c_pcb s' = None \<or> listening p s' \<and> in_step en p s')) (tls_connection en (run_cb d en usr) p evs s1)"
proof -
  have log: "others p (log s1) = others p (log s)" and s1: "unconnected en p (others p (log s1)) s1"
    using assms(3-10)
    by (auto simp: connect_ip_idle connect_calls_def unconnected_def streams_def)
  have "streams en p V t \<and> (c_pcb t = None \<or> listening p t \<and> in_step en p t)" if "alive en p V t" for t V
    using that running_streams by (auto simp: alive_def running_def over_def)
  with connection_alive [OF assms(2) s1 assms(11), of d usr] show ?thesis
    unfolding calm_part_id [OF assms(1)] log by (rule sound_mono)
qed

text \<open>
  C6: a TLS connection relays faithfully, from \<open>connect\<close> to its end.  After
  \<open>connect(ip, port, true)\<close> and the \<open>connected\<close> callback, over any sequence of received
  packets, acknowledgements, polls, errors and calls of the sketch, with a sketch that writes,
  acknowledges and sets options, and with every nesting of handlers: all that the engine
  decrypts reaches \<open>onData\<close>, in order and once; all records it produces reach
  \<open>tcp_write\<close>, in order and once; \<open>onConnect\<close> runs at most once, and while the
  connection lasts it has run exactly if the handshake is done; no call is made on the
  pcb of another connection, none on a pcb that was given back; and no deleted context,
  client or handler is used.  The engine is only assumed not to complete a handshake before
  it was fed anything.  (A connection need not return if handlers nest endlessly or the
  engine never rests; the theorem at the end of this theory is about when it does.)
\<close>

theorem tls_connection_relays:
  assumes "\<forall>ev h. \<forall>x\<in>set (usr ev h). calm_op x" "silent_engine en p"
    and "c_pcb s = None" "life s = Alive" "recv_cb s" "connect_cb s"
    and "streams en p (others p (log s)) s" "connects (log s) = 0"
    and "e_new en (log s) = Some p" "connect_ip en addr port True s = (True, s1)" "calm_events evs"
  shows "sound (\<lambda>s'. streams en p (others p (log s)) s'
      \<and> (c_pcb s' = None \<or> listening p s' \<and> in_step en p s')) (tls_connection en (run_cb d en usr) p evs s1)"
  using assms by (rule connection_sound)

text \<open>A platform with a peer that completes the handshake with its first packet.\<close>

definition connection_env :: env where
  "connection_env = quiet_env\<lparr>
     b_state := (\<lambda>h p. \<lparr>br_closed = False, br_sendapp = \<not> unfed p h, br_recvapp = \<not> unfed p h\<rparr>),
     b_recvapp_buf := (\<lambda>h p. if unfed p h \<or> A_br_recvapp_ack p 2 \<in> set h then [] else [104, 105]),
     b_sendrec_buf := (\<lambda>h p. if A_br_sendrec_ack p 3 \<in> set h then [] else [1, 2, 3]),
     in_size := 4, out_size := 4, loop_fuel := 3\<rparr>"

definition tls_idle :: conn where
  "tls_idle = mem0\<lparr>recv_cb := True, connect_cb := True, ssl_auth_mode := SSL_AUTH_INSECURE\<rparr>"

definition tls_connecting :: conn where
  "tls_connecting = snd (connect_ip connection_env 5 443 True tls_idle)"

lemma connection_env_eval:
  "b_state connection_env h p = \<lparr>br_closed = False, br_sendapp = \<not> unfed p h, br_recvapp = \<not> unfed p h\<rparr>"
  "b_recvapp_buf connection_env h p = (if unfed p h \<or> A_br_recvapp_ack p 2 \<in> set h then [] else [104, 105])"
  "b_sendrec_buf connection_env h p = (if A_br_sendrec_ack p 3 \<in> set h then [] else [1, 2, 3])"
  "unat (e_sndbuf connection_env h p) = 512" "in_size connection_env = 4" "out_size connection_env = 4"
  "loop_fuel connection_env = Suc (Suc (Suc 0))" "b_recvrec_room connection_env h p = 64" "b_sendapp_room connection_env h p = 64"
  "e_new connection_env h = Some 7" "e_connect connection_env h = ERR_OK" "e_millis connection_env h = 1000"
  "e_alloc connection_env h" "b_client_reset connection_env h" "e_junk connection_env n = 0"
  "e_state connection_env h p = ESTABLISHED"
  by (simp_all add: connection_env_def quiet_env_def numeral_3_eq_3)

lemma feed_loops: "ASYNC_TCP_SSL_MAX_FEED_LOOPS = Suc (Suc (Suc (Suc (Suc (Suc (Suc (Suc (Suc (Suc 0)))))))))"
  by (simp add: ASYNC_TCP_SSL_MAX_FEED_LOOPS_def eval_nat_numeral)

lemma connection_env_space:
  "c_pcb s = Some p \<Longrightarrow> use_tls s \<Longrightarrow> handshake_done s \<Longrightarrow> (space connection_env s = 0) = False"
  by (simp add: space_def connected_def connection_env_def quiet_env_def)

lemma connection_started:
  "connect_ip connection_env 5 443 True tls_idle = (True, tls_connecting)"
  by (simp add: tls_connecting_def connect_ip_idle connection_env_eval tls_idle_def mem0_def)

lemma connection_example:
  "case tls_connection connection_env (run_cb 1 connection_env (\<lambda>ev h. [])) 7
      [E_poll, E_recv (packet [5, 6, 7]), E_call (Op_write (Some [9]) 0)] tls_connecting of
     Inl e \<Rightarrow> False
   | Inr s' \<Rightarrow> app_in connection_env 7 (log s') = [104, 105] \<and> records connection_env 7 (log s') = [1, 2, 3]
       \<and> c_pcb s' = Some 7 \<and> hs_done 7 (ssl s')"
  by (simp add: tls_connection_def tls_event_def tls_connecting_def connect_ip_idle connection_env_eval
      tls_idle_def mem0_def packet_def connect_calls_def s_connected_def client_connected_def start_tls_def
      initClientX509Validator_def x509_choice_def insecure_modes_def auth_mode_defs
      tcp_ssl_new_client_def new_ssl_pcb_def install_ssl_callbacks_def tcp_ssl_arg_def tcp_ssl_data_def
      tcp_ssl_handshake_def tcp_ssl_err_def callback_result_def tracker_defs new_tracker_def
      s_poll_def client_poll_def s_recv_def client_recv_def millis_def set_close_error_def
      chain_bytes_def tot_len_def tcp_ssl_read_def ssl_feed_def accum_copy_def accum_shift_def
      process_ssl_engine_def engine_step_def engine_send_def finish_handshake_def set_out_len_def set_in_len_def
      emits_def emit_def Let_def feed_loops accum_loop.simps connection_env_space
      client_ssl_cb_def invoke_if_def invoke_def touch_def user_call_def client_write_def add_def tcp_ssl_write_def send_def
      hs_done_def connected_def upt_rec TCP_SSL_HANDSHAKE_TIMEOUT_def)


lemma tls_idle_start:
  "c_pcb tls_idle = None" "life tls_idle = Alive" "recv_cb tls_idle" "connect_cb tls_idle"
  "streams connection_env 7 (others 7 (log tls_idle)) tls_idle" "connects (log tls_idle) = 0"
  "e_new connection_env (log tls_idle) = Some 7" "silent_engine connection_env 7"
  by (simp_all add: tls_idle_def mem0_def streams_def connection_env_eval silent_engine_def)

theorem tls_connection_relays_witness:
  "\<exists>s'. tls_connection connection_env (run_cb 1 connection_env (\<lambda>ev h. [])) 7
      [E_poll, E_recv (packet [5, 6, 7]), E_call (Op_write (Some [9]) 0)] tls_connecting = Inr s'
    \<and> delivered (log s') = [104, 105] \<and> written 7 (log s') = [1, 2, 3] \<and> connects (log s') = 1"
proof -
  have "\<forall>ev h. \<forall>x\<in>set ((\<lambda>ev h. []) (ev :: cb_ev) (h :: hist)). calm_op x" by simp
  moreover have "calm_events [E_poll, E_recv (packet [5, 6, 7]), E_call (Op_write (Some [9]) 0)]" by simp
  ultimately have relays: "sound (\<lambda>s'. streams connection_env 7 (others 7 (log tls_idle)) s'
      \<and> (c_pcb s' = None \<or> listening 7 s' \<and> in_step connection_env 7 s'))
    (tls_connection connection_env (run_cb 1 connection_env (\<lambda>ev h. [])) 7
      [E_poll, E_recv (packet [5, 6, 7]), E_call (Op_write (Some [9]) 0)] tls_connecting)"
    by (rule tls_connection_relays [OF _ tls_idle_start(8,1-7) connection_started])
  obtain s' where s': "tls_connection connection_env (run_cb 1 connection_env (\<lambda>ev h. [])) 7
      [E_poll, E_recv (packet [5, 6, 7]), E_call (Op_write (Some [9]) 0)] tls_connecting = Inr s'"
    "app_in connection_env 7 (log s') = [104, 105]" "records connection_env 7 (log s') = [1, 2, 3]"
    "c_pcb s' = Some 7" "hs_done 7 (ssl s')"
    using connection_example by (auto split: sum.splits)
  then show ?thesis using relays unfolding s'(1) by (auto simp: in_step_def)
qed

section \<open>The connection returns\<close>

text \<open>
  The engine has less than \<open>loop_fuel\<close> units of work at any time, every piece of data or
  record taken from it is at least one, and calls that are not made to it give it none.
\<close>

fun engine_act :: "act \<Rightarrow> bool" where
  "engine_act (A_br_client_init p k) = True"
| "engine_act (A_br_server_init p b) = True"
| "engine_act (A_br_recvapp_ack p n) = True"
| "engine_act (A_br_sendrec_ack p n) = True"
| "engine_act (A_br_sendapp p bs) = True"
| "engine_act (A_br_flush p) = True"
| "engine_act (A_br_recvrec p bs) = True"
| "engine_act _ = False"

definition comes_to_rest :: "env \<Rightarrow> pcb \<Rightarrow> (hist \<Rightarrow> nat) \<Rightarrow> bool" where
  "comes_to_rest en p m \<longleftrightarrow> (\<forall>h. m h < loop_fuel en) \<and> (\<forall>a h. \<not> engine_act a \<longrightarrow> m (a # h) \<le> m h)
     \<and> (\<forall>h. b_recvapp_buf en h p \<noteq> [] \<longrightarrow> m (A_br_recvapp_ack p (length (b_recvapp_buf en h p)) # h) < m h)
     \<and> (\<forall>h. b_sendrec_buf en h p \<noteq> [] \<longrightarrow>
          m (A_br_sendrec_ack p (length (b_sendrec_buf en h p)) # A_tcp_write p (b_sendrec_buf en h p) 1 # h) < m h)"

text \<open>Handlers that acknowledge and set options, but give the engine nothing to encrypt.\<close>

fun quiet_op :: "api_op \<Rightarrow> bool" where
  "quiet_op (Op_add _ _) = False"
| "quiet_op (Op_write _ _) = False"
| "quiet_op (Op_write_cstr _) = False"
| "quiet_op x = calm_op x"

lemma quiet_calm: "quiet_op x \<Longrightarrow> calm_op x"
  by (cases x) simp_all

lemma quiet_call:
  assumes "quiet_op x" "\<forall>a h. \<not> engine_act a \<longrightarrow> m (a # h) \<le> m h"
  shows "user_call en cb x s \<noteq> Inl No_return \<and> (\<forall>s'. user_call en cb x s = Inr s' \<longrightarrow> m (log s') \<le> (m (log s) :: nat) \<and> c_pcb s' = c_pcb s)"
proof -
  have "m (A_millis # A_tcp_output po # h) \<le> m h" for po h
    by (rule le_trans [of _ "m (A_tcp_output po # h)"]) (use assms(2) in auto)
  with assms show ?thesis
    by (cases x) (auto simp: user_call_def send_def ack_def ackLater_def setNoDelay_def setRxTimeout_def
        setAckTimeout_def Let_def log_defs split: option.split)
qed

text \<open>
  \<open>settles m s r\<close>: the call returns, and what it leaves gives the engine no new work and is
  the same connection.
\<close>

definition settles :: "(hist \<Rightarrow> nat) \<Rightarrow> conn \<Rightarrow> conn res \<Rightarrow> bool" where
  "settles m s r \<longleftrightarrow> r \<noteq> Inl No_return \<and> (\<forall>s'. r = Inr s' \<longrightarrow> m (log s') \<le> m (log s) \<and> c_pcb s' = c_pcb s)"

lemma settles_simps [simp]:
  "settles m s (Inl e) \<longleftrightarrow> e \<noteq> No_return" "settles m s (Inr t) \<longleftrightarrow> m (log t) \<le> m (log s) \<and> c_pcb t = c_pcb s"
  by (simp_all add: settles_def)

lemma settles_rbind:
  "settles m s r \<Longrightarrow> (\<And>t. m (log t) \<le> m (log s) \<Longrightarrow> c_pcb t = c_pcb s \<Longrightarrow> settles m s (f t)) \<Longrightarrow> settles m s (rbind r f)"
  by (cases r) auto

lemma quiet_script:
  assumes "\<forall>a h. \<not> engine_act a \<longrightarrow> m (a # h) \<le> m h"
  shows "\<forall>x\<in>set xs. quiet_op x \<Longrightarrow> m (log s) \<le> m (log s0) \<Longrightarrow> c_pcb s = c_pcb s0
    \<Longrightarrow> settles m s0 (run_script en cb xs s)"
proof (induction xs arbitrary: s)
  case (Cons x xs)
  have "settles m s0 (user_call en cb x s)"
    using quiet_call [OF _ assms, of x en cb s] Cons.prems by (auto simp: settles_def intro: le_trans)
  from settles_rbind [OF this Cons.IH] Cons.prems(1) show ?case by simp
qed simp

lemma quiet_handler:
  assumes "\<forall>ev h. \<forall>x\<in>set (usr ev h). quiet_op x" "comes_to_rest en p m"
  shows "settles m s (run_cb (Suc d) en usr ev s)"
  using quiet_script [of m "usr ev (log s)" s s] assms by (simp add: comes_to_rest_def)

lemma quiet_ssl_handler:
  assumes "\<forall>ev h. \<forall>x\<in>set (usr ev h). quiet_op x" "comes_to_rest en p m"
  shows "settles m s (client_ssl_cb (run_cb (Suc d) en usr) ev s)"
proof -
  have "settles m s (invoke_if b (run_cb (Suc d) en usr) e t)" if "log t = log s" "c_pcb t = c_pcb s" for b e t
  proof -
    have "m (A_cb e # log s) \<le> m (log s)" using assms(2) by (simp add: comes_to_rest_def)
    with quiet_handler [OF assms, of "emit (A_cb e) t" d e] that show ?thesis
      by (auto simp: settles_def invoke_if_def invoke_def emit_def simp del: run_cb.simps)
  qed
  then show ?thesis by (cases ev) (simp_all add: client_ssl_cb_def touch_def)
qed

text \<open>From here on only whether a call returns matters.\<close>

definition returns :: "'a res \<Rightarrow> bool" where
  "returns r \<longleftrightarrow> r \<noteq> Inl No_return"

lemma returns_simps [simp]: "returns (Inl e) \<longleftrightarrow> e \<noteq> No_return" "returns (Inr a)"
  by (simp_all add: returns_def)

lemma returns_rbind: "returns r \<Longrightarrow> (\<And>a. returns (f a)) \<Longrightarrow> returns (rbind r f)"
  by (cases r) auto

lemma returns_touch: "returns r \<Longrightarrow> returns (touch s r)"
  by (simp add: touch_def)

lemma returns_if: "(c \<Longrightarrow> returns a) \<Longrightarrow> (\<not> c \<Longrightarrow> returns b) \<Longrightarrow> returns (if c then a else b)"
  by simp

lemmas returns_intros = returns_rbind returns_touch returns_if

text \<open>Handlers \<open>cb\<close> that return, and rounds of the engine that return.\<close>

definition returning :: "env \<Rightarrow> pcb \<Rightarrow> user \<Rightarrow> bool" where
  "returning en p cb \<longleftrightarrow> (\<forall>ev s. returns (cb ev s) \<and> (\<forall>t. cb ev s = Inr t \<longrightarrow> c_pcb t = c_pcb s)) \<and> (\<forall>s. returns (process_ssl_engine en (client_ssl_cb cb) p s))"

lemma returningD:
  assumes "returning en p cb"
  shows "returns (cb ev s)" "returns (process_ssl_engine en (client_ssl_cb cb) p s)"
  using assms by (simp_all add: returning_def)

lemma invoke_returns: "returning en p cb \<Longrightarrow> returns (invoke_if b cb ev s)"
  by (simp add: invoke_if_def invoke_def returningD)

lemma do_error_returns: "returning en p cb \<Longrightarrow> returns (do_error cb e s)"
  by (simp add: do_error_def Let_def returns_intros invoke_returns)

lemma close_returns: "returning en p cb \<Longrightarrow> returns (do_close en cb s)"
  by (auto simp: do_close_def abort_def s_error_def Let_def invoke_returns do_error_returns
      intro!: returns_intros split: option.split)

lemma accum_returns:
  assumes "returning en p cb"
  shows "returns (accum_loop en (client_ssl_cb cb) p rest s)"
proof (induction rest arbitrary: s rule: length_induct)
  case (1 rest)
  then show ?case
    by (subst accum_loop.simps)
      (auto simp: Let_def returningD [OF assms] intro!: returns_intros split: option.split)
qed

lemma feed_returns:
  assumes "returning en p cb"
  shows "returns (feed_loop k en (client_ssl_cb cb) p l c s)"
proof (induction k arbitrary: c s)
  case (Suc k)
  show ?case by (auto simp: Let_def Suc.IH returningD [OF assms] intro!: returns_intros split: option.split)
qed simp

lemma read_returns: "returning en p cb \<Longrightarrow> returns (tcp_ssl_read en (client_ssl_cb cb) p pb s)"
  by (auto simp: tcp_ssl_read_def ssl_feed_def Let_def returningD accum_returns feed_returns
      intro!: returns_intros split: option.split prod.split)

lemma calm_call_returns:
  assumes "returning en p cb" "c_pcb s = Some p" "calm_op x"
  shows "returns (user_call en cb x s)"
proof -
  have "returns (tcp_ssl_write en (client_ssl_cb cb) p bs s)" for bs
    by (auto simp: tcp_ssl_write_def Let_def returningD [OF assms(1)] intro!: returns_intros split: option.split)
  then have add: "returns (add en cb d f s)" for d f
    by (auto simp: add_def Let_def assms(2) close_returns [OF assms(1)]
        intro!: returns_intros split: option.split prod.split)
  then have wr: "returns (client_write en cb d f s)" for d f
    by (auto simp: client_write_def intro!: returns_intros split: prod.split)
  from assms(3) add wr show ?thesis
    by (cases x) (auto simp: user_call_def write_cstr_def intro!: returns_intros split: option.split)
qed

lemma closed_no_pcb:
  assumes "returning en p cb" "do_close en cb s = Inr t"
  shows "c_pcb t = None"
  using assms
  by (auto simp: do_close_def returning_def invoke_if_def invoke_def emit_def Let_def rbind_eq_Inr split: option.splits if_splits)

lemma connected_returns:
  assumes "returning en p cb"
  shows "returns (client_connected en cb (Some p) ERR_OK s)"
proof -
  let ?rest = "\<lambda>(err :: int, s). if err \<noteq> 0 then rbind (do_close en cb s) (\<lambda>s. Inr (False, s))
      else Inr (True, case c_pcb s of None \<Rightarrow> s | Some p \<Rightarrow> install_ssl_callbacks p s)"
  have ctx: "returns (rbind (tcp_ssl_new_client en (client_ssl_cb cb) (c_pcb t) k t) ?rest)"
    if "c_pcb t = Some p \<or> c_pcb t = None" for t k
    using that by (auto simp: tcp_ssl_new_client_def Let_def returningD [OF assms] close_returns [OF assms]
        intro!: returns_intros)
  have "returns (start_tls en cb t)" if "c_pcb t = Some p" for t
  proof (cases "initClientX509Validator en t")
    case (Pair valid u)
    have u: "c_pcb u = Some p" using x509_keeps(2) [of en t] Pair that by simp
    have closed: "returns (rbind (do_close en cb u) (\<lambda>s. touch s
      (rbind (tcp_ssl_new_client en (client_ssl_cb cb) (c_pcb s) (x509_choice s) s) ?rest)))"
    proof (cases "do_close en cb u")
      case (Inr v)
      from ctx [of v "x509_choice v"] closed_no_pcb [OF assms Inr] Inr show ?thesis
        by (simp add: returns_touch)
    qed (use close_returns [OF assms, of u] in simp)
    with Pair u ctx [of u "x509_choice u"] show ?thesis by (auto simp: start_tls_def intro: returns_touch)
  qed
  then show ?thesis
    by (auto simp: client_connected_def Let_def invoke_returns [OF assms] emits_def millis_def emit_def
        intro!: returns_intros)
qed

lemma recv_loop_returns:
  assumes "returning en p cb"
  shows "returns (recv_loop en cb p pb s)"
proof (induction pb arbitrary: s)
  case (Cons b pb)
  then show ?case
    by (auto simp: Let_def deliver_def invoke_def returningD [OF assms] intro!: returns_intros)
qed simp

lemma event_returns:
  assumes "returning en p cb" "c_pcb s = Some p" "\<forall>x. ev = E_call x \<longrightarrow> calm_op x"
  shows "returns (tls_event en cb p ev s)"
  using assms(3)
  by (cases ev) (auto simp: tls_event_def s_recv_def s_sent_def s_poll_def client_recv_def client_sent_def
      client_poll_def s_error_def Let_def invoke_returns [OF assms(1)] returningD [OF assms(1)]
      close_returns [OF assms(1)] do_error_returns [OF assms(1)] read_returns [OF assms(1)]
      calm_call_returns [OF assms(1,2)] recv_loop_returns [OF assms(1)] invoke_def
      intro!: returns_intros split: prod.split)

lemma quiet_returning:
  assumes "\<forall>ev h. \<forall>x\<in>set (usr ev h). quiet_op x" "comes_to_rest en p m"
  shows "returning en p (run_cb (Suc d) en usr)"
proof -
  let ?cb = "run_cb (Suc d) en usr"
  have "process_ssl_engine en (client_ssl_cb ?cb) p s \<noteq> Inl No_return" for s :: conn
  proof (rule engine_loop_terminates)
    show "m (A_br_recvapp_ack p (length (b_recvapp_buf en h p)) # h) < m h" if "b_recvapp_buf en h p \<noteq> []" for h
      using assms(2) that by (simp add: comes_to_rest_def)
    show "m (A_tcp_output (Some p) # A_br_sendrec_ack p (length (b_sendrec_buf en h p))
        # A_tcp_write p (b_sendrec_buf en h p) 1 # h) < m h" if "b_sendrec_buf en h p \<noteq> []" for h
      by (rule le_less_trans [of _ "m (A_br_sendrec_ack p (length (b_sendrec_buf en h p))
        # A_tcp_write p (b_sendrec_buf en h p) 1 # h)"]) (use assms(2) that in \<open>simp_all add: comes_to_rest_def\<close>)
    show "m (log s) < loop_fuel en" using assms(2) by (simp add: comes_to_rest_def)
  qed (use quiet_ssl_handler [OF assms, of _ d] in \<open>simp_all add: settles_def del: run_cb.simps\<close>)
  with quiet_handler [OF assms, of _ d] show ?thesis
    by (simp add: returning_def returns_def settles_def del: run_cb.simps)
qed

lemma events_complete:
  assumes "returning en p (run_cb d en (calm_part usr))"
  shows "alive en p V s \<Longrightarrow> calm_events evs \<Longrightarrow> returns (tls_events en (run_cb d en (calm_part usr)) p evs s)"
proof (induction evs arbitrary: s)
  case (Cons ev evs)
  show ?case
  proof (cases "c_pcb s = None")
    case False
    then have s: "running en p V s" using Cons.prems(1) by (auto simp: alive_def over_def)
    have ev: "\<forall>x. ev = E_call x \<longrightarrow> calm_op x" "calm_events evs" using Cons.prems(2) by simp_all
    note ret = event_returns [OF assms running_simps(1) [OF s] ev(1)]
    note step = event_alive [OF s ev(1), of d usr]
    show ?thesis
    proof (cases "tls_event en (run_cb d en (calm_part usr)) p ev s")
      case (Inl e)
      with False ret show ?thesis by simp
    next
      case (Inr t)
      with False step Cons.IH [of t] ev(2) show ?thesis by simp
    qed
  qed simp
qed simp

text \<open>
  C7: a TLS connection completes.  If moreover the engine comes to rest whenever nothing
  is done to it, and the handlers only acknowledge and set options, then the connection
  returns from every one of its events, within the fuel of the engine loop, with the
  streams relayed.
\<close>

theorem tls_connection_completes:
  assumes "\<forall>ev h. \<forall>x\<in>set (usr ev h). quiet_op x" "silent_engine en p" "comes_to_rest en p m"
    and "c_pcb s = None" "life s = Alive" "recv_cb s" "connect_cb s"
    and "streams en p (others p (log s)) s" "connects (log s) = 0"
    and "e_new en (log s) = Some p" "connect_ip en addr port True s = (True, s1)" "calm_events evs"
  shows "\<exists>s'. tls_connection en (run_cb (Suc d) en usr) p evs s1 = Inr s' \<and> streams en p (others p (log s)) s'
    \<and> (c_pcb s' = None \<or> listening p s' \<and> in_step en p s')"
proof -
  have calm: "\<forall>ev h. \<forall>x\<in>set (usr ev h). calm_op x" using assms(1) quiet_calm by blast
  let ?cb = "run_cb (Suc d) en (calm_part usr)"
  have ret: "returning en p ?cb"
    using quiet_returning [OF assms(1,3), of d] by (simp only: calm_part_id [OF calm])
  have s1: "use_tls s1" "life s1 = Alive" "unconnected en p (others p (log s1)) s1"
    using assms(4-11) by (auto simp: connect_ip_idle connect_calls_def unconnected_def streams_def)
  note start = connected_alive [OF assms(2) s1(3) refl, of "Suc d" usr]
  have "returns (tls_connection en ?cb p evs s1)"
  proof (cases "client_connected en ?cb (Some p) ERR_OK s1")
    case (Inl e)
    with connected_returns [OF ret, of s1] s1(2) show ?thesis by (simp add: tls_connection_def s_connected_def del: run_cb.simps)
  next
    case (Inr t)
    then have "alive en p (others p (log s1)) (snd (callback_result t))"
      using start result_alive [of en p "others p (log s1)" "Inr t"] by (simp add: split_beta del: run_cb.simps)
    from events_complete [OF ret this assms(12)] Inr s1(2) show ?thesis
      by (simp add: tls_connection_def s_connected_def split_beta del: run_cb.simps)
  qed
  with connection_sound [OF calm assms(2,4-12), of "Suc d"] show ?thesis
    unfolding calm_part_id [OF calm]
    by (cases "tls_connection en (run_cb (Suc d) en usr) p evs s1") (simp_all del: run_cb.simps)
qed

theorem tls_connection_completes_witness:
  "\<exists>s'. tls_connection connection_env (run_cb 1 connection_env (\<lambda>ev h. [Op_ackLater])) 7
      [E_recv (packet [5]), E_sent 3, E_poll, E_call (Op_write (Some [9]) 0), E_recv []] tls_connecting = Inr s'
    \<and> delivered (log s') = app_in connection_env 7 (log s')"
proof -
  let ?m = "\<lambda>h. (if A_br_recvapp_ack 7 2 \<in> set h then 0 else 1) + (if A_br_sendrec_ack 7 3 \<in> set h then 0 else 1) :: nat"
  have "comes_to_rest connection_env 7 ?m"
    by (auto simp: comes_to_rest_def connection_env_eval split: if_splits)
  moreover have "\<forall>ev h. \<forall>x\<in>set ((\<lambda>ev h. [Op_ackLater]) (ev :: cb_ev) (h :: hist)). quiet_op x" by simp
  ultimately show ?thesis
    using tls_connection_completes [OF _ tls_idle_start(8) _ tls_idle_start(1-7) connection_started,
        of "\<lambda>ev h. [Op_ackLater]" ?m "[E_recv (packet [5]), E_sent 3, E_poll, E_call (Op_write (Some [9]) 0), E_recv []]" 0]
    by (auto simp: streams_def simp del: run_cb.simps)
qed

end
