(* ===== verification/Exchange.thy ===== *)
theory Exchange
  imports TlsRelay
begin

text \<open>
  The byte accounting of a plain connection over whole exchanges: what was received, given
  to \<open>onData\<close> and given back to the window, and what was written, acknowledged and
  reported to \<open>onAck\<close>, for any order of callbacks and of the API calls named below.
\<close>

section \<open>Totals of a history\<close>

text \<open>The window given back to lwIP, and the bytes reported to \<open>onAck\<close>.\<close>

primrec window :: "pcb \<Rightarrow> hist \<Rightarrow> u32" where
  "window p [] = 0"
| "window p (a # h) = (case a of
     A_tcp_recved po n \<Rightarrow> if po = Some p then window p h + n else window p h | _ \<Rightarrow> window p h)"

primrec reported :: "hist \<Rightarrow> u32" where
  "reported [] = 0"
| "reported (a # h) = (case a of A_cb (CB_ack n t) \<Rightarrow> reported h + n | _ \<Rightarrow> reported h)"

text \<open>The bytes \<open>tcp_write\<close> took.\<close>

primrec accepted :: "env \<Rightarrow> pcb \<Rightarrow> hist \<Rightarrow> byte list" where
  "accepted en p [] = []"
| "accepted en p (a # h) = (case a of
     A_tcp_write q bs f \<Rightarrow> if q = p \<and> e_write en h = ERR_OK then accepted en p h @ bs else accepted en p h
   | _ \<Rightarrow> accepted en p h)"

section \<open>The balance\<close>

text \<open>
  A plain client with data and ack handlers; \<open>r\<close> was received, of which \<open>w\<close> bytes are
  neither given back nor kept for \<open>ack\<close>, and \<open>x\<close> bytes were given back twice; \<open>k\<close> bytes were acknowledged, of which \<open>q\<close> were
  reported and \<open>a\<close> are counted for the next report.
\<close>

definition balanced :: "env \<Rightarrow> pcb \<Rightarrow> u32 \<Rightarrow> byte list \<Rightarrow> nat \<Rightarrow> u32 \<Rightarrow> u32 \<Rightarrow> u32 \<Rightarrow> conn \<Rightarrow> bool" where
  "balanced en p x r k w q a s \<longleftrightarrow> life s = Alive \<and> \<not> use_tls s \<and> c_pcb s = Some p \<and> hasClient (trk s)
     \<and> recv_cb s \<and> \<not> pb_cb s \<and> sent_cb s
     \<and> delivered (log s) = r \<and> window p (log s) + rx_ack_len s + w = of_nat (length r) + x
     \<and> of_nat (length (accepted en p (log s))) = of_nat k + tx_unacked_len s
     \<and> reported (log s) = q \<and> tx_acked_len s = a"

text \<open>
  Between the callbacks everything is accounted for: received bytes are delivered and either
  given back or postponed, written bytes are acknowledged or outstanding, acknowledged ones
  reported or counted.
\<close>

definition settled :: "env \<Rightarrow> pcb \<Rightarrow> u32 \<Rightarrow> byte list \<Rightarrow> nat \<Rightarrow> conn \<Rightarrow> bool" where
  "settled en p x r k s \<longleftrightarrow> (\<exists>q a. balanced en p x r k 0 q a s \<and> q + a = of_nat k)"

lemma balanced_upd:
  "balanced en p x r k w q a (s\<lparr>rx_last_packet := n\<rparr>) = balanced en p x r k w q a s"
  "balanced en p x r k w q a (s\<lparr>pcb_busy := b\<rparr>) = balanced en p x r k w q a s"
  "balanced en p x r k w q a (s\<lparr>pcb_sent_at := n\<rparr>) = balanced en p x r k w q a s"
  "balanced en p x r k w q a (s\<lparr>ack_pcb := b\<rparr>) = balanced en p x r k w q a s"
  "balanced en p x r k w q a (s\<lparr>recv_pbuf_flags := f\<rparr>) = balanced en p x r k w q a s"
  "balanced en p x r k w q a (s\<lparr>close_pcb := b\<rparr>) = balanced en p x r k w q a s"
  "balanced en p x r k w q a (set_close_error e s) = balanced en p x r k w q a s"
  "balanced en p x r k w q a (emit A_millis s) = balanced en p x r k w q a s"
  "balanced en p x r k w q a (emit (A_pbuf_free ids) s) = balanced en p x r k w q a s"
  by (simp_all add: balanced_def set_close_error_def emit_def)

lemma balanced_trk: "balanced en p x r k w q a s \<Longrightarrow> hasClient t \<Longrightarrow> balanced en p x r k w q a (s\<lparr>trk := t\<rparr>)"
  by (simp add: balanced_def)

section \<open>Calls of the API\<close>

text \<open>
  What a sketch may call, in its handlers and between the callbacks: it writes, acknowledges,
  postpones, sets options and authentication, and replaces its handlers, except those for
  data, packets and acknowledgements.
\<close>

fun exchange_op :: "api_op \<Rightarrow> bool" where
  "exchange_op (Op_on h b) = (h \<notin> {H_data, H_packet, H_ack})"
| "exchange_op (Op_setInsecure b) = True"
| "exchange_op (Op_setKnownKey k u) = True"
| "exchange_op Op_allowSelfSigned = True"
| "exchange_op (Op_setFingerprint f n) = True"
| "exchange_op x = calm_op x"

definition exchange_sketch :: "sketch \<Rightarrow> bool" where
  "exchange_sketch usr \<longleftrightarrow> (\<forall>ev h. \<forall>x\<in>set (usr ev h). exchange_op x)"

lemma add_balanced:
  assumes "balanced en p x r k w q a s"
  shows "ok (\<lambda>(n, t). balanced en p x r k w q a t) (add en cb d f s)"
  using assms
  by (auto simp: balanced_def add_def Let_def emit_def algebra_simps split: option.split)

lemma send_balanced:
  "balanced en p x r k w q a s \<Longrightarrow> balanced en p x r k w q a (snd (send en s))"
  by (simp add: balanced_def send_def Let_def log_defs)

lemma write_balanced:
  assumes "balanced en p x r k w q a s"
  shows "ok (\<lambda>(n, t). balanced en p x r k w q a t) (client_write en cb d f s)"
  unfolding client_write_def
  by (rule ok_rbind [OF add_balanced [OF assms]])
    (use send_balanced in \<open>auto simp: touch_def split: prod.split\<close>, metis snd_conv)

lemma call_balanced:
  assumes "balanced en p x r k w q a s" "exchange_op c"
  shows "ok (balanced en p x r k w q a) (user_call en cb c s)"
proof -
  have alive: "life s \<noteq> Dead" using assms(1) by (simp add: balanced_def)
  have pair: "ok (balanced en p x r k w q a) (rbind m (\<lambda>(_, s). Inr s))"
    if "ok (\<lambda>(n :: nat, t). balanced en p x r k w q a t) m" for m
    by (rule ok_rbind [OF that]) auto
  note wr = pair [OF write_balanced [OF assms(1)]]
  show ?thesis
  proof (cases c)
    case (Op_add d f)
    with alive pair [OF add_balanced [OF assms(1)]] show ?thesis by (simp add: user_call_def)
  next
    case (Op_write d f)
    with alive wr show ?thesis by (simp add: user_call_def)
  next
    case (Op_write_cstr d)
    with alive wr pair [of "Inr (0, s)"] assms(1) show ?thesis
      by (auto simp: user_call_def write_cstr_def split: option.split)
  next
    case (Op_ack n)
    with assms(1) show ?thesis
      by (auto simp: balanced_def user_call_def ack_def Let_def emit_def algebra_simps)
  next
    case Op_send
    with alive send_balanced [OF assms(1)] show ?thesis by (simp add: user_call_def)
  next
    case (Op_on h b)
    with assms show ?thesis by (cases h) (simp_all add: balanced_def user_call_def)
  qed (use assms in \<open>auto simp: balanced_def user_call_def ackLater_def setNoDelay_def setRxTimeout_def
        setAckTimeout_def setInsecure_def setKnownKey_def allowSelfSignedCerts_def
        clearAuthenticationSettings_def setFingerprint_def emit_def Let_def split: option.split\<close>)
qed

text \<open>
  \<open>close(false)\<close> gives back the bytes that were postponed and goes on counting them: they will
  be given back again.
\<close>

lemma close_later_balanced:
  assumes "balanced en p x r k w q a s"
  shows "ok (balanced en p (x + rx_ack_len s) r k w q a) (user_call en cb (Op_close False) s)"
  using assms by (auto simp: balanced_def user_call_def close_def emit_def algebra_simps)

section \<open>Handlers and callbacks\<close>

lemma script_balanced:
  "\<forall>c\<in>set xs. exchange_op c \<Longrightarrow> balanced en p x r k w q a s \<Longrightarrow> ok (balanced en p x r k w q a) (run_script en cb xs s)"
proof (induction xs arbitrary: s)
  case (Cons x xs)
  then show ?case by (auto intro!: ok_rbind [OF call_balanced])
qed simp

text \<open>What the call of a handler adds to the totals.\<close>

lemma invoke_balanced:
  assumes "exchange_sketch usr"
    and "balanced en p x r k w q a (emit (A_cb ev) s)"
  shows "ok (balanced en p x r k w q a) (invoke (run_cb d en usr) ev s)"
proof (cases d)
  case (Suc n)
  with script_balanced [OF _ assms(2), of "usr ev (A_cb ev # log s)" "run_cb n en usr"] assms(1)
  show ?thesis by (simp add: invoke_def exchange_sketch_def)
qed (simp add: invoke_def)

lemma balanced_events:
  "balanced en p x r k 0 q a s \<Longrightarrow> balanced en p x (r @ bs) k (of_nat (length bs)) q a (emit (A_cb (CB_data bs)) s)"
  "balanced en p x r k w q a s \<Longrightarrow> balanced en p x r k w (q + n) a (emit (A_cb (CB_ack n t)) s)"
  "balanced en p x r k w q a s \<Longrightarrow> balanced en p x r k w q a (emit (A_cb (CB_timeout t)) s)"
  "balanced en p x r k w q a s \<Longrightarrow> balanced en p x r k w q a (emit (A_cb CB_poll) s)"
  by (simp_all add: balanced_def emit_def)

lemma deliver_balanced:
  assumes "exchange_sketch usr" "balanced en p x r k 0 q a s"
  shows "ok (balanced en p x (r @ payload b) k 0 q a) (deliver en (run_cb d en usr) p b s)"
proof -
  let ?n = "of_nat (length (payload b)) :: u32"
  let ?s = "s\<lparr>recv_pbuf_flags := pb_flags b\<rparr>"
  have "balanced en p x r k 0 q a ?s" using assms(2) by (simp add: balanced_upd)
  note handled = invoke_balanced [OF assms(1) balanced_events(1) [OF this, of "payload b"], of d]
  have rest: "ok (balanced en p x (r @ payload b) k 0 q a) (if hasClient (trk t)
      then touch t (Inr (if \<not> ack_pcb t then t\<lparr>rx_ack_len := rx_ack_len t + ?n\<rparr>
                         else emit (A_tcp_recved (Some p) ?n) t)) else Inr t)"
    if "balanced en p x (r @ payload b) k ?n q a t" for t
    using that by (auto simp: balanced_def touch_def emit_def algebra_simps)
  have "recv_cb s" using assms(2) by (simp add: balanced_def)
  then show ?thesis by (simp add: deliver_def) (rule ok_rbind [OF handled rest])
qed

lemma recv_loop_balanced:
  assumes "exchange_sketch usr"
  shows "balanced en p x r k 0 q a s \<Longrightarrow>
    ok (balanced en p x (r @ chain_bytes pb) k 0 q a) (recv_loop en (run_cb d en usr) p pb s)"
proof (induction pb arbitrary: r s)
  case (Cons b pb)
  have s: "balanced en p x r k 0 q a (s\<lparr>ack_pcb := True\<rparr>)" "hasClient (trk s)" "\<not> pb_cb s" "life s = Alive"
    using Cons.prems by (simp_all add: balanced_upd) (simp_all add: balanced_def)
  have "ok (balanced en p x (r @ chain_bytes (b # pb)) k 0 q a)
      (recv_loop en (run_cb d en usr) p pb (emit (A_pbuf_free [pb_id b]) t))"
    if "balanced en p x (r @ payload b) k 0 q a t" for t
    using Cons.IH [of "r @ payload b" "emit (A_pbuf_free [pb_id b]) t"] that
    by (simp add: balanced_upd chain_bytes_def)
  from ok_rbind [OF deliver_balanced [OF assms s(1)] this] s(2-4) show ?case
    by (simp add: touch_def)
qed (simp add: chain_bytes_def)

lemma recv_settled:
  assumes "exchange_sketch usr" "settled en p x r k s" "pb \<noteq> []"
  shows "ok (settled en p x (r @ chain_bytes pb) k) (client_recv en (run_cb d en usr) (Some p) pb ERR_OK s)"
proof -
  obtain q a where b: "balanced en p x r k 0 q a s" "q + a = of_nat k" using assms(2) by (auto simp: settled_def)
  let ?s = "set_close_error ERR_OK ((emit A_millis s)\<lparr>rx_last_packet := e_millis en (log s)\<rparr>)"
  have s: "balanced en p x r k 0 q a ?s" using b(1) by (simp add: balanced_upd)
  have "ok (settled en p x (r @ chain_bytes pb) k) (recv_loop en (run_cb d en usr) p pb ?s)"
    by (rule ok_mono [OF recv_loop_balanced [OF assms(1) s]]) (use b(2) in \<open>auto simp: settled_def\<close>)
  moreover have "\<not> use_tls s" using b(1) by (simp add: balanced_def)
  ultimately show ?thesis using assms(3)
    by (simp add: client_recv_def millis_def Let_def set_close_error_def emit_def)
qed

text \<open>lwIP acknowledges no more than it was given, and less than 4 GB are outstanding.\<close>

lemma outstanding:
  assumes "balanced en p x r k w q a s" "k + unat (n :: u16) \<le> length (accepted en p (log s))"
    and "length (accepted en p (log s)) < k + 2 ^ 32"
  shows "unat (tx_unacked_len s) = length (accepted en p (log s)) - k" "ucast n \<le> tx_unacked_len s"
    "of_nat (length (accepted en p (log s))) = of_nat (k + unat n) + (tx_unacked_len s - ucast n)"
proof -
  let ?W = "length (accepted en p (log s))"
  have t: "of_nat ?W = of_nat k + tx_unacked_len s" using assms(1) by (simp add: balanced_def)
  then have "tx_unacked_len s = of_nat ?W - of_nat k" by simp
  also have "\<dots> = of_nat (?W - k)" using assms(2) by (simp add: of_nat_diff)
  finally show u: "unat (tx_unacked_len s) = ?W - k"
    using assms(3) by (simp add: unat_of_nat take_bit_nat_eq_self)
  then show "ucast n \<le> tx_unacked_len s" using assms(2) by (simp add: word_le_nat_alt unat_ucast16)
  have "(of_nat (unat n) :: u32) = ucast n" by (metis of_nat_unat ucast_id unat_ucast16)
  with t show "of_nat ?W = of_nat (k + unat n) + (tx_unacked_len s - ucast n)" by simp
qed

lemma sent_settled:
  assumes "exchange_sketch usr" "settled en p x r k s"
    and "k + unat n \<le> length (accepted en p (log s))" "length (accepted en p (log s)) < k + 2 ^ 32"
  shows "ok (settled en p x r (k + unat n)) (client_sent en (run_cb d en usr) n s)"
proof -
  obtain q a where b: "balanced en p x r k 0 q a s" "q + a = of_nat k" using assms(2) by (auto simp: settled_def)
  note out = outstanding [OF b(1) assms(3,4)]
  have n: "(of_nat (unat n) :: u32) = ucast n" by (metis of_nat_unat ucast_id unat_ucast16)
  let ?s = "(emit A_millis s)\<lparr>rx_last_packet := e_millis en (log s), tx_unacked_len := tx_unacked_len s - ucast n,
    tx_acked_len := tx_acked_len s + ucast n\<rparr>"
  have s: "balanced en p x r (k + unat n) 0 q (a + ucast n) ?s" "q + (a + ucast n) = of_nat (k + unat n)"
    using b out(3) n by (simp_all add: balanced_def emit_def algebra_simps)
  let ?t = "emit A_millis (set_close_error ERR_OK (?s\<lparr>pcb_busy := False\<rparr>))"
  have t: "balanced en p x r (k + unat n) 0 (q + (a + ucast n)) (a + ucast n) (emit (A_cb (CB_ack (a + ucast n) v)) ?t)" for v
    by (rule balanced_events(2)) (use s(1) in \<open>simp add: balanced_upd\<close>)
  have reset: "ok (settled en p x r (k + unat n)) (if \<not> hasClient (trk u) then Inr u
      else touch u (Inr (u\<lparr>tx_acked_len := 0\<rparr>)))"
    if "balanced en p x r (k + unat n) 0 (q + (a + ucast n)) (a + ucast n) u" for u
    using that s(2) by (auto simp: balanced_def settled_def touch_def)
  have "ok (settled en p x r (k + unat n)) (rbind (invoke (run_cb d en usr) (CB_ack (a + ucast n) v) ?t)
      (\<lambda>s. if \<not> hasClient (trk s) then Inr s else touch s (Inr (s\<lparr>tx_acked_len := 0\<rparr>))))" for v
    by (rule ok_rbind [OF invoke_balanced [OF assms(1) t] reset])
  moreover have "settled en p x r (k + unat n) ?s"
    unfolding settled_def using s by (intro exI conjI)
  moreover have "\<not> use_tls s" "sent_cb s" "tx_acked_len s = a" using b(1) by (simp_all add: balanced_def)
  moreover have "ucast n < tx_unacked_len s" if "tx_unacked_len s \<noteq> ucast n"
    using out(2) that by (simp add: order_less_le)
  ultimately show ?thesis
    by (cases "tx_unacked_len s = ucast n") (simp_all add: client_sent_def millis_def Let_def set_close_error_def emit_def)
qed

lemma exchange_op_keeps:
  assumes "exchange_op x" "\<not> use_tls s"
  shows "ok (\<lambda>t. c_pcb t = c_pcb s \<and> \<not> use_tls t) (user_call en cb x s)"
proof (cases "calm_op x")
  case True
  with packet_op_keeps [OF calm_op_packet assms(2)] show ?thesis .
next
  case False
  show ?thesis
  proof (cases x)
    case (Op_on h b)
    with assms show ?thesis by (cases h) (simp_all add: user_call_def)
  qed (use False assms in \<open>auto simp: user_call_def setInsecure_def setKnownKey_def allowSelfSignedCerts_def
      clearAuthenticationSettings_def setFingerprint_def Let_def log_defs split: option.split\<close>)
qed

lemma exchange_script_keeps:
  "\<forall>x\<in>set xs. exchange_op x \<Longrightarrow> \<not> use_tls s \<Longrightarrow> c_pcb s = None \<Longrightarrow>
    ok (\<lambda>t. c_pcb t = None) (run_script en cb xs s)"
proof (induction xs arbitrary: s)
  case (Cons x xs)
  then show ?case by (auto intro!: ok_rbind [OF exchange_op_keeps [of x s]])
qed simp

lemma closed_by_calm:
  assumes "exchange_sketch usr" "\<not> use_tls s" "life s = Alive" "c_pcb s = Some p"
  shows "ok (\<lambda>t. c_pcb t = None) (do_close en (run_cb d en usr) s)"
proof -
  let ?u = "closed_state en p s"
  have u: "\<not> use_tls ?u" "c_pcb ?u = None" using closed_state [OF assms(4)] assms(2) by simp_all
  have "ok (\<lambda>t. c_pcb t = None) (run_cb d en usr CB_disconnect (emit (A_cb CB_disconnect) ?u))"
  proof (cases d)
    case (Suc n)
    have "\<forall>x\<in>set (usr CB_disconnect (log (emit (A_cb CB_disconnect) ?u))). exchange_op x"
      using assms(1) by (simp add: exchange_sketch_def)
    from exchange_script_keeps [OF this, of "emit (A_cb CB_disconnect) ?u" en "run_cb n en usr"] u Suc
    show ?thesis by (simp add: emit_def)
  qed simp
  with u(2) assms(3,4) show ?thesis by (simp add: do_close_closed_state invoke_if_def invoke_def)
qed

lemma poll_settled:
  assumes "exchange_sketch usr" "settled en p x r k s"
  shows "ok (\<lambda>t. c_pcb t = None \<or> settled en p x r k t) (client_poll en (run_cb d en usr) s)"
proof -
  obtain q a where b: "balanced en p x r k 0 q a s" "q + a = of_nat k" using assms(2) by (auto simp: settled_def)
  let ?s = "set_close_error ERR_OK s" and ?t = "emit A_millis (set_close_error ERR_OK s)"
  have close: "ok (\<lambda>t. c_pcb t = None \<or> settled en p x r k t) (do_close en (run_cb d en usr) u)"
    if "balanced en p x r k 0 q a u" for u
    by (rule ok_mono [OF closed_by_calm [OF assms(1)]]) (use that in \<open>auto simp: balanced_def\<close>)
  have inv: "ok (\<lambda>t. c_pcb t = None \<or> settled en p x r k t) (invoke_if c (run_cb d en usr) ev u)"
    if "balanced en p x r k 0 q a u" "balanced en p x r k 0 q a (emit (A_cb ev) u)" for u c ev
    unfolding invoke_if_def
    by (cases c, simp, rule ok_mono [OF invoke_balanced [OF assms(1) that(2)]])
      (use that(1) b(2) in \<open>auto simp: settled_def\<close>)
  show ?thesis
    using b(1)
    by (simp add: client_poll_def millis_def Let_def close inv balanced_upd balanced_events)
qed

lemma settled_result:
  assumes "settled en p x r k s" "callback_result s = (e, t)"
  shows "settled en p x r k t"
proof -
  have t: "t = s\<lparr>trk := snd (getCallbackCloseError (trk s))\<rparr>"
    using assms(2) by (auto simp: callback_result_def split: prod.splits)
  have "hasClient (snd (getCallbackCloseError (trk s))) = hasClient (trk s)"
    by (simp add: tracker_defs Let_def)
  with t assms(1) show ?thesis by (auto simp: settled_def balanced_def)
qed

lemma result_pcb: "callback_result s = (e, t) \<Longrightarrow> c_pcb t = c_pcb s"
  by (auto simp: callback_result_def split: prod.splits)

section \<open>Exchanges\<close>

text \<open>
  \<open>exchange d en usr p s r k x t\<close>: from \<open>s\<close> the client came to \<open>t\<close>, by packets with the bytes
  \<open>r\<close>, acknowledgements of \<open>k\<close> bytes, polls that did not close the connection, and calls of
  the sketch, in any order.  \<open>x\<close> adds up what was postponed at each \<open>close(false)\<close>.
\<close>

inductive exchange ::
  "nat \<Rightarrow> env \<Rightarrow> sketch \<Rightarrow> pcb \<Rightarrow> conn \<Rightarrow> byte list \<Rightarrow> nat \<Rightarrow> u32 \<Rightarrow> conn \<Rightarrow> bool"
  for d en usr p s where
  start: "exchange d en usr p s [] 0 0 s"
| recv: "\<lbrakk>exchange d en usr p s r k x t; pb \<noteq> [];
      s_recv en (run_cb d en usr) (Some p) pb ERR_OK t = Inr (e, u)\<rbrakk>
    \<Longrightarrow> exchange d en usr p s (r @ chain_bytes pb) k x u"
| sent: "\<lbrakk>exchange d en usr p s r k x t; k + unat n \<le> length (accepted en p (log t));
      length (accepted en p (log t)) < k + 2 ^ 32; s_sent en (run_cb d en usr) n t = Inr (e, u)\<rbrakk>
    \<Longrightarrow> exchange d en usr p s r (k + unat n) x u"
| poll: "\<lbrakk>exchange d en usr p s r k x t; s_poll en (run_cb d en usr) t = Inr (e, u); c_pcb u \<noteq> None\<rbrakk>
    \<Longrightarrow> exchange d en usr p s r k x u"
| call: "\<lbrakk>exchange d en usr p s r k x t; exchange_op c; user_call en (run_cb d en usr) c t = Inr u\<rbrakk>
    \<Longrightarrow> exchange d en usr p s r k x u"
| close_later: "\<lbrakk>exchange d en usr p s r k x t; user_call en (run_cb d en usr) (Op_close False) t = Inr u\<rbrakk>
    \<Longrightarrow> exchange d en usr p s r k (x + rx_ack_len t) u"

lemma exchange_settled:
  assumes "exchange d en usr p s r k x t" "exchange_sketch usr" "settled en p 0 [] 0 s"
  shows "settled en p x r k t"
  using assms(1)
proof (induction rule: exchange.induct)
  case (recv r k x t pb e u)
  from recv_settled [OF assms(2) recv.IH recv.hyps(2), of d] recv.hyps(3) show ?case
    by (auto simp: s_recv_def rbind_eq_Inr dest: settled_result)
next
  case (sent r k x t n e u)
  from sent_settled [OF assms(2) sent.IH sent.hyps(2,3), of d] sent.hyps(4) show ?case
    by (auto simp: s_sent_def rbind_eq_Inr dest: settled_result)
next
  case (poll r k x t e u)
  from poll.hyps(2) obtain a where a: "client_poll en (run_cb d en usr) t = Inr a" "callback_result a = (e, u)"
    by (auto simp: s_poll_def rbind_eq_Inr)
  with poll_settled [OF assms(2) poll.IH, of d] poll.hyps(3) result_pcb [OF a(2)] settled_result [OF _ a(2)]
  show ?case by auto
next
  case (call r k x t c u)
  from call.IH obtain q a where "balanced en p x r k 0 q a t" "q + a = of_nat k" by (auto simp: settled_def)
  with call_balanced [OF this(1) call.hyps(2), of "run_cb d en usr"] call.hyps(3) show ?case
    by (auto simp: settled_def)
next
  case (close_later r k x t u)
  from close_later.IH obtain q a where "balanced en p x r k 0 q a t" "q + a = of_nat k" by (auto simp: settled_def)
  with close_later_balanced [OF this(1), of "run_cb d en usr"] close_later.hyps(2) show ?case
    by (auto simp: settled_def)
qed (use assms(3) in simp)

text \<open>
  C9: a plain connection accounts for every byte, as long as it lasts.  The events are, in
  any order: received packets; acknowledgements of bytes lwIP was given, with less than 4 GB
  outstanding; polls that do not close the connection; and calls of the sketch, which
  writes, acknowledges, sets options and authentication, replaces handlers except those for
  data, packets and acknowledgements, and calls \<open>close(false)\<close>.  There are handlers for data
  and acknowledgements and none for packets; all handlers do the same as the sketch, except
  for \<open>close(false)\<close>; no one calls \<open>close(true)\<close>, \<open>abort\<close>, \<open>connect\<close> or \<open>delete\<close>.  Then:
  \<open>onData\<close> got exactly the bytes that were received, in order; each of them was given back to
  the window or is counted as postponed, except that a \<open>close(false)\<close> gives back what is
  postponed at that time without taking it off the count (\<open>x\<close> bytes in total); each byte
  \<open>tcp_write\<close> accepted is acknowledged or counted as outstanding; and each acknowledged one
  is reported to \<open>onAck\<close> or counted for the next report.  The counters are words and may wrap.
\<close>

theorem exchange_conserves_bytes:
  assumes "exchange d en usr p s r k x t" "exchange_sketch usr" "settled en p 0 [] 0 s"
  shows "delivered (log t) = r \<and> window p (log t) + rx_ack_len t = of_nat (length r) + x
    \<and> of_nat (length (accepted en p (log t))) = of_nat k + tx_unacked_len t
    \<and> reported (log t) + tx_acked_len t = of_nat k"
  using exchange_settled [OF assms] by (auto simp: settled_def balanced_def)

definition exchange0 :: conn where
  "exchange0 = plain0\<lparr>recv_cb := True, sent_cb := True\<rparr>"

text \<open>
  The data handler postpones the acknowledgement; then two of three bytes are acknowledged,
  one of the two received ones is given back, and the client is closed for the next poll.
\<close>

definition postponing :: sketch where
  "postponing ev h = (case ev of CB_data bs \<Rightarrow> [Op_ackLater] | _ \<Rightarrow> [])"

lemma exchange_example:
  "\<exists>t. exchange 1 quiet_env postponing 1 exchange0 [5, 6] 2 1 t \<and> rx_ack_len t = 1 \<and> tx_unacked_len t = 1"
proof -
  let ?cb = "run_cb 1 quiet_env postponing"
  note evals = exchange0_def plain0_def mem0_def quiet_env_def postponing_def log_defs Let_def
    callback_result_def tracker_defs new_tracker_def set_close_error_def
  have "\<exists>e t. s_recv quiet_env ?cb (Some 1) (packet [5, 6]) ERR_OK exchange0 = Inr (e, t)
      \<and> (\<exists>u. user_call quiet_env ?cb (Op_write (Some [1, 2, 3]) 0) t = Inr u
      \<and> length (accepted quiet_env 1 (log u)) = 3
      \<and> (\<exists>f v. s_sent quiet_env ?cb 2 u = Inr (f, v)
      \<and> (\<exists>w. user_call quiet_env ?cb (Op_ack 1) v = Inr w \<and> rx_ack_len w = 1 \<and> tx_unacked_len w = 1
      \<and> life w = Alive)))"
    by (simp add: evals s_recv_def client_recv_def packet_def deliver_def invoke_def user_call_def ackLater_def
        client_write_def add_def space_def connected_def send_def s_sent_def client_sent_def ack_def
        split: prod.split)
  then obtain e t f u v w where r: "s_recv quiet_env ?cb (Some 1) (packet [5, 6]) ERR_OK exchange0 = Inr (e, t)"
    "user_call quiet_env ?cb (Op_write (Some [1, 2, 3]) 0) t = Inr u"
    "length (accepted quiet_env 1 (log u)) = 3"
    "s_sent quiet_env ?cb 2 u = Inr (f, v)" "user_call quiet_env ?cb (Op_ack 1) v = Inr w"
    "rx_ack_len w = 1" "tx_unacked_len w = 1" "life w = Alive" by blast
  have "exchange 1 quiet_env postponing 1 exchange0 ([] @ chain_bytes (packet [5, 6])) 0 0 t"
    by (rule exchange.recv [OF exchange.start _ r(1)]) (simp add: packet_def)
  then have "exchange 1 quiet_env postponing 1 exchange0 [5, 6] 0 0 u"
    using exchange.call [OF _ _ r(2)] by (simp add: packet_def chain_bytes_def)
  then have "exchange 1 quiet_env postponing 1 exchange0 [5, 6] (0 + unat (2 :: u16)) 0 v"
    by (rule exchange.sent [OF _ _ _ r(4)]) (use r(3) in simp_all)
  moreover have "0 + unat (2 :: u16) = 2" by simp
  ultimately have "exchange 1 quiet_env postponing 1 exchange0 [5, 6] 2 0 v" by (simp only:)
  from exchange.call [OF this _ r(5)] have w: "exchange 1 quiet_env postponing 1 exchange0 [5, 6] 2 0 w" by simp
  obtain c where c: "user_call quiet_env ?cb (Op_close False) w = Inr c" "rx_ack_len c = 1" "tx_unacked_len c = 1"
    using r(6-8) by (auto simp: user_call_def close_def emit_def split: option.split)
  from exchange.close_later [OF w c(1)] r(6) c(2,3) show ?thesis by auto
qed

theorem exchange_conserves_bytes_witness:
  "\<exists>t :: conn. delivered (log t) = [5, 6] \<and> window 1 (log t) = 2
    \<and> length (accepted quiet_env 1 (log t)) mod 2 ^ 32 = 3 \<and> reported (log t) + tx_acked_len t = 2"
proof -
  obtain t where t: "exchange 1 quiet_env postponing 1 exchange0 [5, 6] 2 1 t" "rx_ack_len t = 1" "tx_unacked_len t = 1"
    using exchange_example by blast
  have "exchange_sketch postponing" "settled quiet_env 1 0 [] 0 exchange0"
    by (auto simp: exchange_sketch_def postponing_def settled_def balanced_def exchange0_def plain0_def mem0_def
        new_tracker_def tracker_defs split: cb_ev.splits)
  from exchange_conserves_bytes [OF t(1) this] t(2,3)
  have c: "delivered (log t) = [5, 6]" "window 1 (log t) + 1 = 3"
    "of_nat (length (accepted quiet_env 1 (log t))) = (3 :: u32)" "reported (log t) + tx_acked_len t = 2" by simp_all
  have "window 1 (log t) = 3 - 1" using c(2) by (metis add_diff_cancel)
  moreover have "unat (of_nat (length (accepted quiet_env 1 (log t))) :: u32) = 3" by (subst c(3)) simp
  ultimately show ?thesis using c(1,4) by (intro exI [of _ t]) (simp add: unat_of_nat take_bit_eq_mod)
qed

end
