(* ===== verification/Sketches.thy ===== *)
theory Sketches
  imports Server BufferTx
begin

text \<open>
  The two example sketches of the library (src/examples/ClientServer) as user code of the
  model: what their handlers send, and the whole way from a listening server over an
  accepted connection and a received packet to the response.
\<close>

section \<open>Text\<close>

text \<open>\<open>String(n)\<close> and \<open>%d\<close> for an unsigned number.\<close>

fun decimal :: "nat \<Rightarrow> string" where
  "decimal n = (if n < 10 then [char_of (48 + n)] else decimal (n div 10) @ [char_of (48 + n mod 10)])"

declare decimal.simps [simp del]

definition bytes_of :: "string \<Rightarrow> byte list" where
  "bytes_of cs = map of_char cs"

lemma length_bytes_of [simp]: "length (bytes_of cs) = length cs"
  by (simp add: bytes_of_def)

definition crlf :: string where
  "crlf = [CHR 0x0D, CHR 0x0A]"

section \<open>The server example\<close>

text \<open>\<open>host\<close> is \<open>SERVER_HOST_NAME\<close> of config.h.\<close>

definition server_reply :: "string \<Rightarrow> string" where
  "server_reply host = ''this is from '' @ host"

definition http_response :: "string \<Rightarrow> string" where
  "http_response host =
     (let reply = server_reply host in
      ''HTTP/1.1 200 OK'' @ crlf
      @ ''Content-Type: text/plain'' @ crlf
      @ ''Content-Length: '' @ decimal (length reply) @ crlf
      @ ''Connection: close'' @ crlf
      @ crlf
      @ reply)"

text \<open>
  \<open>handleData\<close>; \<open>sprintf\<close> into \<open>reply\<close>, which has 100 bytes.  The messages on the serial
  line are left out.
\<close>

definition srv_handleData :: "env \<Rightarrow> user \<Rightarrow> string \<Rightarrow> conn \<Rightarrow> conn res" where
  "srv_handleData en cb host s =
     (if space en s > 32 \<and> canSend en s then
        if length (server_reply host) + 1 > 100 then Inl Out_of_bounds
        else rbind (add en cb (Some (bytes_of (http_response host))) 0 s)
               (\<lambda>(will_send, s). touch s (Inr (snd (send en s))))
      else Inr s)"

text \<open>
  \<open>handleNewClient\<close>: \<open>this\<close> is the address of the client, \<open>clients\<close> the vector of the sketch,
  which is only ever appended to: no handler reads it or deletes a client.
\<close>

definition handleNewClient :: "'p \<Rightarrow> 'p list \<Rightarrow> conn \<Rightarrow> 'p list \<times> conn" where
  "handleNewClient this clients s =
     (clients @ [this],
      set_handler H_timeout True (set_handler H_disconnect True
        (set_handler H_error True (set_handler H_data True s))))"

text \<open>
  The handlers of the sketch, as they act on the client; those that only print do nothing
  here.
\<close>

fun server_sketch :: "nat \<Rightarrow> env \<Rightarrow> string \<Rightarrow> user" where
  "server_sketch 0 en host ev s = Inl No_return"
| "server_sketch (Suc d) en host ev s = (case ev of
     CB_client \<Rightarrow> Inr (snd (handleNewClient () [] s))
   | CB_data bs \<Rightarrow> srv_handleData en (server_sketch d en host) host s
   | _ \<Rightarrow> Inr s)"

lemma server_sketch_events:
  "server_sketch (Suc d) en host (CB_data bs) s = srv_handleData en (server_sketch d en host) host s"
  "server_sketch (Suc d) en host CB_client s = Inr (snd (handleNewClient () [] s))"
  by simp_all

declare server_sketch.simps [simp del] server_sketch_events [simp]

definition server_setup :: "env \<Rightarrow> u16 \<Rightarrow> server" where
  "server_setup en port = srv_begin en (onClient True (new_server 0 port))"

section \<open>The client example\<close>

text \<open>The documented form of \<open>IPAddress::toString\<close>, used to evaluate: four numbers with dots.\<close>

definition ip_string :: "byte \<Rightarrow> byte \<Rightarrow> byte \<Rightarrow> byte \<Rightarrow> string" where
  "ip_string a b c d = decimal (unat a) @ ''.'' @ decimal (unat b) @ ''.'' @ decimal (unat c) @ ''.''
     @ decimal (unat d)"

definition client_message :: "string \<Rightarrow> string" where
  "client_message addr = ''this is from '' @ addr"

text \<open>\<open>replyToServer\<close>, called on connection and by the timer; \<open>message\<close> has 32 bytes.\<close>

definition replyToServer :: "env \<Rightarrow> user \<Rightarrow> string \<Rightarrow> conn \<Rightarrow> conn res" where
  "replyToServer en cb addr s =
     (if space en s > 32 \<and> canSend en s then
        if length (client_message addr) + 1 > 32 then Inl Out_of_bounds
        else rbind (add en cb (Some (bytes_of (client_message addr))) 0 s)
               (\<lambda>(n, s). touch s (Inr (snd (send en s))))
      else Inr s)"

text \<open>
  The interval timer: \<open>Some n\<close> when it is armed with a period of \<open>n\<close> ms.  \<open>handleData\<close> arms it
  and leaves the client alone; while it is armed, it calls \<open>replyToServer\<close> once a period.
\<close>

definition cli_handleData :: "nat option \<times> conn \<Rightarrow> nat option \<times> conn" where
  "cli_handleData a = (case a of (timer, s) \<Rightarrow> (Some 2000, s))"

definition timer_tick :: "env \<Rightarrow> user \<Rightarrow> string \<Rightarrow> nat option \<times> conn \<Rightarrow> (nat option \<times> conn) res" where
  "timer_tick en cb addr a = (case a of (timer, s) \<Rightarrow>
     if timer = None then Inr (timer, s)
     else rbind (replyToServer en cb addr s) (\<lambda>s. Inr (timer, s)))"

text \<open>The handlers, as they act on the client.\<close>

fun client_sketch :: "nat \<Rightarrow> env \<Rightarrow> string \<Rightarrow> user" where
  "client_sketch 0 en addr ev s = Inl No_return"
| "client_sketch (Suc d) en addr ev s = (case ev of
     CB_connect \<Rightarrow> replyToServer en (client_sketch d en addr) addr s
   | CB_data bs \<Rightarrow> Inr (snd (cli_handleData (None, s)))
   | _ \<Rightarrow> Inr s)"

text \<open>\<open>setup\<close>, from the creation of the client on; it ends with the timer disarmed.\<close>

definition client_setup :: "env \<Rightarrow> string \<Rightarrow> u16 \<Rightarrow> conn \<Rightarrow> bool \<times> nat option \<times> conn" where
  "client_setup en host port s =
     (let (r, s) = connect_host en host port True (setInsecure True (set_handler H_error True
       (set_handler H_timeout True (set_handler H_disconnect True (set_handler H_connect True
         (set_handler H_data True s))))))
      in (r, None, s))"

text \<open>
  The client sends one message for the connection and, after the first data it received,
  one a period; a client whose connection is gone sends nothing, although nothing ever
  disarms the timer.
\<close>

lemma ticks_after_disconnect:
  "c_pcb s = None \<Longrightarrow> timer_tick en cb addr (t, s) = Inr (t, s)"
  by (simp add: timer_tick_def replyToServer_def space_def connected_def)

lemma timer_stays_armed:
  "timer_tick en cb addr (t, s) = Inr (t', s') \<Longrightarrow> t' = t"
  "fst (cli_handleData (t, s)) = Some 2000"
  by (auto simp: timer_tick_def cli_handleData_def rbind_eq_Inr split: if_splits)

section \<open>Numbers and messages\<close>

fun undecimal :: "nat \<Rightarrow> string \<Rightarrow> nat" where
  "undecimal n [] = n"
| "undecimal n (c # cs) = undecimal (10 * n + (of_char c - 48)) cs"

lemma undecimal_append: "undecimal n (xs @ ys) = undecimal (undecimal n xs) ys"
  by (induction xs arbitrary: n) simp_all

lemma of_char_digit: "k < 10 \<Longrightarrow> of_char (char_of (48 + k) :: char) = (48 + k :: nat)"
  by (simp add: of_char_mod_256)

lemma undecimal_decimal: "undecimal 0 (decimal n) = n"
proof (induction n rule: decimal.induct)
  case (1 n)
  show ?case
  proof (cases "n < 10")
    case True
    then show ?thesis by (subst decimal.simps) (simp add: of_char_digit)
  next
    case False
    have "undecimal 0 (decimal n) = 10 * (n div 10) + n mod 10"
      using False 1 by (subst decimal.simps) (simp add: undecimal_append of_char_digit)
    then show ?thesis by simp
  qed
qed

lemma decimal_digits: "c \<in> set (decimal n) \<Longrightarrow> 48 \<le> (of_char c :: nat) \<and> (of_char c :: nat) < 58"
proof (induction n rule: decimal.induct)
  case (1 n)
  show ?case
  proof (cases "n < 10")
    case True
    with 1(2) show ?thesis by (subst (asm) decimal.simps) (simp add: of_char_digit)
  next
    case False
    with 1(2) have "c \<in> set (decimal (n div 10)) \<or> c = char_of (48 + n mod 10)"
      by (subst (asm) decimal.simps) auto
    with 1(1) False show ?thesis by (auto simp: of_char_digit)
  qed
qed

lemma decimal_length: "n < 10 ^ k \<Longrightarrow> 0 < k \<Longrightarrow> length (decimal n) \<le> k"
proof (induction k arbitrary: n)
  case (Suc k)
  show ?case
  proof (cases "n < 10")
    case False
    then have "n div 10 < 10 ^ k" "0 < k" using Suc.prems(1) by (cases k; auto)+
    with Suc.IH [of "n div 10"] False show ?thesis by (subst decimal.simps) simp
  qed (subst decimal.simps, simp)
qed simp

section \<open>Reading a response\<close>

text \<open>
  The lines up to the empty one are the headers, the rest is the body; a response is
  complete when the body has the length its header announces.
\<close>

fun split_line :: "string \<Rightarrow> (string \<times> string) option" where
  "split_line (x # y # xs) =
     (if [x, y] = crlf then Some ([], xs) else map_option (apfst ((#) x)) (split_line (y # xs)))"
| "split_line xs = None"

lemma split_line_shorter: "split_line xs = Some (l, r) \<Longrightarrow> length r < length xs"
  by (induction xs arbitrary: l rule: split_line.induct) (auto split: if_splits intro: less_SucI)

lemma split_line_append: "split_line xs = Some (l, r) \<Longrightarrow> split_line (xs @ ys) = Some (l, r @ ys)"
  by (induction xs arbitrary: l rule: split_line.induct) (auto split: if_splits)

lemma split_line_crlf: "CHR 0x0D \<notin> set l \<Longrightarrow> split_line (l @ crlf @ r) = Some (l, r)"
proof (induction l)
  case (Cons c l)
  then show ?case by (cases "l @ crlf @ r") (auto simp: crlf_def)
qed (simp add: crlf_def)

function http_headers :: "string \<Rightarrow> (string list \<times> string) option" where
  "http_headers xs = (case split_line xs of None \<Rightarrow> None
     | Some (l, r) \<Rightarrow> if l = [] then Some ([], r) else map_option (apfst ((#) l)) (http_headers r))"
  by pat_completeness auto
termination
  by (relation "measure length") (auto dest: split_line_shorter)

declare http_headers.simps [simp del]

lemma http_headers_append: "http_headers xs = Some (hs, b) \<Longrightarrow> http_headers (xs @ ys) = Some (hs, b @ ys)"
proof (induction xs arbitrary: hs rule: http_headers.induct)
  case (1 xs)
  obtain l r where l: "split_line xs = Some (l, r)"
    using 1(2) by (subst (asm) http_headers.simps) (auto split: option.splits)
  show ?case
  proof (cases "l = []")
    case True
    with l 1(2) show ?thesis
      by (subst http_headers.simps, subst (asm) http_headers.simps) (auto simp: split_line_append)
  next
    case False
    then obtain hs' where "http_headers r = Some (hs', b)" "hs = l # hs'"
      using 1(2) l by (subst (asm) http_headers.simps) auto
    with 1(1) [OF l refl False] False l show ?thesis
      by (subst http_headers.simps) (auto simp: split_line_append)
  qed
qed

definition content_length :: "string list \<Rightarrow> nat option" where
  "content_length hs = map_option (\<lambda>l. undecimal 0 (drop 16 l))
     (find (\<lambda>l. take 16 l = ''Content-Length: '') hs)"

definition http_body :: "string \<Rightarrow> string option" where
  "http_body xs = (case http_headers xs of None \<Rightarrow> None
     | Some (hs, b) \<Rightarrow> if content_length hs = Some (length b) then Some b else None)"

lemma headers_line:
  assumes "CHR 0x0D \<notin> set l" "l \<noteq> []" "http_headers r = Some (hs, b)"
  shows "http_headers (l @ crlf @ r) = Some (l # hs, b)"
  using split_line_crlf [OF assms(1)] assms(2,3) by (subst http_headers.simps) simp

lemma headers_end: "http_headers (crlf @ r) = Some ([], r)"
  using split_line_crlf [of "[]"] by (subst http_headers.simps) simp

lemma decimal_no_cr: "CHR 0x0D \<notin> set (decimal n)"
  using decimal_digits [of "CHR 0x0D" n] by auto

lemma response_headers:
  "http_headers (http_response host) = Some ([''HTTP/1.1 200 OK'', ''Content-Type: text/plain'',
     ''Content-Length: '' @ decimal (length (server_reply host)), ''Connection: close''], server_reply host)"
proof -
  let ?n = "decimal (length (server_reply host))"
  have "http_headers ((''Content-Length: '' @ ?n) @ crlf @ ''Connection: close'' @ crlf @ crlf @ server_reply host)
      = Some ([''Content-Length: '' @ ?n, ''Connection: close''], server_reply host)"
    by (rule headers_line headers_end | simp add: decimal_no_cr)+
  then have "http_headers (''Content-Length: '' @ ?n @ crlf @ ''Connection: close'' @ crlf @ crlf @ server_reply host)
      = Some ([''Content-Length: '' @ ?n, ''Connection: close''], server_reply host)"
    unfolding append_assoc .
  then show ?thesis
    unfolding http_response_def Let_def by (intro headers_line) simp_all
qed

lemma response_length:
  "length (http_response host) = 82 + length (decimal (length (server_reply host))) + length (server_reply host)"
  by (simp add: http_response_def Let_def crlf_def)

lemma prefix_incomplete:
  assumes "http_headers xs = Some (hs, b)" "content_length hs = Some (length b)" "n < length xs"
  shows "http_body (take n xs) = None"
proof (cases "http_headers (take n xs)")
  case (Some h)
  obtain hs' b' where h: "h = (hs', b')" by fastforce
  from http_headers_append [OF Some [unfolded h], of "drop n xs"] assms(1,2)
  have "content_length hs' = Some (length (b' @ drop n xs))" by simp
  with assms(3) Some h show ?thesis by (simp add: http_body_def)
qed (simp add: http_body_def)

text \<open>
  C31: what the server example sends is a complete response: read back, its body is the
  reply, whose length the header announces in decimal; and no proper prefix of it is
  complete.
\<close>

theorem response_roundtrip:
  "http_body (http_response host) = Some (server_reply host)
   \<and> (\<forall>n < length (http_response host). http_body (take n (http_response host)) = None)"
proof -
  let ?r = "http_response host"
  obtain hs where hs: "http_headers ?r = Some (hs, server_reply host)"
    "content_length hs = Some (length (server_reply host))"
    by (rule that [OF response_headers]) (simp add: content_length_def undecimal_decimal)
  have "http_body (take n ?r) = None" if "n < length ?r" for n
    using that by (rule prefix_incomplete [OF hs])
  moreover have "http_body ?r = Some (server_reply host)" using hs by (simp add: http_body_def)
  ultimately show ?thesis by blast
qed

theorem response_roundtrip_witness:
  "http_body (take 100 (http_response ''esp_server'')) = None
   \<and> http_body (http_response ''esp_server'') = Some ''this is from esp_server''"
proof -
  have "server_reply ''esp_server'' = ''this is from esp_server''" by (simp add: server_reply_def)
  moreover from this have "100 < length (http_response ''esp_server'')" by (simp add: response_length)
  ultimately show ?thesis using response_roundtrip [of "''esp_server''"] by simp
qed

section \<open>What the sketches send\<close>

text \<open>A platform on which sending succeeds, and a plain client that is connected.\<close>

definition sending_ok :: "env \<Rightarrow> bool" where
  "sending_ok en \<longleftrightarrow> (\<forall>h. e_write en h = ERR_OK \<and> e_output en h = ERR_OK)"

definition plain_client :: "pcb \<Rightarrow> conn \<Rightarrow> bool" where
  "plain_client p s \<longleftrightarrow> c_pcb s = Some p \<and> \<not> use_tls s \<and> life s = Alive"

text \<open>Adding and sending \<open>bs\<close>: the part of it that fits is written and the client is busy.\<close>

lemma add_send:
  assumes "sending_ok en" "plain_client p s" "bs \<noteq> []" "0 < space en s"
  obtains s' where "add en cb (Some bs) 0 s = Inr (min (space en s) (length bs), s')"
    "life s' = Alive" "plain_client p (snd (send en s'))" "pcb_busy (snd (send en s'))"
    "written p (log (snd (send en s'))) = written p (log s) @ take (space en s) bs"
    "recv_cb (snd (send en s')) = recv_cb s" "pb_cb (snd (send en s')) = pb_cb s"
    "trk (snd (send en s')) = trk s"
  by (rule that [of "(emit (A_tcp_write p (take (min (space en s) (length bs)) bs) 0) s)
        \<lparr>tx_unacked_len := tx_unacked_len s + of_nat (min (space en s) (length bs))\<rparr>"])
    (use assms in \<open>auto simp: add_def send_def sending_ok_def plain_client_def log_defs Let_def min_def\<close>)

lemma ip_string_length: "length (ip_string a b c d) \<le> 15"
proof -
  have three: "length (decimal (unat x)) \<le> 3" for x :: byte
  proof -
    have "unat x < 2 ^ LENGTH(8)" by (rule unsigned_less)
    then show ?thesis by (intro decimal_length) simp_all
  qed
  show ?thesis
    using three [of a] three [of b] three [of c] three [of d] by (simp add: ip_string_def)
qed

text \<open>
  The client example sends its message whole or not at all, and never overruns the 32
  bytes of \<open>message\<close>, whatever the address (an address in dotted decimal has at most 15
  characters): when there is room for more than 32 bytes and nothing is outstanding, the
  whole message is written.
\<close>

theorem message_sent_whole:
  assumes "sending_ok en" "plain_client p s" "length addr \<le> 15"
  shows "\<exists>s'. replyToServer en cb addr s = Inr s'
    \<and> written p (log s') = written p (log s) @
        (if 32 < space en s \<and> canSend en s then bytes_of (client_message addr) else [])"
proof (cases "32 < space en s \<and> canSend en s")
  case True
  let ?m = "bytes_of (client_message addr)"
  have fits: "length ?m \<le> 28" using assms(3) by (simp add: client_message_def)
  have "?m \<noteq> []" by (simp add: client_message_def bytes_of_def)
  from add_send [OF assms(1,2) this, of cb] True obtain t where
    t: "add en cb (Some ?m) 0 s = Inr (min (space en s) (length ?m), t)" "life t = Alive"
      "written p (log (snd (send en t))) = written p (log s) @ take (space en s) ?m" by auto
  have "take (space en s) ?m = ?m" using True fits by simp
  then show ?thesis using True t fits by (simp add: replyToServer_def touch_def)
next
  case False
  then show ?thesis by (simp only: replyToServer_def if_False) simp
qed

theorem message_sent_whole_witness:
  "\<exists>s'. replyToServer quiet_env idle_user (ip_string 192 168 4 2) plain0 = Inr s'
    \<and> written 1 (log s') = bytes_of ''this is from 192.168.4.2''"
proof -
  have "decimal 192 = ''192''" "decimal 168 = ''168''" "decimal 4 = ''4''" "decimal 2 = ''2''"
    by code_simp+
  then have m: "client_message (ip_string 192 168 4 2) = ''this is from 192.168.4.2''"
    by (simp add: client_message_def ip_string_def)
  have "sending_ok quiet_env" "plain_client 1 plain0" "canSend quiet_env plain0" "space quiet_env plain0 = 512"
    by (simp_all add: sending_ok_def plain_client_def canSend_def space_def connected_def quiet_env_def
        plain0_def mem0_def)
  with message_sent_whole [OF _ _ ip_string_length, of quiet_env 1 plain0 idle_user 192 168 4 2] m show ?thesis
    by (auto simp: plain0_def mem0_def)
qed

section \<open>The server example, from the listener to the response\<close>

text \<open>A connection that stays open with \<open>w\<close> bytes of room.\<close>

definition room_for :: "env \<Rightarrow> pcb \<Rightarrow> nat \<Rightarrow> bool" where
  "room_for en p w \<longleftrightarrow> (\<forall>h. e_state en h p = ESTABLISHED \<and> unat (e_sndbuf en h p) = w)"

lemma room_for_space: "room_for en p w \<Longrightarrow> plain_client p s \<Longrightarrow> space en s = w"
  by (simp add: room_for_def plain_client_def space_def connected_def)

definition served :: "pcb \<Rightarrow> conn \<Rightarrow> bool" where
  "served p s \<longleftrightarrow> plain_client p s \<and> hasClient (trk s) \<and> recv_cb s \<and> \<not> pb_cb s"

lemma served_cong:
  "served p s \<Longrightarrow> c_pcb t = c_pcb s \<Longrightarrow> use_tls t = use_tls s \<Longrightarrow> life t = life s \<Longrightarrow> trk t = trk s
    \<Longrightarrow> recv_cb t = recv_cb s \<Longrightarrow> pb_cb t = pb_cb s \<Longrightarrow> served p t"
  by (simp add: served_def plain_client_def)

lemma handleData_answers:
  assumes "sending_ok en" "room_for en p w" "32 < w" "length host \<le> 86" "served p s"
  shows "\<exists>s'. srv_handleData en cb host s = Inr s' \<and> served p s' \<and> pcb_busy s'
    \<and> written p (log s') = written p (log s) @
        (if pcb_busy s then [] else take w (bytes_of (http_response host)))"
proof (cases "pcb_busy s")
  case True
  then show ?thesis using assms(5) by (simp add: srv_handleData_def canSend_def)
next
  case False
  have s: "plain_client p s" "space en s = w"
    using assms(5) room_for_space [OF assms(2)] by (simp_all add: served_def)
  have "bytes_of (http_response host) \<noteq> []" by (simp add: bytes_of_def http_response_def Let_def)
  from add_send [OF assms(1) s(1) this, of cb] s(2) assms(3) obtain t where
    t: "add en cb (Some (bytes_of (http_response host))) 0 s
        = Inr (min w (length (bytes_of (http_response host))), t)" "life t = Alive"
      "plain_client p (snd (send en t))" "pcb_busy (snd (send en t))"
      "written p (log (snd (send en t))) = written p (log s) @ take w (bytes_of (http_response host))"
      "recv_cb (snd (send en t)) = recv_cb s" "pb_cb (snd (send en t)) = pb_cb s"
      "trk (snd (send en t)) = trk s"
    by auto
  have "length (server_reply host) + 1 \<le> 100" using assms(4) by (simp add: server_reply_def)
  then show ?thesis
    using t False s(2) assms(3,5) by (simp add: srv_handleData_def canSend_def touch_def served_def)
qed

lemma sketch_recv:
  assumes "sending_ok en" "room_for en p w" "32 < w" "length host \<le> 86"
  shows "served p s \<Longrightarrow> \<exists>s'. recv_loop en (server_sketch (Suc d) en host) p pb s = Inr s' \<and> served p s'
    \<and> written p (log s') = written p (log s) @
        (if pcb_busy s \<or> pb = [] then [] else take w (bytes_of (http_response host)))"
proof (induction pb arbitrary: s)
  case (Cons b pb)
  let ?s = "emit (A_cb (CB_data (payload b))) (s\<lparr>ack_pcb := True, recv_pbuf_flags := pb_flags b\<rparr>)"
  have "served p ?s" by (rule served_cong [OF Cons.prems]) (simp_all add: emit_def)
  from handleData_answers [OF assms this, of "server_sketch d en host"] obtain t where
    t: "srv_handleData en (server_sketch d en host) host ?s = Inr t" "served p t" "pcb_busy t"
      "written p (log t) = written p (log s) @
        (if pcb_busy s then [] else take w (bytes_of (http_response host)))"
    by (auto simp: emit_def)
  let ?t = "emit (A_pbuf_free [pb_id b]) (if \<not> ack_pcb t
      then t\<lparr>rx_ack_len := rx_ack_len t + of_nat (length (payload b))\<rparr>
      else emit (A_tcp_recved (Some p) (of_nat (length (payload b)))) t)"
  have "served p ?t" by (rule served_cong [OF t(2)]) (simp_all add: emit_def)
  from Cons.IH [OF this] obtain u where
    u: "recv_loop en (server_sketch (Suc d) en host) p pb ?t = Inr u" "served p u"
      "written p (log u) = written p (log t)"
    using t(3) by (auto simp: emit_def split: if_splits)
  have "deliver en (server_sketch (Suc d) en host) p b (s\<lparr>ack_pcb := True\<rparr>) = Inr (if \<not> ack_pcb t
      then t\<lparr>rx_ack_len := rx_ack_len t + of_nat (length (payload b))\<rparr>
      else emit (A_tcp_recved (Some p) (of_nat (length (payload b)))) t)"
    using t(1,2) Cons.prems by (simp add: deliver_def invoke_def touch_def served_def plain_client_def)
  then show ?case
    using u t(4) Cons.prems by (simp add: touch_def Let_def served_def plain_client_def)
qed simp

text \<open>
  C36: the server example serves: a connection lwIP accepts becomes a client with the
  sketch's handlers, and the first packet it receives, in however many segments, is
  answered once, with the response as far as it fits into the send buffer.
\<close>

theorem example_server_answers:
  assumes "sending_ok en" "room_for en p w" "32 < w" "length host \<le> 86" "\<forall>h. e_alloc en h"
    and "on_client s" "s_ctx s = None" "pb \<noteq> []"
  shows "\<exists>c t c'. srv_accept en (server_sketch (Suc d) en host) mode mem (Some p) ERR_OK s
        = Inr (ERR_OK, Some c, t)
    \<and> client_recv en (server_sketch (Suc d) en host) (Some p) pb ERR_OK c = Inr c'
    \<and> c_pcb c' = Some p \<and> written p (log c') = written p (log s) @ take w (bytes_of (http_response host))"
proof -
  let ?cb = "server_sketch (Suc d) en host"
  let ?s = "emit (A_new_client p) (emit (A_nagle p (s_noDelay s \<or> s_ctx s \<noteq> None)) s)"
  obtain c0 where c0: "new_client en ?cb mode (Some p) None (mem\<lparr>log := log ?s, ssl := ssl ?s\<rparr>) = Inr c0"
    "plain_client p c0" "hasClient (trk c0)" "\<not> pb_cb c0" "\<not> pcb_busy c0" "written p (log c0) = written p (log s)"
    by (auto simp: new_client_def client_init_def plain_client_def log_defs Let_def tracker_defs
        new_tracker_def)
  let ?c = "snd (handleNewClient () [] (emit (A_cb CB_client) c0))"
  have acc: "srv_accept en ?cb mode mem (Some p) ERR_OK s = Inr (ERR_OK, Some ?c, s\<lparr>log := log ?c, ssl := ssl ?c\<rparr>)"
    using assms(5-7) c0(1) by (simp add: srv_accept_def Let_def invoke_def emit_def)
  have c: "served p ?c" "\<not> pcb_busy ?c" "written p (log ?c) = written p (log s)"
    using c0 by (simp_all add: served_def plain_client_def handleNewClient_def emit_def)
  let ?r = "set_close_error ERR_OK ((emit A_millis ?c)\<lparr>rx_last_packet := e_millis en (log ?c)\<rparr>)"
  have r: "served p ?r" "\<not> pcb_busy ?r" "written p (log ?r) = written p (log s)"
    using c by (simp_all add: served_def plain_client_def set_close_error_def emit_def tracker_defs)
  from sketch_recv [OF assms(1-4) r(1), of d pb] obtain c' where
    c': "recv_loop en ?cb p pb ?r = Inr c'" "served p c'"
      "written p (log c') = written p (log s) @ take w (bytes_of (http_response host))"
    using r(2,3) assms(8) by (auto simp del: recv_loop.simps)
  have "client_recv en ?cb (Some p) pb ERR_OK ?c = recv_loop en ?cb p pb ?r"
    using r(1) assms(8) by (simp add: client_recv_def millis_def Let_def served_def plain_client_def
        del: recv_loop.simps)
  with acc c' show ?thesis by (auto simp: served_def plain_client_def)
qed

theorem example_server_answers_witness:
  "\<exists>c t c'. srv_accept quiet_env (server_sketch 1 quiet_env ''esp_server'') 0 mem0 (Some 9) ERR_OK
        (server_setup quiet_env 80) = Inr (ERR_OK, Some c, t)
    \<and> client_recv quiet_env (server_sketch 1 quiet_env ''esp_server'') (Some 9)
        [\<lparr>pb_id = 3, payload = [71, 69], pb_flags = 0\<rparr>, \<lparr>pb_id = 4, payload = [84], pb_flags = 1\<rparr>] ERR_OK c = Inr c'
    \<and> written 9 (log c') = bytes_of (http_response ''esp_server'')"
proof -
  have env: "sending_ok quiet_env" "room_for quiet_env 9 512" "\<forall>h. e_alloc quiet_env h"
    by (simp_all add: sending_ok_def room_for_def quiet_env_def)
  have "on_client (server_setup quiet_env 80)" "s_ctx (server_setup quiet_env 80) = None"
    "written 9 (log (server_setup quiet_env 80)) = []"
    by (simp_all add: server_setup_def srv_begin_def onClient_def new_server_def quiet_env_def emit_def emits_def)
  moreover have "length (server_reply ''esp_server'') = 23" by (simp add: server_reply_def)
  then have "length (http_response ''esp_server'') \<le> 512"
    using decimal_length [of 23 2] by (simp add: response_length)
  ultimately show ?thesis
    using example_server_answers [OF env(1,2) _ _ env(3), of "''esp_server''" "server_setup quiet_env 80"
        "[\<lparr>pb_id = 3, payload = [71, 69], pb_flags = 0\<rparr>, \<lparr>pb_id = 4, payload = [84], pb_flags = 1\<rparr>]" 0 0 mem0]
    by auto
qed

text \<open>
  A client that has less room than the response gets a truncated one, which no reader
  takes for complete, and the sketch sends nothing more until the peer sends again.
\<close>

lemma example_response_truncated:
  "w < length (http_response host) \<Longrightarrow> http_body (take w (http_response host)) = None"
proof -
  obtain hs where hs: "http_headers (http_response host) = Some (hs, server_reply host)"
    "content_length hs = Some (length (server_reply host))"
    by (rule that [OF response_headers]) (simp add: content_length_def undecimal_decimal)
  assume "w < length (http_response host)"
  then show ?thesis by (rule prefix_incomplete [OF hs])
qed

end
