(* ===== verification/DebugStamp.thy ===== *)
theory DebugStamp
  imports Sketches CipherSuites
begin

text \<open>
  What debug builds print: the time stamp every debug message starts with, the macros that
  print one (DebugPrintMacros.h), and the name of a TLS version (tcp_bearssl.cpp).
\<close>

section \<open>Time stamps\<close>

text \<open>The members \<open>whole\<close> and \<open>dec\<close>, for the answer of \<open>millis()\<close>.\<close>

record DEBUG_TIME_STAMP =
  dec :: u32
  whole :: u32

definition debugTimeStamp :: "u32 \<Rightarrow> DEBUG_TIME_STAMP" where
  "debugTimeStamp ms = (let now = ms mod 1000000000 in \<lparr>dec = now mod 1000, whole = now div 1000\<rparr>)"

text \<open>\<open>DEBUG_TIME_STAMP_FMT\<close>, which is \<open>%06u.%03u\<close> and a blank.\<close>

definition padded :: "nat \<Rightarrow> nat \<Rightarrow> string" where
  "padded w n = replicate (w - length (decimal n)) CHR ''0'' @ decimal n"

definition stamp :: "u32 \<Rightarrow> string" where
  "stamp ms = (let st = debugTimeStamp ms
     in padded 6 (unat (whole st)) @ ''.'' @ padded 3 (unat (dec st)) @ '' '')"

lemma undecimal_zeros: "undecimal 0 (replicate k CHR ''0'' @ xs) = undecimal 0 xs"
  by (induction k) simp_all

lemma padded_value: "undecimal 0 (padded w n) = n"
  by (simp add: padded_def undecimal_zeros undecimal_decimal)

lemma padded_length: "n < 10 ^ w \<Longrightarrow> 0 < w \<Longrightarrow> length (padded w n) = w"
  using decimal_length [of n w] by (simp add: padded_def)

lemma stamp_parts:
  "unat (whole (debugTimeStamp ms)) = unat ms mod 1000000000 div 1000"
  "unat (dec (debugTimeStamp ms)) = unat ms mod 1000000000 mod 1000"
  by (simp_all add: debugTimeStamp_def Let_def unat_div unat_mod)

text \<open>
  A stamp has 11 characters, whatever the time, so that messages align, and it gives the
  time to the millisecond, modulo \<open>10 ^ 9\<close> ms.
\<close>

lemma stamp_readable:
  "length (stamp ms) = 11"
  "undecimal 0 (take 6 (stamp ms)) * 1000 + undecimal 0 (take 3 (drop 7 (stamp ms)))
     = unat ms mod 1000000000"
proof -
  let ?w = "padded 6 (unat (whole (debugTimeStamp ms)))" and ?d = "padded 3 (unat (dec (debugTimeStamp ms)))"
  have "unat ms mod 1000000000 div 1000 < 1000000" by (simp add: div_less_iff_less_mult)
  then have len: "length ?w = 6" "length ?d = 3"
    by (simp_all add: padded_length stamp_parts del: mod_mod_cancel)
  then show "length (stamp ms) = 11" by (simp add: stamp_def Let_def)
  have "take 6 (stamp ms) = ?w" "take 3 (drop 7 (stamp ms)) = ?d"
    using len by (simp_all add: stamp_def Let_def)
  then show "undecimal 0 (take 6 (stamp ms)) * 1000 + undecimal 0 (take 3 (drop 7 (stamp ms)))
     = unat ms mod 1000000000"
    by (simp add: padded_value stamp_parts del: mod_mod_cancel)
qed

text \<open>
  Stamps do not order messages over the wrap of \<open>millis()\<close>: after 49 days the clock starts
  again at 0, but the stamp jumps back from 294967.295, not from 999999.999.
\<close>

lemma stamp_wrap:
  "unat (whole (debugTimeStamp (- 1))) = 294967" "unat (dec (debugTimeStamp (- 1))) = 295"
  "unat (whole (debugTimeStamp 0)) = 0"
  by (simp_all add: stamp_parts unsigned_minus_1_eq_mask mask_eq_exp_minus_1)

section \<open>Messages\<close>

text \<open>
  What the macros print in a debug build, for a message that \<open>printf\<close> has formatted to
  \<open>msg\<close>: the stamp, the module and the message.  A failed assertion says where it is.
\<close>

definition DEBUG_GENERIC :: "string \<Rightarrow> string \<Rightarrow> u32 \<Rightarrow> string" where
  "DEBUG_GENERIC module msg ms = stamp ms @ module @ '' '' @ msg"

definition ASSERT_GENERIC ::
  "bool \<Rightarrow> string \<Rightarrow> string \<Rightarrow> string \<Rightarrow> string \<Rightarrow> nat \<Rightarrow> u32 \<Rightarrow> string" where
  "ASSERT_GENERIC a a_text module file func line ms =
     (if \<not> a then DEBUG_GENERIC module (file @ '':'' @ func @ '':'' @ decimal line
          @ '': ASSERT('' @ a_text @ '') failed!'' @ [CHR 0x0A]) ms
      else [])"

definition ASYNC_TCP_DEBUG :: "string \<Rightarrow> u32 \<Rightarrow> string" where
  "ASYNC_TCP_DEBUG msg ms = DEBUG_GENERIC ''[ASYNC_TCP]'' msg ms"

definition TCP_SSL_DEBUG :: "string \<Rightarrow> u32 \<Rightarrow> string" where
  "TCP_SSL_DEBUG msg ms = DEBUG_GENERIC ''[TCP_SSL]'' msg ms"

text \<open>
  The two modules can be told apart at the same place of every message, and the message
  can be read off after it; an assertion is silent exactly if it holds.
\<close>

lemma debug_messages_readable:
  "take 9 (drop 11 (ASYNC_TCP_DEBUG msg ms)) = ''[ASYNC_TC''" "drop 23 (ASYNC_TCP_DEBUG msg ms) = msg"
  "take 9 (drop 11 (TCP_SSL_DEBUG msg ms)) = ''[TCP_SSL]''" "drop 21 (TCP_SSL_DEBUG msg ms) = msg"
  "ASSERT_GENERIC a a_text module file func line ms = [] \<longleftrightarrow> a"
  using stamp_readable(1) [of ms]
  by (simp_all add: ASYNC_TCP_DEBUG_def TCP_SSL_DEBUG_def DEBUG_GENERIC_def ASSERT_GENERIC_def)

section \<open>Versions\<close>

text \<open>\<open>None\<close> stands for a number that is none of BearSSL's versions.\<close>

definition tcp_ssl_version_string :: "tls_version option \<Rightarrow> string" where
  "tcp_ssl_version_string v = (case v of Some BR_TLS10 \<Rightarrow> ''TLS1.0'' | Some BR_TLS11 \<Rightarrow> ''TLS1.1''
     | Some BR_TLS12 \<Rightarrow> ''TLS1.2'' | None \<Rightarrow> ''Unknown'')"

lemma version_string_inj: "inj tcp_ssl_version_string"
proof (rule injI)
  fix v w assume "tcp_ssl_version_string v = tcp_ssl_version_string w"
  then show "v = w" by (simp add: tcp_ssl_version_string_def split: option.splits tls_version.splits)
qed

end
