(* ===== verification/Spec2Isabelle.thy ===== *)
theory Spec2Isabelle
  imports BufferFlush Server ClientCopy ClientList CipherSuites ClientSystem ClientConnect TlsConnection Exchange Sketches DebugStamp
begin

text \<open>
  ESPAsyncTCP, an asynchronous TCP library for the ESP8266 (src/src/), modelled and verified
  as it is built with TLS support (\<open>ASYNC_TCP_SSL_ENABLED\<close>), on lwIP 2 and without debug
  output.

  The program.  An \<open>AsyncClient\<close> wraps an lwIP pcb: lwIP calls its static handlers, which
  call the \<open>std::function\<close>s the sketch installed, and these may call the client again,
  close, abort or delete it.  The handlers' return value to lwIP is computed by an error
  tracker (\<open>ACErrorTracker\<close>) that outlives the client.  With TLS, data goes through
  tcp_bearssl.cpp, which keeps a list of per-connection BearSSL engines.  An \<open>AsyncServer\<close>
  listens and makes clients of the connections lwIP accepts.  An \<open>AsyncTCPBuffer\<close> sits on a
  client and gives it a send queue and read requests.

  Method.  lwIP, BearSSL, the Arduino core and the heap are not under src/.  Their answers
  are the fields of the record \<open>env\<close> (theory Platform), functions of the history of calls
  made so far, so that nothing is assumed of them that a theorem does not state; every call
  the library makes, and every handler it runs, is an event of the history \<open>log\<close>.  States
  are records, operations are functions that return the new state or a fault (\<open>'a res\<close>):
  use of a deleted object, a loop that ran out of fuel, \<open>panic()\<close>, a NULL pointer.  User
  code is a parameter: an arbitrary function, or a \<open>sketch\<close>, which for every handler gives
  a sequence of API calls; handlers nest to any depth.

  Theories, and the code they model:
  \<^item> Prelude: words, results (\<open>rbind\<close>, \<open>ok\<close>, \<open>no_fault\<close>).  Platform: events, \<open>env\<close>,
    async_config.h.
  \<^item> ErrorTracker: ESPAsyncTCPErrorTracker.h/.cpp.  ERR_ABRT is reported at most once.
  \<^item> SslRegistry: the list \<open>tcp_ssl_pcbs\<close> of tcp_bearssl.cpp; locale \<open>registry\<close> (lookup after
    insert, remove, update), interpreted on the list operations.
  \<^item> SslEngine: \<open>process_ssl_engine\<close>, \<open>tcp_ssl_new_client\<close>/\<open>server\<close>, \<open>tcp_ssl_write\<close>,
    \<open>tcp_ssl_read\<close>.  SslReassembly: what \<open>tcp_ssl_read\<close> does to its reassembly buffer,
    for every callback that satisfies the locale \<open>engine_user\<close>.
  \<^item> Pem: \<open>parse_certificates\<close> and \<open>tcp_ssl_new_server_ctx\<close>; locale \<open>pem_stream\<close> for BearSSL's
    PEM decoder, against which the parser is equivalent to the function \<open>certs_of\<close>.
  \<^item> X509: the insecure validator of tcp_bearssl.cpp and the authentication modes.
  \<^item> Client: ESPAsyncTCPClient.h/.cpp, state and operations.  ClientRun: the lwIP handlers
    \<open>_recv\<close>, \<open>_sent\<close>, \<open>_poll\<close>, \<open>_connected\<close>, \<open>_error\<close> and their static wrappers, sketches,
    and the step relation of a client driven by lwIP and its sketch.  Operations and static
    wrappers fault when the client was deleted: lwIP may still have its address.  ClientCopy: \<open>operator=\<close>,
    \<open>operator==\<close>, \<open>load_ca_certs_from_pem\<close> and the getters.  ClientList: the intrusive list of
    \<open>operator+=\<close>, on a heap of \<open>prev\<close> and \<open>next\<close> pointers.
  \<^item> ClientTls, ClientProps, ClientEvents, ClientSecure: properties of single operations.
  \<^item> ClientContract: the locale \<open>client_contract\<close>, a relation that the primitive steps
    respect is respected by every operation, whatever the sketch does (except, where the
    relation needs it, TLS or \<open>abort()\<close> in a handler).  ClientSafety uses
    it for the value returned to lwIP and for the use of released pcbs, Server for the
    calls only a server makes, ClientIsolation for the connections of other clients.
  \<^item> ClientSystem: any number of plain clients on one lwIP, their steps interleaved,
    creation, deletion and assignment included; the invariants of one client hold of all of
    them.  Assigning a client that has a connection is a step only of the variant for which
    they are shown to fail.
  \<^item> ClientConnect: \<open>connect\<close>, the answer of the name server and \<open>_connected\<close> together, with
    arbitrary calls in between except \<open>connect\<close> and \<open>delete\<close>; what the sketch cannot do to a
    connection that is still being made; overlapping attempts.
  \<^item> TlsRelay: locale \<open>tls_listener\<close>, interpreted on sketches that do not close; what goes in
    and out of the TLS engine is what the handlers and lwIP get.  TlsConnection: the same for
    a whole connection, driven by the callbacks of lwIP from \<open>_connected\<close> to its end; and
    that the connection returns from all of them.
  \<^item> Exchange: the byte accounting of a plain connection over whole exchanges, with
    \<open>tcp_write\<close> failing or not, and \<open>close(false)\<close>.
  \<^item> Server: ESPAsyncTCPServer.h/.cpp, its reachable states and their invariant.
  \<^item> Buffer: ESPAsyncTCPBuffer.h/.cpp; locale \<open>cbuf_fifo\<close> for the \<open>cbuf\<close> of the Arduino
    core, whose \<open>resizeAdd\<close> may fail, extended by \<open>cbuf_growing\<close>, where it does not; both are
    interpreted.  BufferTx and BufferRx: both directions refine a queue of bytes.  BufferRx
    states the contract of the user's callbacks as locales, \<open>buffer_user\<close>,
    \<open>invariant_buffer_user\<close> (an invariant they keep, such as the state of the client) and
    \<open>total_buffer_user\<close> (they return).  BufferProps: the properties.  BufferClient: the handlers of the buffer
    as the user code of its client; what lwIP delivers to \<open>_recv\<close> reaches the user of the
    buffer.  BufferFlush: the shape of the send chain, \<open>flush\<close>, \<open>stop\<close> and the remaining
    overloads; locale \<open>acking_yield\<close> for what lwIP does while \<open>flush\<close> waits.
  \<^item> CipherSuites: the table \<open>suites_P\<close> and \<open>br_ssl_client_base_init\<close> of tcp_bearssl.cpp; the
    order of the table against its rationale, and the one rule it breaks.
  \<^item> Sketches: the example sketches (src/examples/ClientServer) as user code of the model.
  \<^item> DebugStamp: what debug messages look like, their time stamps, and the names of TLS versions.

  Fuel and bounds.  Structural loops of the code are structural here.  \<open>rx_more\<close> and the
  accumulation loop of \<open>tcp_ssl_read\<close> have termination proofs.  The others take fuel, and
  enough fuel is stated where a theorem says that the code returns: \<open>2 * n + 2\<close> for an
  \<open>AsyncTCPBuffer\<close> write of \<open>n\<close> bytes, the length of the text plus one for the PEM parser,
  three per queued byte, one per byte lwIP already has and four for \<open>flush\<close>, the length of
  the list for \<open>operator+=\<close>, the measure of the engine for \<open>process_ssl_engine\<close>.
  \<open>send_buffer_spins\<close> shows a loop for which no fuel is enough.  Counters and times are words of their width.

  What does not hold.  Several theorems show the code failing its purpose: user code that
  deletes, closes or aborts in a handler, TLS on the server side, aborts that are reported
  wrongly, the reassembly of TLS records, retransmission by the buffer, connections that
  cannot be stopped while they are made.  Each states the
  exact circumstances; the positive theorems exclude them by hypotheses.

  Not modelled.  Debug builds (event counters, connection ids, the text of the single debug
  messages), lwIP 1, builds without TLS, the code for pending connections that is commented
  out at the end of ESPAsyncTCPServer.cpp, what the library itself prints on the serial
  line, the scripts in src/ssl.  Uninitialised members of a new client are whatever the
  memory held.  \<open>AsyncTCPBuffer\<close> is run on a plain client.  The step relation of
  a client has one connection at a time: lwIP's callbacks for a second pcb whose connection
  is made while the client has one are only in ClientConnect, where the code goes wrong.
  That the engine comes to rest, and that it completes no handshake before it was fed, are
  hypotheses of the theorems about TLS connections, since BearSSL is not under src/.
\<close>

end
